(* ===== verification/Prelude.thy ===== *)
theory Prelude
  imports Main "HOL-Library.Monad_Syntax" "HOL-Library.AList" "HOL-Library.Code_Target_Nat"
begin

text \<open>
  Shared vocabulary of the development.

  \<^item> Rust's \<^verbatim>\<open>u64\<close> arithmetic. A value is a natural number below \<open>u64_lim\<close>. The operators take
    the build profile's \<^verbatim>\<open>overflow-checks\<close> flag \<open>oc\<close>: with checks (the \<^verbatim>\<open>dev\<close> profile that
    \<^verbatim>\<open>make dev\<close> and \<^verbatim>\<open>cargo run\<close> use) an overflow panics, without them (the \<^verbatim>\<open>release\<close> profile)
    the result wraps modulo \<open>2 ^ 64\<close>.
  \<^item> Panics. A computation that may panic, fail an \<^verbatim>\<open>expect\<close>/\<^verbatim>\<open>unwrap\<close> or run forever returns an
    \<open>option\<close>, and \<open>None\<close> stands for all of these; the \<open>do\<close> notation of the option monad
    sequences such steps.
  \<^item> Sums over lists, used for every conservation statement.
  \<^item> ASCII case mapping for the few strings the code compares case-insensitively.
\<close>

section \<open>Collections of rewrite rules\<close>

named_theorems u64_simps \<open>checked arithmetic that stays in range\<close>
named_theorems kv_simps \<open>lookups and totals after a map update\<close>
named_theorems frame_simps \<open>fields an operation leaves alone\<close>

section \<open>Unsigned 64-bit arithmetic\<close>

definition u64_lim :: nat where
  "u64_lim = 18446744073709551616"

abbreviation u64_ok :: "nat \<Rightarrow> bool" where
  "u64_ok n \<equiv> n < u64_lim"

definition u64_add :: "bool \<Rightarrow> nat \<Rightarrow> nat \<Rightarrow> nat option" where
  "u64_add oc a b =
     (if a + b < u64_lim then Some (a + b)
      else if oc then None else Some ((a + b) mod u64_lim))"

definition u64_sub :: "bool \<Rightarrow> nat \<Rightarrow> nat \<Rightarrow> nat option" where
  "u64_sub oc a b =
     (if b \<le> a then Some (a - b)
      else if oc then None else Some ((a + u64_lim - b) mod u64_lim))"

definition u64_mul :: "bool \<Rightarrow> nat \<Rightarrow> nat \<Rightarrow> nat option" where
  "u64_mul oc a b =
     (if a * b < u64_lim then Some (a * b)
      else if oc then None else Some ((a * b) mod u64_lim))"

text \<open>\<^verbatim>\<open>u64::saturating_sub\<close> is the truncating subtraction of \<open>nat\<close>.\<close>

definition saturating_sub :: "nat \<Rightarrow> nat \<Rightarrow> nat" where
  "saturating_sub a b = a - b"

lemma u64_add_ok [u64_simps]: "a + b < u64_lim \<Longrightarrow> u64_add oc a b = Some (a + b)"
  by (simp add: u64_add_def)

lemma u64_sub_ok [u64_simps]: "b \<le> a \<Longrightarrow> u64_sub oc a b = Some (a - b)"
  by (simp add: u64_sub_def)

lemma u64_mul_ok [u64_simps]: "a * b < u64_lim \<Longrightarrow> u64_mul oc a b = Some (a * b)"
  by (simp add: u64_mul_def)

text \<open>
  The two profiles agree wherever the checked one returns: a statement that the checked run does
  not panic is therefore also a statement that the release build computes the exact result.
\<close>

lemma u64_add_profiles: "u64_add True a b = Some c \<Longrightarrow> u64_add oc a b = Some c"
  by (auto simp: u64_add_def split: if_splits)

lemma u64_sub_profiles: "u64_sub True a b = Some c \<Longrightarrow> u64_sub oc a b = Some c"
  by (auto simp: u64_sub_def split: if_splits)

lemma u64_mul_profiles: "u64_mul True a b = Some c \<Longrightarrow> u64_mul oc a b = Some c"
  by (auto simp: u64_mul_def split: if_splits)

lemma u64_lim_pos [simp]: "0 < u64_lim"
  by (simp add: u64_lim_def)

text \<open>A product that fits still fits with a smaller factor.\<close>

lemma scaled_fits: "v \<le> w \<Longrightarrow> w < u64_lim \<and> w * k < u64_lim \<Longrightarrow> v < u64_lim \<and> v * k < u64_lim"
  by (meson le_less_trans mult_le_mono1)

text \<open>\<^verbatim>\<open>Iterator::sum\<close> over \<^verbatim>\<open>u64\<close>: a left fold with the profile's addition.\<close>

fun u64_sum_from :: "bool \<Rightarrow> nat \<Rightarrow> nat list \<Rightarrow> nat option" where
  "u64_sum_from oc acc [] = Some acc"
| "u64_sum_from oc acc (x # xs) = do { a \<leftarrow> u64_add oc acc x; u64_sum_from oc a xs }"

lemma u64_sum_from_ok [u64_simps]:
  "acc + sum_list xs < u64_lim \<Longrightarrow> u64_sum_from oc acc xs = Some (acc + sum_list xs)"
  by (induction xs arbitrary: acc) (auto simp: u64_simps add.assoc)

section \<open>Sequencing in the option monad\<close>

lemma bind_Some_iff: "(m \<bind> f) = Some y \<longleftrightarrow> (\<exists>x. m = Some x \<and> f x = Some y)"
  by (cases m) auto

fun map_m :: "('a \<Rightarrow> 'b option) \<Rightarrow> 'a list \<Rightarrow> 'b list option" where
  "map_m f [] = Some []"
| "map_m f (x # xs) = do { y \<leftarrow> f x; ys \<leftarrow> map_m f xs; Some (y # ys) }"

lemma map_m_ok: "(\<And>x. x \<in> set xs \<Longrightarrow> f x = Some (g x)) \<Longrightarrow> map_m f xs = Some (map g xs)"
  by (induction xs) auto

section \<open>Sums over lists\<close>

abbreviation sum_of :: "('a \<Rightarrow> nat) \<Rightarrow> 'a list \<Rightarrow> nat" where
  "sum_of f xs \<equiv> sum_list (map f xs)"

lemma sum_of_mono: "(\<And>x. x \<in> set xs \<Longrightarrow> f x \<le> g x) \<Longrightarrow> sum_of f xs \<le> sum_of g xs"
  by (induction xs) (auto intro: add_mono)

lemma sum_of_le_member: "x \<in> set xs \<Longrightarrow> f x \<le> sum_of f xs"
  by (induction xs) auto

lemma sum_of_add: "sum_of (\<lambda>x. f x + g x) xs = sum_of f xs + sum_of g xs"
  by (induction xs) auto

lemma sum_of_cong: "(\<And>x. x \<in> set xs \<Longrightarrow> f x = g x) \<Longrightarrow> sum_of f xs = sum_of g xs"
  by (induction xs) auto

lemma sum_of_zero: "(\<And>x. x \<in> set xs \<Longrightarrow> f x = 0) \<Longrightarrow> sum_of f xs = 0"
  by (induction xs) auto

lemma sum_of_rev [simp]: "sum_of f (rev xs) = sum_of f xs"
  by (induction xs) auto

lemma sum_of_distinct: "distinct xs \<Longrightarrow> sum_of f xs = sum f (set xs)"
  by (induction xs) auto

text \<open>A sum over a list, collected by a key.\<close>

lemma sum_of_by_key:
  assumes "finite U" and "key ` set xs \<subseteq> U"
  shows "(\<Sum>u\<in>U. sum_of (\<lambda>x. if key x = u then f x else 0) xs) = sum_of f xs"
  using assms(2)
proof (induction xs)
  case (Cons x xs)
  then show ?case using assms(1) by (simp add: sum.distrib)
qed simp

section \<open>Integer division\<close>

text \<open>Splitting an amount never raises the sum of the rounded-down fees.\<close>

lemma div_superadd: "(a::nat) div k + b div k \<le> (a + b) div k"
  by (metis div_add1_eq le_add1)

section \<open>Strings\<close>

text \<open>
  \<^verbatim>\<open>str::to_lowercase\<close> and \<^verbatim>\<open>str::to_uppercase\<close> on ASCII text. Bytes outside \<^verbatim>\<open>A-Z\<close> and \<^verbatim>\<open>a-z\<close> are
  left alone. No character beyond ASCII has a lower-case form among the letters of the asset, side
  and order-type keywords the code compares with, so those comparisons are exact.
\<close>

definition char_lower :: "char \<Rightarrow> char" where
  "char_lower c = (if 65 \<le> (of_char c :: nat) \<and> (of_char c :: nat) \<le> 90
                   then char_of ((of_char c :: nat) + 32) else c)"

definition char_upper :: "char \<Rightarrow> char" where
  "char_upper c = (if 97 \<le> (of_char c :: nat) \<and> (of_char c :: nat) \<le> 122
                   then char_of ((of_char c :: nat) - 32) else c)"

definition to_lowercase :: "string \<Rightarrow> string" where
  "to_lowercase s = map char_lower s"

definition to_uppercase :: "string \<Rightarrow> string" where
  "to_uppercase s = map char_upper s"

lemma char_lower_idem [simp]: "char_lower (char_lower c) = char_lower c"
  by (auto simp: char_lower_def)

lemma to_lowercase_idem [simp]: "to_lowercase (to_lowercase s) = to_lowercase s"
  by (simp add: to_lowercase_def)

end
