(* ===== verification/Kv_Store.thy ===== *)
theory Kv_Store
  imports Prelude
begin

text \<open>
  The two key-value containers of the standard library that the code uses.

  \<^item> \<^verbatim>\<open>HashMap<K, V>\<close>: an association list with distinct keys. The iteration order of a Rust hash map
    is unspecified; in the model it is the list order, and no theorem depends on it.
  \<^item> \<^verbatim>\<open>BTreeMap<K, V>\<close>: an association list whose keys strictly increase, which is the order in which
    the map is iterated.

  The locale \<open>kv_store\<close> states what a client of either may rely on; the laws about totals over
  all entries are proved once inside it and reach both containers by interpretation.
\<close>

section \<open>The interface\<close>

locale kv_store =
  fixes get :: "'m \<Rightarrow> 'k \<Rightarrow> 'v option"
    and put :: "'k \<Rightarrow> 'v \<Rightarrow> 'm \<Rightarrow> 'm"
    and del :: "'k \<Rightarrow> 'm \<Rightarrow> 'm"
    and entries :: "'m \<Rightarrow> ('k \<times> 'v) list"
    and wf :: "'m \<Rightarrow> bool"
  assumes get_put: "wf m \<Longrightarrow> get (put k v m) = (get m)(k \<mapsto> v)"
    and get_del: "wf m \<Longrightarrow> get (del k m) = (get m)(k := None)"
    and wf_put: "wf m \<Longrightarrow> wf (put k v m)"
    and wf_del: "wf m \<Longrightarrow> wf (del k m)"
    and get_entries: "wf m \<Longrightarrow> get m = map_of (entries m)"
    and distinct_entries: "wf m \<Longrightarrow> distinct (map fst (entries m))"
begin

lemma entries_iff: "wf m \<Longrightarrow> (k, v) \<in> set (entries m) \<longleftrightarrow> get m k = Some v"
  by (simp add: get_entries distinct_entries)

lemma total_as_sum: "wf m \<Longrightarrow> sum_of f (entries m) = sum f {(k, v). get m k = Some v}"
proof -
  assume wf: "wf m"
  have "set (entries m) = {(k, v). get m k = Some v}"
    using entries_iff [OF wf] by auto
  with wf show ?thesis
    using distinct_entries [OF wf] by (simp add: sum_of_distinct distinct_map)
qed

lemma finite_bindings: "wf m \<Longrightarrow> finite {(k, v). get m k = Some v}"
  by (rule finite_subset [of _ "set (entries m)"]) (auto simp: entries_iff)

lemma total_put:
  assumes wf: "wf m"
  shows "sum_of f (entries (put k v m)) + (case get m k of None \<Rightarrow> 0 | Some w \<Rightarrow> f (k, w))
       = sum_of f (entries m) + f (k, v)"
proof -
  let ?B = "{(k', w). get m k' = Some w \<and> k' \<noteq> k}"
  have fin: "finite ?B"
    by (rule finite_subset [OF _ finite_bindings [OF wf]]) auto
  have new: "{(k', w). get (put k v m) k' = Some w} = insert (k, v) ?B"
    using wf by (auto simp: get_put split: if_splits)
  have old: "{(k', w). get m k' = Some w} =
      (case get m k of None \<Rightarrow> ?B | Some w \<Rightarrow> insert (k, w) ?B)"
    by (auto split: option.splits)
  show ?thesis
    using wf wf_put [OF wf] fin
    by (auto simp: total_as_sum new old split: option.splits)
qed

lemma total_del:
  assumes wf: "wf m" and get: "get m k = Some w"
  shows "sum_of f (entries (del k m)) + f (k, w) = sum_of f (entries m)"
proof -
  let ?B = "{(k', w). get m k' = Some w \<and> k' \<noteq> k}"
  have fin: "finite ?B"
    by (rule finite_subset [OF _ finite_bindings [OF wf]]) auto
  have new: "{(k', w). get (del k m) k' = Some w} = ?B"
    using wf by (auto simp: get_del split: if_splits)
  have old: "{(k', w). get m k' = Some w} = insert (k, w) ?B"
    using get by auto
  show ?thesis
    using wf wf_del [OF wf] fin by (simp add: total_as_sum new old)
qed

lemma total_ge_entry: "wf m \<Longrightarrow> get m k = Some v \<Longrightarrow> f (k, v) \<le> sum_of f (entries m)"
  by (rule sum_of_le_member) (simp add: entries_iff)

end

section \<open>HashMap\<close>

type_synonym ('k, 'v) hash_map = "('k \<times> 'v) list"

abbreviation hm_get :: "('k, 'v) hash_map \<Rightarrow> 'k \<Rightarrow> 'v option" where
  "hm_get \<equiv> map_of"

abbreviation hm_insert :: "'k \<Rightarrow> 'v \<Rightarrow> ('k, 'v) hash_map \<Rightarrow> ('k, 'v) hash_map" where
  "hm_insert \<equiv> AList.update"

abbreviation hm_remove :: "'k \<Rightarrow> ('k, 'v) hash_map \<Rightarrow> ('k, 'v) hash_map" where
  "hm_remove \<equiv> AList.delete"

abbreviation hm_wf :: "('k, 'v) hash_map \<Rightarrow> bool" where
  "hm_wf m \<equiv> distinct (map fst m)"

text \<open>\<^verbatim>\<open>HashMap::entry(k).or_default()\<close> and a read that falls back to the default.\<close>

definition hm_get_or :: "'v \<Rightarrow> ('k, 'v) hash_map \<Rightarrow> 'k \<Rightarrow> 'v" where
  "hm_get_or d m k = (case hm_get m k of None \<Rightarrow> d | Some v \<Rightarrow> v)"

definition hm_entry_or :: "'v \<Rightarrow> 'k \<Rightarrow> ('k, 'v) hash_map \<Rightarrow> ('k, 'v) hash_map" where
  "hm_entry_or d k m = (case hm_get m k of None \<Rightarrow> hm_insert k d m | Some _ \<Rightarrow> m)"

interpretation hm: kv_store hm_get hm_insert hm_remove "\<lambda>m. m" hm_wf
  by unfold_locales (simp_all add: AList.update_conv' AList.delete_conv' AList.distinct_update
      AList.distinct_delete)

lemma hm_get_or_insert [kv_simps]:
  "hm_get_or d (hm_insert k v m) k' = (if k' = k then v else hm_get_or d m k')"
  by (simp add: hm_get_or_def AList.update_conv')

lemma hm_get_or_entry [kv_simps]: "hm_get_or d (hm_entry_or d k m) k' = hm_get_or d m k'"
  by (auto simp: hm_get_or_def hm_entry_or_def AList.update_conv' split: option.splits)

lemma hm_wf_entry: "hm_wf m \<Longrightarrow> hm_wf (hm_entry_or d k m)"
  by (auto simp: hm_entry_or_def intro: AList.distinct_update split: option.splits)

lemma hm_insert_fresh: "hm_get m k = None \<Longrightarrow> hm_insert k v m = m @ [(k, v)]"
  by (induction m) (auto split: if_splits)

lemma hm_entry_total: "f (k, d) = 0 \<Longrightarrow> sum_of f (hm_entry_or d k m) = sum_of f m"
  by (cases "hm_get m k") (simp_all add: hm_entry_or_def hm_insert_fresh)

text \<open>A measure of the entries that is zero on the default value sees no difference between a
  missing and a default entry.\<close>

lemma hm_total_insert:
  assumes "hm_wf m" and "\<And>k. f (k, d) = 0"
  shows "sum_of f (hm_insert k v m) + f (k, hm_get_or d m k) = sum_of f m + f (k, v)"
  using hm.total_put [OF assms(1), of f k v] assms(2)
  by (auto simp: hm_get_or_def split: option.splits)

lemma hm_total_ge:
  assumes "hm_wf m" and "\<And>k. f (k, d) = 0"
  shows "f (k, hm_get_or d m k) \<le> sum_of f m"
  using hm.total_ge_entry [OF assms(1), of k _ f] assms(2)
  by (auto simp: hm_get_or_def split: option.splits)

section \<open>BTreeMap\<close>

type_synonym ('k, 'v) btree_map = "('k \<times> 'v) list"

fun bt_insert :: "'k::linorder \<Rightarrow> 'v \<Rightarrow> ('k, 'v) btree_map \<Rightarrow> ('k, 'v) btree_map" where
  "bt_insert k v [] = [(k, v)]"
| "bt_insert k v ((k', v') # m) =
     (if k < k' then (k, v) # (k', v') # m
      else if k = k' then (k, v) # m
      else (k', v') # bt_insert k v m)"

abbreviation bt_get :: "('k, 'v) btree_map \<Rightarrow> 'k \<Rightarrow> 'v option" where
  "bt_get \<equiv> map_of"

abbreviation bt_remove :: "'k \<Rightarrow> ('k, 'v) btree_map \<Rightarrow> ('k, 'v) btree_map" where
  "bt_remove \<equiv> AList.delete"

definition bt_wf :: "('k::linorder, 'v) btree_map \<Rightarrow> bool" where
  "bt_wf m \<longleftrightarrow> sorted_wrt (<) (map fst m)"

definition bt_first :: "('k, 'v) btree_map \<Rightarrow> ('k \<times> 'v) option" where
  "bt_first m = (case m of [] \<Rightarrow> None | kv # _ \<Rightarrow> Some kv)"

definition bt_last :: "('k, 'v) btree_map \<Rightarrow> ('k \<times> 'v) option" where
  "bt_last m = (case rev m of [] \<Rightarrow> None | kv # _ \<Rightarrow> Some kv)"

lemma bt_wf_distinct: "bt_wf m \<Longrightarrow> distinct (map fst m)"
  by (simp add: bt_wf_def strict_sorted_iff)

lemma bt_wf_simps [simp]:
  "bt_wf []"
  "bt_wf ((k, v) # m) \<longleftrightarrow> (\<forall>k' \<in> fst ` set m. k < k') \<and> bt_wf m"
  "bt_wf (m @ [(k, v)]) \<longleftrightarrow> (\<forall>k' \<in> fst ` set m. k' < k) \<and> bt_wf m"
  by (auto simp: bt_wf_def sorted_wrt_append)

lemma bt_keys_insert: "fst ` set (bt_insert k v m) = insert k (fst ` set m)"
  by (induction m) force+

lemma bt_get_insert: "bt_get (bt_insert k v m) = (bt_get m)(k \<mapsto> v)"
  by (induction m) (auto simp: fun_eq_iff)

lemma bt_wf_insert: "bt_wf m \<Longrightarrow> bt_wf (bt_insert k v m)"
proof (induction m)
  case (Cons kv m)
  then show ?case
    by (cases kv) (force simp: bt_keys_insert)
qed simp

lemma bt_wf_remove: "bt_wf m \<Longrightarrow> bt_wf (bt_remove k m)"
  by (simp add: bt_wf_def AList.delete_eq sorted_wrt_map sorted_wrt_filter)

interpretation bt: kv_store bt_get bt_insert bt_remove "\<lambda>m. m" bt_wf
  by unfold_locales
    (simp_all add: bt_get_insert AList.delete_conv' bt_wf_insert bt_wf_remove bt_wf_distinct)

text \<open>Updates at the two ends of the map, where the matching loop works.\<close>

lemma bt_insert_first [simp]: "bt_insert k v' ((k, v) # m) = (k, v') # m"
  by simp

lemma bt_insert_last [simp]:
  "bt_wf (m @ [(k, v)]) \<Longrightarrow> bt_insert k v' (m @ [(k, v)]) = m @ [(k, v')]"
  by (induction m) (auto simp: bt_wf_def)

lemma bt_remove_fresh: "k \<notin> fst ` set m \<Longrightarrow> bt_remove k m = m"
  by (induction m) auto

lemma bt_remove_tail: "bt_wf ((k, v) # m) \<Longrightarrow> bt_remove k m = m"
  by (rule bt_remove_fresh) auto

lemma bt_remove_first: "bt_wf ((k, v) # m) \<Longrightarrow> bt_remove k ((k, v) # m) = m"
  using bt_remove_tail [of k v m] by simp

lemma bt_remove_last: "bt_wf (m @ [(k, v)]) \<Longrightarrow> bt_remove k (m @ [(k, v)]) = m"
proof -
  assume "bt_wf (m @ [(k, v)])"
  then have "k \<notin> fst ` set m" by auto
  then show ?thesis
    by (induction m) auto
qed

text \<open>Updates anywhere in the map, as a split of its entry list.\<close>

lemma bt_split_key:
  assumes "bt_wf m" and "bt_get m k = Some v"
  obtains m1 m2 where "m = m1 @ (k, v) # m2"
    and "\<And>v'. bt_insert k v' m = m1 @ (k, v') # m2"
    and "bt_remove k m = m1 @ m2"
  using assms
proof (induction m arbitrary: thesis)
  case (Cons kv m)
  obtain k0 v0 where kv: "kv = (k0, v0)" by (cases kv)
  show ?case
  proof (cases "k = k0")
    case True
    have "bt_remove k m = m"
      using Cons.prems(2) bt_remove_tail [of k0 v0 m] True kv by simp
    with Cons.prems(3) True kv show ?thesis
      by (intro Cons.prems(1) [of "[]" m]) auto
  next
    case False
    with Cons.prems kv have "bt_wf m" "bt_get m k = Some v" by auto
    then obtain m1 m2 where m: "m = m1 @ (k, v) # m2"
        "\<And>v'. bt_insert k v' m = m1 @ (k, v') # m2" "bt_remove k m = m1 @ m2"
      using Cons.IH by blast
    moreover have "k0 < k"
      using Cons.prems(2) kv m(1) by auto
    ultimately show ?thesis
      using kv by (intro Cons.prems(1) [of "(k0, v0) # m1" m2]) auto
  qed
qed simp

lemma bt_split_fresh:
  assumes "bt_wf m" and "bt_get m k = None"
  obtains m1 m2 where "m = m1 @ m2" and "\<And>v. bt_insert k v m = m1 @ (k, v) # m2"
    and "\<forall>k' \<in> fst ` set m1. k' < k" and "\<forall>k' \<in> fst ` set m2. k < k'"
  using assms
proof (induction m arbitrary: thesis)
  case Nil
  show ?case by (rule Nil(1) [of "[]" "[]"]) auto
next
  case (Cons kv m)
  obtain k0 v0 where kv: "kv = (k0, v0)" by (cases kv)
  show ?case
  proof (cases "k < k0")
    case True
    with Cons.prems(2) kv show ?thesis
      by (intro Cons.prems(1) [of "[]" "kv # m"]) auto
  next
    case False
    with Cons.prems(3) kv have less: "k0 < k" "bt_get m k = None" by (auto split: if_splits)
    then obtain m1 m2 where "m = m1 @ m2" "\<And>v. bt_insert k v m = m1 @ (k, v) # m2"
        "\<forall>k' \<in> fst ` set m1. k' < k" "\<forall>k' \<in> fst ` set m2. k < k'"
      using Cons.IH Cons.prems(2) kv by (metis bt_wf_simps(2))
    with less kv show ?thesis
      by (intro Cons.prems(1) [of "kv # m1" m2]) auto
  qed
qed

end
