(* ===== verification/F64.thy ===== *)
theory F64
  imports Complex_Main "HOL-Library.Log_Nat" Prelude
begin

text \<open>
  The part of IEEE 754 binary64 that the market-order handlers use: conversion from \<^verbatim>\<open>u64\<close>, the
  four arithmetic operations, \<^verbatim>\<open>floor\<close>, \<^verbatim>\<open>ceil\<close> and the saturating cast back to \<^verbatim>\<open>u64\<close>.

  A finite binary64 value is the rational number it denotes; an operation is the exact rational
  operation followed by \<open>f64_round\<close>, rounding to nearest with ties to even at 53 significant bits
  and with the subnormal spacing \<open>2 powi -1074\<close> as the smallest step. JSON carries no infinities
  and no NaN, so every operand is finite. Exponent overflow is not cut off: the results only
  reach the saturating cast, which sends every value beyond the range to the same bound as the
  infinity the hardware would produce.
\<close>

type_synonym f64 = rat

definition pow2 :: "int \<Rightarrow> rat" where
  "pow2 e = (if 0 \<le> e then 2 ^ nat e else 1 / 2 ^ nat (- e))"

text \<open>The exponent of the leading bit of a positive rational \<open>n / d\<close>.\<close>

definition f64_exponent :: "rat \<Rightarrow> int" where
  "f64_exponent x =
     (let (n, d) = quotient_of x; k = bitlen n - bitlen d
      in if pow2 k \<le> x then k else k - 1)"

definition round_half_even :: "rat \<Rightarrow> int" where
  "round_half_even m =
     (let f = \<lfloor>m\<rfloor>; r = m - of_int f
      in if r < 1 / 2 then f else if 1 / 2 < r then f + 1 else if even f then f else f + 1)"

definition f64_ulp :: "rat \<Rightarrow> rat" where
  "f64_ulp x = pow2 (max (f64_exponent \<bar>x\<bar> - 52) (- 1074))"

definition f64_round :: "rat \<Rightarrow> f64" where
  "f64_round x = (if x = 0 then 0 else of_int (round_half_even (x / f64_ulp x)) * f64_ulp x)"

definition f64_of_u64 :: "nat \<Rightarrow> f64" where
  "f64_of_u64 n = f64_round (of_nat n)"

definition f64_add :: "f64 \<Rightarrow> f64 \<Rightarrow> f64" where
  "f64_add a b = f64_round (a + b)"

definition f64_sub :: "f64 \<Rightarrow> f64 \<Rightarrow> f64" where
  "f64_sub a b = f64_round (a - b)"

definition f64_mul :: "f64 \<Rightarrow> f64 \<Rightarrow> f64" where
  "f64_mul a b = f64_round (a * b)"

definition f64_div :: "f64 \<Rightarrow> f64 \<Rightarrow> f64" where
  "f64_div a b = f64_round (a / b)"

text \<open>\<^verbatim>\<open>x.floor() as u64\<close> and \<^verbatim>\<open>x.ceil() as u64\<close>: the cast saturates at both ends of the range.\<close>

definition u64_saturate :: "int \<Rightarrow> nat" where
  "u64_saturate z = nat (max 0 (min z 18446744073709551615))"

definition f64_floor_u64 :: "f64 \<Rightarrow> nat" where
  "f64_floor_u64 x = u64_saturate \<lfloor>x\<rfloor>"

definition f64_ceil_u64 :: "f64 \<Rightarrow> nat" where
  "f64_ceil_u64 x = u64_saturate \<lceil>x\<rceil>"

lemma u64_saturate_ok: "u64_ok (u64_saturate z)"
  by (simp add: u64_saturate_def u64_lim_def)

lemma f64_floor_u64_ok: "u64_ok (f64_floor_u64 x)"
  by (simp add: f64_floor_u64_def u64_saturate_ok)

lemma f64_ceil_u64_ok: "u64_ok (f64_ceil_u64 x)"
  by (simp add: f64_ceil_u64_def u64_saturate_ok)

end
