(* ===== verification/Shared_Models.thy ===== *)
theory Shared_Models
  imports Kv_Store F64
begin

text \<open>
  The crate \<^verbatim>\<open>rs-shared\<close>: channel names (\<^verbatim>\<open>channels.rs\<close>) and the messages that the gateway, the engine
  and the workers exchange (\<^verbatim>\<open>models/\<close>). Structs are records and enums are datatypes with the
  source's variants; the structs that are only ever serialised as replies are the constructors of
  one payload type. \<^verbatim>\<open>u64\<close> fields are natural numbers, \<^verbatim>\<open>i64\<close> fields are integers. The fee schedule
  comes with its arithmetic and the rounding facts every settlement proof uses.
\<close>

section \<open>Channels\<close>

definition CH_SIGNUP :: string where "CH_SIGNUP = ''new-signup''"
definition CH_ORDER :: string where "CH_ORDER = ''incoming-order''"
definition CH_CANCEL :: string where "CH_CANCEL = ''cancel-order''"
definition CH_BALANCE :: string where "CH_BALANCE = ''balance-request''"
definition CH_ONRAMP :: string where "CH_ONRAMP = ''onramp''"
definition CH_DEPOSIT :: string where "CH_DEPOSIT = ''deposite''"
definition CH_ORDERBOOK :: string where "CH_ORDERBOOK = ''get-orderbook''"
definition CH_OPEN_ORDERS :: string where "CH_OPEN_ORDERS = ''get-open-orders''"
definition CH_ORDER_STATUS :: string where "CH_ORDER_STATUS = ''order-status''"
definition CH_RESET :: string where "CH_RESET = ''reset''"
definition REPLY_PREFIX :: string where "REPLY_PREFIX = ''response-queue''"
definition STREAM_EVENTS :: string where "STREAM_EVENTS = ''engine-events''"
definition STREAM_EXECUTIONS :: string where "STREAM_EXECUTIONS = ''engine-executions''"

lemmas channel_defs = CH_SIGNUP_def CH_ORDER_def CH_CANCEL_def CH_BALANCE_def CH_ONRAMP_def
  CH_DEPOSIT_def CH_ORDERBOOK_def CH_OPEN_ORDERS_def CH_ORDER_STATUS_def CH_RESET_def

section \<open>Balances and fees\<close>

record balance =
  available :: nat
  locked :: nat

definition balance_default :: balance where
  "balance_default = \<lparr>available = 0, locked = 0\<rparr>"

record fee_schedule =
  maker_fee_bps :: nat
  taker_fee_bps :: nat

definition fee_schedule_new :: "nat \<Rightarrow> nat \<Rightarrow> fee_schedule" where
  "fee_schedule_new m t = \<lparr>maker_fee_bps = m, taker_fee_bps = t\<rparr>"

text \<open>\<^verbatim>\<open>str::parse::<u64>\<close>: an optional plus sign, then at least one decimal digit, within range.\<close>

definition digit_value :: "char \<Rightarrow> nat option" where
  "digit_value c = (let n = of_char c :: nat in if 48 \<le> n \<and> n \<le> 57 then Some (n - 48) else None)"

fun parse_digits :: "nat \<Rightarrow> string \<Rightarrow> nat option" where
  "parse_digits acc [] = Some acc"
| "parse_digits acc (c # cs) =
     do { d \<leftarrow> digit_value c;
          (if acc * 10 + d < u64_lim then parse_digits (acc * 10 + d) cs else None) }"

definition parse_u64 :: "string \<Rightarrow> nat option" where
  "parse_u64 s =
     (case s of [] \<Rightarrow> None
      | c # cs \<Rightarrow> if c = CHR ''+'' then (if cs = [] then None else parse_digits 0 cs)
                  else parse_digits 0 s)"

text \<open>The arguments are the values of \<^verbatim>\<open>MAKER_FEE_BPS\<close> and \<^verbatim>\<open>TAKER_FEE_BPS\<close> in the environment.\<close>

definition fee_schedule_from_env :: "string option \<Rightarrow> string option \<Rightarrow> fee_schedule" where
  "fee_schedule_from_env mk tk =
     (let get = (\<lambda>v. case v \<bind> parse_u64 of None \<Rightarrow> 0 | Some n \<Rightarrow> n)
      in \<lparr>maker_fee_bps = get mk, taker_fee_bps = get tk\<rparr>)"

definition calc_maker_fee :: "bool \<Rightarrow> fee_schedule \<Rightarrow> nat \<Rightarrow> nat option" where
  "calc_maker_fee oc fs quote_amount =
     do { p \<leftarrow> u64_mul oc quote_amount (maker_fee_bps fs); Some (p div 10000) }"

definition calc_taker_fee :: "bool \<Rightarrow> fee_schedule \<Rightarrow> nat \<Rightarrow> nat option" where
  "calc_taker_fee oc fs quote_amount =
     do { p \<leftarrow> u64_mul oc quote_amount (taker_fee_bps fs); Some (p div 10000) }"

section \<open>Orders and book depth\<close>

record open_order_info =
  oi_order_id :: nat
  oi_user_id :: nat
  oi_side :: string
  oi_price :: nat
  oi_remaining_qty :: nat
  oi_market :: string

record orderbook_level =
  ol_price :: nat
  ol_qty :: nat

record orderbook_data =
  od_bids :: "orderbook_level list"
  od_asks :: "orderbook_level list"

section \<open>Requests\<close>

record signup_msg =
  sg_user_id :: nat
  sg_queue_id :: string
  sg_identifier :: string

record onramp_msg =
  on_user_id :: nat
  on_qty :: nat
  on_queue_id :: string
  on_identifier :: string

record deposit_msg =
  dp_user_id :: nat
  dp_symbol :: string
  dp_qty :: nat
  dp_queue_id :: string
  dp_identifier :: string

datatype order_type = Limit | Market

datatype time_in_force = Gtc | Ioc | Fok

record order_msg =
  om_user_id :: nat
  om_asset :: string
  om_side :: string
  om_order_type :: order_type
  om_price :: int
  om_qty :: int
  om_slippage_pct :: "f64 option"
  om_time_in_force :: time_in_force
  om_queue_id :: string
  om_identifier :: string

record cancel_msg =
  cm_user_id :: nat
  cm_order_id :: nat
  cm_queue_id :: string
  cm_identifier :: string

record balance_query_msg =
  bq_user_id :: nat
  bq_queue_id :: string
  bq_identifier :: string

record orderbook_query_msg =
  obq_asset :: string
  obq_queue_id :: string
  obq_identifier :: string

record open_orders_query_msg =
  ooq_user_id :: nat
  ooq_queue_id :: string
  ooq_identifier :: string

record order_status_query_msg =
  osq_user_id :: nat
  osq_order_id :: nat
  osq_queue_id :: string
  osq_identifier :: string

record reset_msg =
  rs_queue_id :: string
  rs_identifier :: string

section \<open>Replies\<close>

text \<open>Each constructor is one reply struct of \<^verbatim>\<open>responses.rs\<close>, its fields in the source's order.\<close>

datatype reply_payload =
    BalanceReply string balance "(string, balance) hash_map"
  | OrderReply string "nat option" "string option" "string option" "nat option"
  | CancelReply string "nat option" "nat option" "string option" "string option"
  | OpenOrdersReply string "open_order_info list"
  | OrderStatusReply string "open_order_info option" "string option" "string option"
  | OrderbookReply string orderbook_data
  | GenericReply string string

text \<open>The correlation id that the gateway's demultiplexer reads from a reply.\<close>

fun reply_identifier :: "reply_payload \<Rightarrow> string" where
  "reply_identifier (BalanceReply i _ _) = i"
| "reply_identifier (OrderReply i _ _ _ _) = i"
| "reply_identifier (CancelReply i _ _ _ _) = i"
| "reply_identifier (OpenOrdersReply i _) = i"
| "reply_identifier (OrderStatusReply i _ _ _) = i"
| "reply_identifier (OrderbookReply i _) = i"
| "reply_identifier (GenericReply i _) = i"

section \<open>Execution events\<close>

record trade_executed =
  te_maker_order_id :: nat
  te_taker_order_id :: nat
  te_buyer_id :: nat
  te_seller_id :: nat
  te_market :: string
  te_price :: nat
  te_qty :: nat
  te_quote_amount :: nat
  te_maker_remaining_qty :: nat
  te_taker_remaining_qty :: nat
  te_buyer_fee :: nat
  te_seller_fee :: nat

record order_created =
  oc_order_id :: nat
  oc_user_id :: nat
  oc_market :: string
  oc_side :: string
  oc_price :: nat
  oc_original_qty :: nat
  oc_remaining_qty :: nat
  oc_status :: string

text \<open>
  \<^verbatim>\<open>OrderCancelled\<close> carries order id, user id and remaining quantity; \<^verbatim>\<open>FundingExecuted\<close> user id,
  currency, amount and operation type; \<^verbatim>\<open>DepthUpdated\<close> market, bids and asks.
\<close>

datatype execution_event =
    OrderCreated order_created
  | TradeExecuted trade_executed
  | OrderCancelled nat nat nat
  | FundingExecuted nat string nat string
  | DepthUpdated string "(nat \<times> nat) list" "(nat \<times> nat) list"

section \<open>Fee arithmetic\<close>

text \<open>The exact fee of an amount, and the schedules for which a fee never exceeds the amount.\<close>

definition fee_of :: "nat \<Rightarrow> nat \<Rightarrow> nat" where
  "fee_of bps amount = amount * bps div 10000"

abbreviation maker_fee :: "fee_schedule \<Rightarrow> nat \<Rightarrow> nat" where
  "maker_fee fs \<equiv> fee_of (maker_fee_bps fs)"

abbreviation taker_fee :: "fee_schedule \<Rightarrow> nat \<Rightarrow> nat" where
  "taker_fee fs \<equiv> fee_of (taker_fee_bps fs)"

definition max_bps :: "fee_schedule \<Rightarrow> nat" where
  "max_bps fs = max (taker_fee_bps fs) (maker_fee_bps fs)"

definition fees_ok :: "fee_schedule \<Rightarrow> bool" where
  "fees_ok fs \<longleftrightarrow> maker_fee_bps fs \<le> 10000 \<and> taker_fee_bps fs \<le> 10000"

lemma calc_maker_fee_ok [u64_simps]:
  "amount * maker_fee_bps fs < u64_lim \<Longrightarrow> calc_maker_fee oc fs amount = Some (maker_fee fs amount)"
  by (simp add: calc_maker_fee_def fee_of_def u64_simps)

lemma calc_taker_fee_ok [u64_simps]:
  "amount * taker_fee_bps fs < u64_lim \<Longrightarrow> calc_taker_fee oc fs amount = Some (taker_fee fs amount)"
  by (simp add: calc_taker_fee_def fee_of_def u64_simps)

lemma fee_of_mono: "a \<le> b \<Longrightarrow> fee_of bps a \<le> fee_of bps b"
  by (simp add: fee_of_def div_le_mono)

lemma fee_of_mono_bps: "bps \<le> bps' \<Longrightarrow> fee_of bps a \<le> fee_of bps' a"
  by (simp add: fee_of_def div_le_mono)

lemma fee_of_superadd: "fee_of bps a + fee_of bps b \<le> fee_of bps (a + b)"
  using div_superadd [of "a * bps" 10000 "b * bps"] by (simp add: fee_of_def algebra_simps)

lemma fee_of_le: "bps \<le> 10000 \<Longrightarrow> fee_of bps a \<le> a"
proof -
  assume "bps \<le> 10000"
  then have "a * bps div 10000 \<le> a * 10000 div 10000"
    by (intro div_le_mono mult_le_mono2)
  then show ?thesis by (simp add: fee_of_def)
qed

lemma fee_of_sum: "sum_of (\<lambda>x. fee_of bps (f x)) xs \<le> fee_of bps (sum_of f xs)"
proof (induction xs)
  case (Cons x xs)
  then show ?case
    using fee_of_superadd [of bps "f x" "sum_of f xs"] by simp
qed (simp add: fee_of_def)

lemma fee_of_zero [simp]: "fee_of bps 0 = 0" "fee_of 0 a = 0"
  by (simp_all add: fee_of_def)

end
