(* ===== verification/Orderbook.thy ===== *)
theory Orderbook
  imports Shared_Models
begin

text \<open>
  The price-time-priority order book of \<^verbatim>\<open>rs-engine/src/orderbook\<close> (\<^verbatim>\<open>types.rs\<close>, \<^verbatim>\<open>book.rs\<close>): its
  data and every operation, in the order of the source.

  Price levels are B-tree maps from price to the FIFO queue of order ids (\<^verbatim>\<open>VecDeque\<close>, a list whose
  head is the front); the orders themselves live in a hash map. Each matching loop is written as its
  loop body (one iteration, a \<^theory_text>\<open>definition\<close>) and the loop (a \<^theory_text>\<open>partial_function\<close> in the option monad),
  so that an \<^verbatim>\<open>expect\<close> that fails and a loop that never ends are both the value \<open>None\<close>.
  \<^verbatim>\<open>add_order_with_id\<close> and \<^verbatim>\<open>execute_market_order_with_id\<close> contain the same two nested loops and differ
  in the test that stops them, so the loops take that test as an argument.
\<close>

section \<open>Types\<close>

datatype side = Bid | Ask

record order =
  ord_order_id :: nat
  ord_user_id :: nat
  ord_side :: side
  ord_price :: nat
  ord_remaining_qty :: nat

record trade =
  tr_buyer :: nat
  tr_seller :: nat
  tr_price :: nat
  tr_qty :: nat
  tr_taker_order_id :: nat
  tr_maker_order_id :: nat
  tr_taker_side :: side

record order_accepted =
  oa_order_id :: nat
  oa_user_id :: nat
  oa_side :: side
  oa_price :: nat
  oa_remaining_qty :: nat

record order_cancelled =
  ocl_order_id :: nat
  ocl_user_id :: nat
  ocl_side :: side
  ocl_price :: nat
  ocl_remaining_qty :: nat

datatype match_result = MR_Trade trade | MR_OrderAccepted order_accepted

datatype orderbook_error = InvalidPrice | InvalidQuantity | OrderNotFound | NotOrderOwner

record level_snapshot =
  ls_price :: nat
  ls_qty :: nat

record orderbook_snapshot =
  os_symbol :: string
  os_bids :: "level_snapshot list"
  os_asks :: "level_snapshot list"

record user_order_snapshot =
  uo_order_id :: nat
  uo_user_id :: nat
  uo_side :: side
  uo_price :: nat
  uo_remaining_qty :: nat

text \<open>\<^verbatim>\<open>PriceLevel\<close> has one field, the queue of order ids.\<close>

type_synonym price_level = "nat list"

definition price_level_new :: price_level where
  "price_level_new = []"

definition price_level_is_empty :: "price_level \<Rightarrow> bool" where
  "price_level_is_empty l \<longleftrightarrow> l = []"

record orderbook =
  symbol :: string
  ob_next_order_id :: nat
  bids :: "(nat, price_level) btree_map"
  asks :: "(nat, price_level) btree_map"
  orders :: "(nat, order) hash_map"

section \<open>Construction and queries\<close>

definition orderbook_new :: "string \<Rightarrow> orderbook" where
  "orderbook_new s = \<lparr>symbol = s, ob_next_order_id = 1, bids = [], asks = [], orders = []\<rparr>"

definition orderbook_reset :: "orderbook \<Rightarrow> orderbook" where
  "orderbook_reset b = b\<lparr>bids := [], asks := [], orders := [], ob_next_order_id := 1\<rparr>"

definition best_bid :: "orderbook \<Rightarrow> nat option" where
  "best_bid b = map_option fst (bt_last (bids b))"

definition best_ask :: "orderbook \<Rightarrow> nat option" where
  "best_ask b = map_option fst (bt_first (asks b))"

definition order_count :: "orderbook \<Rightarrow> nat" where
  "order_count b = length (orders b)"

definition bid_levels :: "orderbook \<Rightarrow> nat" where
  "bid_levels b = length (bids b)"

definition ask_levels :: "orderbook \<Rightarrow> nat" where
  "ask_levels b = length (asks b)"

definition get_order :: "orderbook \<Rightarrow> nat \<Rightarrow> order option" where
  "get_order b oid = hm_get (orders b) oid"

definition get_user_orders :: "orderbook \<Rightarrow> nat \<Rightarrow> user_order_snapshot list" where
  "get_user_orders b uid =
     map (\<lambda>ord. \<lparr>uo_order_id = ord_order_id ord, uo_user_id = ord_user_id ord,
                  uo_side = ord_side ord, uo_price = ord_price ord,
                  uo_remaining_qty = ord_remaining_qty ord\<rparr>)
       (filter (\<lambda>ord. ord_user_id ord = uid) (map snd (orders b)))"

definition level_snapshot_of :: "bool \<Rightarrow> orderbook \<Rightarrow> nat \<times> price_level \<Rightarrow> level_snapshot option" where
  "level_snapshot_of oc b pl =
     do { q \<leftarrow> u64_sum_from oc 0
            (map ord_remaining_qty (List.map_filter (hm_get (orders b)) (snd pl)));
          Some \<lparr>ls_price = fst pl, ls_qty = q\<rparr> }"

definition get_state :: "bool \<Rightarrow> orderbook \<Rightarrow> orderbook_snapshot option" where
  "get_state oc b =
     do { bs \<leftarrow> map_m (level_snapshot_of oc b) (rev (bids b));
          as \<leftarrow> map_m (level_snapshot_of oc b) (asks b);
          Some \<lparr>os_symbol = symbol b, os_bids = bs, os_asks = as\<rparr> }"

section \<open>Liquidity checks\<close>

text \<open>
  The inner loop over one level of \<^verbatim>\<open>can_fill_quantity\<close>: \<open>Inr True\<close> is the early \<^verbatim>\<open>return true\<close>,
  \<open>Inl a\<close> the accumulated quantity when the level is exhausted.
\<close>

fun can_fill_level :: "bool \<Rightarrow> (nat, order) hash_map \<Rightarrow> nat \<Rightarrow> nat \<Rightarrow> nat list \<Rightarrow> (nat + bool) option" where
  "can_fill_level oc os qty avail [] = Some (Inl avail)"
| "can_fill_level oc os qty avail (oid # oids) =
     (case hm_get os oid of
        None \<Rightarrow> can_fill_level oc os qty avail oids
      | Some ord \<Rightarrow>
          do { a \<leftarrow> u64_add oc avail (ord_remaining_qty ord);
               (if a \<ge> qty then Some (Inr True) else can_fill_level oc os qty a oids) })"

fun can_fill_levels ::
  "bool \<Rightarrow> (nat, order) hash_map \<Rightarrow> (nat \<Rightarrow> bool) \<Rightarrow> nat \<Rightarrow> nat \<Rightarrow> (nat \<times> price_level) list \<Rightarrow> bool option" where
  "can_fill_levels oc os beyond qty avail [] = Some False"
| "can_fill_levels oc os beyond qty avail ((p, l) # ls) =
     (if beyond p then Some False
      else do { r \<leftarrow> can_fill_level oc os qty avail l;
                (case r of Inr b \<Rightarrow> Some b | Inl a \<Rightarrow> can_fill_levels oc os beyond qty a ls) })"

definition can_fill_quantity :: "bool \<Rightarrow> orderbook \<Rightarrow> side \<Rightarrow> nat \<Rightarrow> nat \<Rightarrow> bool option" where
  "can_fill_quantity oc b s price qty =
     (if qty = 0 then Some True
      else case s of
        Bid \<Rightarrow> can_fill_levels oc (orders b) (\<lambda>ask_price. ask_price > price) qty 0 (asks b)
      | Ask \<Rightarrow> can_fill_levels oc (orders b) (\<lambda>bid_price. bid_price < price) qty 0 (rev (bids b)))"

section \<open>The matching loops\<close>

text \<open>The levels an incoming order of a side trades against, and replacing them.\<close>

definition opposite :: "side \<Rightarrow> side" where
  "opposite s = (case s of Bid \<Rightarrow> Ask | Ask \<Rightarrow> Bid)"

definition side_levels :: "side \<Rightarrow> orderbook \<Rightarrow> (nat, price_level) btree_map" where
  "side_levels s b = (case s of Bid \<Rightarrow> bids b | Ask \<Rightarrow> asks b)"

definition set_side_levels :: "side \<Rightarrow> (nat, price_level) btree_map \<Rightarrow> orderbook \<Rightarrow> orderbook" where
  "set_side_levels s m b = (case s of Bid \<Rightarrow> b\<lparr>bids := m\<rparr> | Ask \<Rightarrow> b\<lparr>asks := m\<rparr>)"

definition resting_best :: "side \<Rightarrow> orderbook \<Rightarrow> nat option" where
  "resting_best s b = (case s of Bid \<Rightarrow> best_ask b | Ask \<Rightarrow> best_bid b)"

text \<open>The taker of a matching run: its order id, user and side.\<close>

record taker =
  tk_order_id :: nat
  tk_user_id :: nat
  tk_side :: side

definition make_trade :: "taker \<Rightarrow> nat \<Rightarrow> nat \<Rightarrow> nat \<Rightarrow> nat \<Rightarrow> trade" where
  "make_trade t resting_price maker_id maker_user_id fill_qty =
     (case tk_side t of
        Bid \<Rightarrow> \<lparr>tr_buyer = tk_user_id t, tr_seller = maker_user_id, tr_price = resting_price,
                 tr_qty = fill_qty, tr_taker_order_id = tk_order_id t, tr_maker_order_id = maker_id,
                 tr_taker_side = Bid\<rparr>
      | Ask \<Rightarrow> \<lparr>tr_buyer = maker_user_id, tr_seller = tk_user_id t, tr_price = resting_price,
                 tr_qty = fill_qty, tr_taker_order_id = tk_order_id t, tr_maker_order_id = maker_id,
                 tr_taker_side = Ask\<rparr>)"

text \<open>The state of a run: the book, the quantity still to fill and the results so far.\<close>

type_synonym run = "orderbook \<times> nat \<times> match_result list"

definition front_order :: "side \<Rightarrow> orderbook \<Rightarrow> nat \<Rightarrow> nat option" where
  "front_order s b p =
     (case bt_get (side_levels s b) p of
        None \<Rightarrow> None
      | Some l \<Rightarrow> (case l of [] \<Rightarrow> None | oid # _ \<Rightarrow> Some oid))"

text \<open>
  Removing a filled maker: drop it from the order map, pop it from the front of its queue and drop
  the level when the queue is empty. The Boolean says whether the level is gone.
\<close>

definition remove_filled_maker :: "side \<Rightarrow> nat \<Rightarrow> nat \<Rightarrow> orderbook \<Rightarrow> (orderbook \<times> bool) option" where
  "remove_filled_maker s p maker_id b =
     do { let b1 = b\<lparr>orders := hm_remove maker_id (orders b)\<rparr>;
          level \<leftarrow> bt_get (side_levels s b1) p;
          (case level of
             [] \<Rightarrow> None
           | front # rest \<Rightarrow>
               (let b2 = set_side_levels s (bt_insert p rest (side_levels s b1)) b1
                in if price_level_is_empty rest
                   then Some (set_side_levels s (bt_remove p (side_levels s b2)) b2, True)
                   else Some (b2, False))) }"

text \<open>One iteration of the inner \<^verbatim>\<open>loop\<close>; the Boolean says whether the loop goes round again.\<close>

definition fill_step :: "bool \<Rightarrow> taker \<Rightarrow> nat \<Rightarrow> run \<Rightarrow> (run \<times> bool) option" where
  "fill_step oc t p st =
     (case st of (b, remaining_qty, results) \<Rightarrow>
       (if remaining_qty = 0 then Some (st, False)
        else case front_order (opposite (tk_side t)) b p of
          None \<Rightarrow> Some (st, False)
        | Some maker_id \<Rightarrow>
            do { maker \<leftarrow> hm_get (orders b) maker_id;
                 let fill_qty = min remaining_qty (ord_remaining_qty maker);
                 mrem \<leftarrow> u64_sub oc (ord_remaining_qty maker) fill_qty;
                 trem \<leftarrow> u64_sub oc remaining_qty fill_qty;
                 let b1 = b\<lparr>orders := hm_insert maker_id (maker\<lparr>ord_remaining_qty := mrem\<rparr>) (orders b)\<rparr>;
                 let results1 = results @ [MR_Trade (make_trade t p maker_id (ord_user_id maker) fill_qty)];
                 (if mrem = 0
                  then do { (b2, gone) \<leftarrow> remove_filled_maker (opposite (tk_side t)) p maker_id b1;
                            Some ((b2, trem, results1), \<not> gone) }
                  else Some ((b1, trem, results1), False)) }))"

partial_function (option) fill_level :: "bool \<Rightarrow> taker \<Rightarrow> nat \<Rightarrow> run \<Rightarrow> run option" where
  "fill_level oc t p st =
     do { (st', again) \<leftarrow> fill_step oc t p st;
          (if again then fill_level oc t p st' else Some st') }"

text \<open>The outer \<^verbatim>\<open>while\<close>: take the best opposite level, stop when it does not qualify, consume it.\<close>

partial_function (option) match_while :: "bool \<Rightarrow> taker \<Rightarrow> (nat \<Rightarrow> bool) \<Rightarrow> run \<Rightarrow> run option" where
  "match_while oc t stops st =
     (if fst (snd st) = 0 then Some st
      else case resting_best (tk_side t) (fst st) of
        None \<Rightarrow> Some st
      | Some p \<Rightarrow>
          (if stops p then Some st
           else do { st' \<leftarrow> fill_level oc t p st; match_while oc t stops st' }))"

declare fill_level.simps [code] match_while.simps [code]

section \<open>Placing orders\<close>

text \<open>The negation of \<^verbatim>\<open>crosses\<close> in \<^verbatim>\<open>add_order_with_id\<close>.\<close>

definition limit_stops :: "side \<Rightarrow> nat \<Rightarrow> nat \<Rightarrow> bool" where
  "limit_stops s price resting_price =
     (\<not> (case s of Bid \<Rightarrow> price \<ge> resting_price | Ask \<Rightarrow> price \<le> resting_price))"

text \<open>The slippage test of \<^verbatim>\<open>execute_market_order_with_id\<close>.\<close>

definition market_stops :: "side \<Rightarrow> nat option \<Rightarrow> nat \<Rightarrow> bool" where
  "market_stops s worst_price resting_price =
     (case worst_price of
        None \<Rightarrow> False
      | Some cap \<Rightarrow> (case s of Bid \<Rightarrow> resting_price > cap | Ask \<Rightarrow> resting_price < cap))"

definition rest_order :: "nat \<Rightarrow> nat \<Rightarrow> side \<Rightarrow> nat \<Rightarrow> nat \<Rightarrow> orderbook \<Rightarrow> orderbook" where
  "rest_order order_id user_id s price remaining_qty b =
     (let ord = \<lparr>ord_order_id = order_id, ord_user_id = user_id, ord_side = s,
                 ord_price = price, ord_remaining_qty = remaining_qty\<rparr>;
          level = (case bt_get (side_levels s b) price of None \<Rightarrow> price_level_new | Some l \<Rightarrow> l);
          b1 = set_side_levels s (bt_insert price (level @ [order_id]) (side_levels s b)) b
      in b1\<lparr>orders := hm_insert order_id ord (orders b1)\<rparr>)"

text \<open>Results of the fallible operations: the mutated book next to Rust's \<^verbatim>\<open>Result\<close>.\<close>

type_synonym place_result = "orderbook \<times> (orderbook_error + match_result list)"

definition add_order_with_id ::
  "bool \<Rightarrow> nat \<Rightarrow> nat \<Rightarrow> side \<Rightarrow> nat \<Rightarrow> nat \<Rightarrow> time_in_force \<Rightarrow> orderbook \<Rightarrow> place_result option" where
  "add_order_with_id oc order_id user_id s price qty tif b =
     do { next \<leftarrow> u64_add oc order_id 1;
          let b0 = b\<lparr>ob_next_order_id := max (ob_next_order_id b) next\<rparr>;
          (if price = 0 then Some (b0, Inl InvalidPrice)
           else if qty = 0 then Some (b0, Inl InvalidQuantity)
           else do {
             enough \<leftarrow> (if tif = Fok then can_fill_quantity oc b0 s price qty else Some True);
             (if \<not> enough then Some (b0, Inr [])
              else do {
                (b1, remaining_qty, results) \<leftarrow>
                  match_while oc \<lparr>tk_order_id = order_id, tk_user_id = user_id, tk_side = s\<rparr>
                    (limit_stops s price) (b0, qty, []);
                (if remaining_qty > 0 \<and> tif = Gtc
                 then Some (rest_order order_id user_id s price remaining_qty b1,
                   Inr (results @ [MR_OrderAccepted
                     \<lparr>oa_order_id = order_id, oa_user_id = user_id, oa_side = s, oa_price = price,
                      oa_remaining_qty = remaining_qty\<rparr>]))
                 else Some (b1, Inr results)) }) }) }"

definition add_order ::
  "bool \<Rightarrow> nat \<Rightarrow> side \<Rightarrow> nat \<Rightarrow> nat \<Rightarrow> time_in_force \<Rightarrow> orderbook \<Rightarrow> place_result option" where
  "add_order oc user_id s price qty tif b =
     do { let order_id = ob_next_order_id b;
          next \<leftarrow> u64_add oc order_id 1;
          add_order_with_id oc order_id user_id s price qty tif (b\<lparr>ob_next_order_id := next\<rparr>) }"

section \<open>Market orders\<close>

text \<open>
  The loops of \<^verbatim>\<open>quote_cost_for_market_buy\<close>: the accumulator is (quantity left, cost, filled), and the
  Boolean marks the early return.
\<close>

fun quote_level ::
  "bool \<Rightarrow> (nat, order) hash_map \<Rightarrow> nat \<Rightarrow> nat \<times> nat \<times> nat \<Rightarrow> nat list \<Rightarrow> ((nat \<times> nat \<times> nat) \<times> bool) option" where
  "quote_level oc os price acc [] = Some (acc, False)"
| "quote_level oc os price acc (oid # oids) =
     (case acc of (qty, cost, filled) \<Rightarrow>
       case hm_get os oid of
         None \<Rightarrow> quote_level oc os price acc oids
       | Some ord \<Rightarrow>
           do { let take = min qty (ord_remaining_qty ord);
                v \<leftarrow> u64_mul oc take price;
                c \<leftarrow> u64_add oc cost v;
                f \<leftarrow> u64_add oc filled take;
                q \<leftarrow> u64_sub oc qty take;
                (if q = 0 then Some ((q, c, f), True) else quote_level oc os price (q, c, f) oids) })"

fun quote_levels ::
  "bool \<Rightarrow> (nat, order) hash_map \<Rightarrow> nat option \<Rightarrow> nat \<times> nat \<times> nat \<Rightarrow> (nat \<times> price_level) list
     \<Rightarrow> (nat \<times> nat) option" where
  "quote_levels oc os worst acc [] = Some (snd acc)"
| "quote_levels oc os worst acc ((p, l) # ls) =
     (if (case worst of None \<Rightarrow> False | Some cap \<Rightarrow> p > cap) then Some (snd acc)
      else do { (acc', done) \<leftarrow> quote_level oc os p acc l;
                (if done then Some (snd acc') else quote_levels oc os worst acc' ls) })"

definition quote_cost_for_market_buy :: "bool \<Rightarrow> orderbook \<Rightarrow> nat \<Rightarrow> nat option \<Rightarrow> (nat \<times> nat) option" where
  "quote_cost_for_market_buy oc b qty worst_price =
     quote_levels oc (orders b) worst_price (qty, 0, 0) (asks b)"

fun sell_level ::
  "bool \<Rightarrow> (nat, order) hash_map \<Rightarrow> nat \<times> nat \<Rightarrow> nat list \<Rightarrow> ((nat \<times> nat) \<times> bool) option" where
  "sell_level oc os acc [] = Some (acc, False)"
| "sell_level oc os acc (oid # oids) =
     (case acc of (qty, filled) \<Rightarrow>
       case hm_get os oid of
         None \<Rightarrow> sell_level oc os acc oids
       | Some ord \<Rightarrow>
           do { let take = min qty (ord_remaining_qty ord);
                f \<leftarrow> u64_add oc filled take;
                q \<leftarrow> u64_sub oc qty take;
                (if q = 0 then Some ((q, f), True) else sell_level oc os (q, f) oids) })"

fun sell_levels ::
  "bool \<Rightarrow> (nat, order) hash_map \<Rightarrow> nat option \<Rightarrow> nat \<times> nat \<Rightarrow> (nat \<times> price_level) list \<Rightarrow> nat option" where
  "sell_levels oc os worst acc [] = Some (snd acc)"
| "sell_levels oc os worst acc ((p, l) # ls) =
     (if (case worst of None \<Rightarrow> False | Some lo \<Rightarrow> p < lo) then Some (snd acc)
      else do { (acc', done) \<leftarrow> sell_level oc os acc l;
                (if done then Some (snd acc') else sell_levels oc os worst acc' ls) })"

definition fillable_qty_for_market_sell :: "bool \<Rightarrow> orderbook \<Rightarrow> nat \<Rightarrow> nat option \<Rightarrow> nat option" where
  "fillable_qty_for_market_sell oc b qty worst_price =
     sell_levels oc (orders b) worst_price (qty, 0) (rev (bids b))"

definition execute_market_order_with_id ::
  "bool \<Rightarrow> nat \<Rightarrow> nat \<Rightarrow> side \<Rightarrow> nat \<Rightarrow> nat option \<Rightarrow> orderbook \<Rightarrow> place_result option" where
  "execute_market_order_with_id oc order_id user_id s qty worst_price b =
     do { next \<leftarrow> u64_add oc order_id 1;
          let b0 = b\<lparr>ob_next_order_id := max (ob_next_order_id b) next\<rparr>;
          (if qty = 0 then Some (b0, Inl InvalidQuantity)
           else do {
             (b1, remaining_qty, results) \<leftarrow>
               match_while oc \<lparr>tk_order_id = order_id, tk_user_id = user_id, tk_side = s\<rparr>
                 (market_stops s worst_price) (b0, qty, []);
             Some (b1, Inr results) }) }"

definition execute_market_order ::
  "bool \<Rightarrow> nat \<Rightarrow> side \<Rightarrow> nat \<Rightarrow> nat option \<Rightarrow> orderbook \<Rightarrow> place_result option" where
  "execute_market_order oc user_id s qty worst_price b =
     do { let order_id = ob_next_order_id b;
          next \<leftarrow> u64_add oc order_id 1;
          execute_market_order_with_id oc order_id user_id s qty worst_price
            (b\<lparr>ob_next_order_id := next\<rparr>) }"

section \<open>Cancelling\<close>

text \<open>\<^verbatim>\<open>VecDeque::remove\<close> at the first position that holds the id; \<open>None\<close> when it is absent.\<close>

fun remove_first :: "nat \<Rightarrow> nat list \<Rightarrow> nat list option" where
  "remove_first x [] = None"
| "remove_first x (y # ys) = (if y = x then Some ys else map_option (Cons y) (remove_first x ys))"

definition cancel_order ::
  "nat \<Rightarrow> nat \<Rightarrow> orderbook \<Rightarrow> (orderbook \<times> (orderbook_error + order_cancelled)) option" where
  "cancel_order order_id user_id b =
     (case hm_get (orders b) order_id of
        None \<Rightarrow> Some (b, Inl OrderNotFound)
      | Some ord \<Rightarrow>
          if ord_user_id ord \<noteq> user_id then Some (b, Inl NotOrderOwner)
          else do {
            let b1 = b\<lparr>orders := hm_remove order_id (orders b)\<rparr>;
            let s = ord_side ord;
            level \<leftarrow> bt_get (side_levels s b1) (ord_price ord);
            rest \<leftarrow> remove_first order_id level;
            let b2 = set_side_levels s (bt_insert (ord_price ord) rest (side_levels s b1)) b1;
            let b3 = (if price_level_is_empty rest
                      then set_side_levels s (bt_remove (ord_price ord) (side_levels s b2)) b2
                      else b2);
            Some (b3, Inr \<lparr>ocl_order_id = ord_order_id ord, ocl_user_id = ord_user_id ord,
                           ocl_side = ord_side ord, ocl_price = ord_price ord,
                           ocl_remaining_qty = ord_remaining_qty ord\<rparr>) })"

end
