(* ===== verification/Orderbook_Spec.thy ===== *)
theory Orderbook_Spec
  imports Orderbook
begin

text \<open>
  The order book seen as two priority queues. \<open>depth s b\<close> is the list of resting orders of side \<open>s\<close>,
  best price first and oldest first within a price; \<open>book_inv\<close> says that the three maps of the book
  agree. The abstract operations on such a list are \<open>take_fills\<close> (consume a prefix), insertion behind
  every order that is not worse, and deletion. This theory holds the abstraction, the invariant and
  the facts about the abstract operations; the refinement proofs follow in the next theory.
\<close>

section \<open>Abstraction\<close>

definition best_levels :: "side \<Rightarrow> orderbook \<Rightarrow> (nat \<times> price_level) list" where
  "best_levels s b = (case s of Bid \<Rightarrow> rev (bids b) | Ask \<Rightarrow> asks b)"

definition level_orders :: "(nat \<Rightarrow> order option) \<Rightarrow> (nat \<times> price_level) list \<Rightarrow> order list" where
  "level_orders f ls = concat (map (\<lambda>(p, l). List.map_filter f l) ls)"

definition depth :: "side \<Rightarrow> orderbook \<Rightarrow> order list" where
  "depth s b = level_orders (hm_get (orders b)) (best_levels s b)"

definition queued :: "side \<Rightarrow> orderbook \<Rightarrow> nat list" where
  "queued s b = concat (map snd (best_levels s b))"

section \<open>The invariant\<close>

definition level_ok :: "(nat \<Rightarrow> order option) \<Rightarrow> side \<Rightarrow> nat \<times> price_level \<Rightarrow> bool" where
  "level_ok f s pl \<longleftrightarrow> snd pl \<noteq> [] \<and> 0 < fst pl \<and>
     (\<forall>oid \<in> set (snd pl). case f oid of None \<Rightarrow> False
        | Some ord \<Rightarrow> ord_order_id ord = oid \<and> ord_side ord = s \<and> ord_price ord = fst pl
                    \<and> 0 < ord_remaining_qty ord)"

lemma level_ok_iff:
  "level_ok f s (p, l) \<longleftrightarrow> l \<noteq> [] \<and> 0 < p \<and>
     (\<forall>oid \<in> set l. \<exists>ord. f oid = Some ord \<and> ord_order_id ord = oid \<and> ord_side ord = s \<and>
        ord_price ord = p \<and> 0 < ord_remaining_qty ord)"
  by (fastforce simp: level_ok_def split: option.splits)

definition side_inv :: "side \<Rightarrow> orderbook \<Rightarrow> bool" where
  "side_inv s b \<longleftrightarrow> bt_wf (side_levels s b) \<and>
     (\<forall>pl \<in> set (best_levels s b). level_ok (hm_get (orders b)) s pl) \<and> distinct (queued s b)"

definition book_inv :: "orderbook \<Rightarrow> bool" where
  "book_inv b \<longleftrightarrow> hm_wf (orders b) \<and> side_inv Bid b \<and> side_inv Ask b \<and>
     (\<forall>(oid, ord) \<in> set (orders b). oid \<in> set (queued (ord_side ord) b) \<and> oid < ob_next_order_id b)"

text \<open>No resting bid meets a resting ask.\<close>

definition uncrossed :: "orderbook \<Rightarrow> bool" where
  "uncrossed b \<longleftrightarrow> (\<forall>bid \<in> set (depth Bid b). \<forall>ask \<in> set (depth Ask b). ord_price bid < ord_price ask)"

section \<open>The abstract operations\<close>

text \<open>
  \<open>take_fills stops n os\<close> fills \<open>n\<close> units from the front of \<open>os\<close> until the quantity is used up or the
  next price is refused: the fills, the orders that remain and the quantity that is left.
\<close>

fun take_fills :: "(nat \<Rightarrow> bool) \<Rightarrow> nat \<Rightarrow> order list \<Rightarrow> (order \<times> nat) list \<times> order list \<times> nat" where
  "take_fills stops n [] = ([], [], n)"
| "take_fills stops n (ord # os) =
     (if n = 0 \<or> stops (ord_price ord) then ([], ord # os, n)
      else if n < ord_remaining_qty ord
      then ([(ord, n)], ord\<lparr>ord_remaining_qty := ord_remaining_qty ord - n\<rparr> # os, 0)
      else (case take_fills stops (n - ord_remaining_qty ord) os of
              (fs, os', n') \<Rightarrow> ((ord, ord_remaining_qty ord) # fs, os', n')))"

definition fill_trade :: "taker \<Rightarrow> order \<times> nat \<Rightarrow> trade" where
  "fill_trade t f = make_trade t (ord_price (fst f)) (ord_order_id (fst f)) (ord_user_id (fst f)) (snd f)"

text \<open>Whether price \<open>p\<close> has at least the priority of price \<open>q\<close> on a side.\<close>

definition at_least_as_good :: "side \<Rightarrow> nat \<Rightarrow> nat \<Rightarrow> bool" where
  "at_least_as_good s p q = (case s of Bid \<Rightarrow> q \<le> p | Ask \<Rightarrow> p \<le> q)"

definition enqueue :: "side \<Rightarrow> order \<Rightarrow> order list \<Rightarrow> order list" where
  "enqueue s ord os =
     takeWhile (\<lambda>x. at_least_as_good s (ord_price x) (ord_price ord)) os @ [ord] @
     dropWhile (\<lambda>x. at_least_as_good s (ord_price x) (ord_price ord)) os"

subsection \<open>Facts about filling from a list\<close>

lemma take_fills_zero [simp]: "take_fills stops 0 os = ([], os, 0)"
  by (cases os) auto

lemma take_fills_qty:
  "take_fills stops n os = (fs, os', n') \<Longrightarrow> sum_of snd fs + n' = n"
  by (induction stops n os arbitrary: fs os' n' rule: take_fills.induct)
    (auto split: if_splits prod.splits)

lemma take_fills_members:
  assumes "take_fills stops n os = (fs, os', n')" and "f \<in> set fs"
    and "\<forall>x \<in> set os. 0 < ord_remaining_qty x"
  shows "fst f \<in> set os \<and> snd f \<le> ord_remaining_qty (fst f) \<and> 0 < snd f \<and> \<not> stops (ord_price (fst f))"
  using assms
  by (induction stops n os arbitrary: fs os' n' rule: take_fills.induct)
    (fastforce split: if_splits prod.splits)+

lemma take_fills_length: "take_fills stops n os = (fs, os', n') \<Longrightarrow> length os' \<le> length os"
  by (induction stops n os arbitrary: fs os' n' rule: take_fills.induct)
    (auto split: if_splits prod.splits simp: le_SucI)

lemma take_fills_stop:
  assumes "take_fills stops n os = (fs, os', n')" and "0 < n'"
  shows "os' = [] \<or> stops (ord_price (hd os'))"
  using assms
  by (induction stops n os arbitrary: fs os' n' rule: take_fills.induct)
    (auto split: if_splits prod.splits)

lemma take_fills_rest:
  assumes "take_fills stops n os = (fs, os', n')" and "x \<in> set os'"
  shows "\<exists>y \<in> set os. ord_order_id x = ord_order_id y \<and> ord_user_id x = ord_user_id y \<and>
      ord_side x = ord_side y \<and> ord_price x = ord_price y \<and>
      ord_remaining_qty x \<le> ord_remaining_qty y"
  using assms
  by (induction stops n os arbitrary: fs os' n' rule: take_fills.induct)
    (fastforce split: if_splits prod.splits)+

text \<open>
  Every amount attached to resting orders that splits along a partial fill is split by the whole run
  between the fills and the orders that remain; with \<open>\<le>\<close> for amounts that may lose a remainder.
\<close>

lemma take_fills_split_rel:
  assumes run: "take_fills stops n os = (fs, os', n')"
    and refl: "\<And>a. R a (a :: nat)"
    and add: "\<And>a b c d. R a b \<Longrightarrow> R c d \<Longrightarrow> R (a + c) (b + d)"
    and part: "\<And>x q. x \<in> set os \<Longrightarrow> 0 < q \<Longrightarrow> q < ord_remaining_qty x \<Longrightarrow>
        R (g (x\<lparr>ord_remaining_qty := ord_remaining_qty x - q\<rparr>) + h (x, q)) (g x)"
    and all: "\<And>x. x \<in> set os \<Longrightarrow> R (h (x, ord_remaining_qty x)) (g x)"
  shows "R (sum_of g os' + sum_of h fs) (sum_of g os)"
  using run part all
proof (induction stops n os arbitrary: fs os' n' rule: take_fills.induct)
  case (2 stops n ord os)
  consider (stop) "n = 0 \<or> stops (ord_price ord)"
    | (part) "0 < n" "\<not> stops (ord_price ord)" "n < ord_remaining_qty ord"
    | (full) "0 < n" "\<not> stops (ord_price ord)" "ord_remaining_qty ord \<le> n"
    by linarith
  then show ?case
  proof cases
    case stop
    with "2.prems"(1) show ?thesis by (auto intro: refl)
  next
    case part
    have "R (g (ord\<lparr>ord_remaining_qty := ord_remaining_qty ord - n\<rparr>) + h (ord, n) + sum_of g os)
        (g ord + sum_of g os)"
      by (intro add refl "2.prems"(2)) (use part in auto)
    with part "2.prems"(1) show ?thesis by (auto simp: ac_simps)
  next
    case full
    obtain fs1 where rec: "take_fills stops (n - ord_remaining_qty ord) os = (fs1, os', n')"
      and fs: "fs = (ord, ord_remaining_qty ord) # fs1"
      using "2.prems"(1) full by (auto split: prod.splits)
    have "R (sum_of g os' + sum_of h fs1) (sum_of g os)"
      by (rule "2.IH") (use full rec "2.prems"(2,3) in auto)
    moreover have "R (h (ord, ord_remaining_qty ord)) (g ord)"
      using "2.prems"(3) by simp
    ultimately have "R (h (ord, ord_remaining_qty ord) + (sum_of g os' + sum_of h fs1))
        (g ord + sum_of g os)"
      by (intro add)
    then show ?thesis using fs by (simp add: ac_simps)
  qed
qed (auto intro: refl)

lemmas take_fills_split = take_fills_split_rel [where R = "(\<le>)", OF _ order_refl add_mono]
lemmas take_fills_split_eq = take_fills_split_rel [where R = "(=)", OF _ refl arg_cong2 [where f = "(+)"]]

text \<open>A run may be cut at any price that does not stop it.\<close>

lemma take_fills_level:
  assumes "\<not> stops p"
  shows "take_fills stops n os =
    (case take_fills (\<lambda>q. q \<noteq> p) n os of (fs1, os1, n1) \<Rightarrow>
       case take_fills stops n1 os1 of (fs2, os2, n2) \<Rightarrow> (fs1 @ fs2, os2, n2))"
  using assms
proof (induction stops n os rule: take_fills.induct)
  case (2 stops n ord os)
  then show ?case by (auto split: prod.splits)
qed simp

text \<open>The quantity a run can reach before the stop test refuses a price.\<close>

definition reachable_qty :: "(nat \<Rightarrow> bool) \<Rightarrow> order list \<Rightarrow> nat" where
  "reachable_qty stops os = sum_of ord_remaining_qty (takeWhile (\<lambda>x. \<not> stops (ord_price x)) os)"

lemma take_fills_left: "take_fills stops n os = (fs, os', n') \<Longrightarrow> n' = n - reachable_qty stops os"
  by (induction stops n os arbitrary: fs os' n' rule: take_fills.induct)
    (auto simp: reachable_qty_def split: if_splits prod.splits)

lemma reachable_qty_le: "reachable_qty stops os \<le> sum_of ord_remaining_qty os"
  by (induction os) (auto simp: reachable_qty_def)

lemma take_fills_append:
  assumes "\<And>x. x \<in> set xs \<Longrightarrow> \<not> stops (ord_price x)"
  shows "take_fills stops n (xs @ ys) =
    (case take_fills (\<lambda>_. False) n xs of (fs1, os1, n1) \<Rightarrow>
       case take_fills stops n1 ys of (fs2, os2, n2) \<Rightarrow> (fs1 @ fs2, os1 @ os2, n2))"
  using assms
proof (induction xs arbitrary: n)
  case (Cons x xs)
  then show ?case by (auto split: prod.splits)
qed (auto split: prod.splits)

subsection \<open>Insertion\<close>

lemma enqueue_split:
  assumes "\<And>x. x \<in> set xs \<Longrightarrow> at_least_as_good s (ord_price x) (ord_price ord)"
    and "\<And>y. y \<in> set ys \<Longrightarrow> \<not> at_least_as_good s (ord_price y) (ord_price ord)"
  shows "enqueue s ord (xs @ ys) = xs @ [ord] @ ys"
proof -
  have "takeWhile (\<lambda>x. at_least_as_good s (ord_price x) (ord_price ord)) ys = []"
    "dropWhile (\<lambda>x. at_least_as_good s (ord_price x) (ord_price ord)) ys = ys"
    using assms(2) by (cases ys; simp)+
  then show ?thesis
    using assms(1) by (simp add: enqueue_def)
qed

lemma sum_of_enqueue: "sum_of f (enqueue s ord os) = sum_of f os + f ord"
proof -
  have "sum_of f os = sum_of f (takeWhile P os @ dropWhile P os)" for P
    by simp
  then show ?thesis
    unfolding enqueue_def by (simp only: map_append sum_list.append) simp
qed

lemma set_enqueue: "set (enqueue s ord os) = insert ord (set os)"
proof -
  have "set os = set (takeWhile P os @ dropWhile P os)" for P
    by simp
  then show ?thesis
    unfolding enqueue_def by (auto simp only: set_append) auto
qed

end
