(* ===== verification/Orderbook_Match.thy ===== *)
theory Orderbook_Match
  imports Orderbook_Refine
begin

text \<open>
  The matching loops refine \<open>take_fills\<close> on the opposite side of the book, and they terminate: the
  inner loop shortens the queue of its level, the outer loop shortens the depth.
\<close>

section \<open>One iteration of the inner loop\<close>

lemma head_order:
  assumes inv: "book_inv b" and best: "best_levels s b = (p, l) # ls"
  obtains oid rest ord where "l = oid # rest" and "hm_get (orders b) oid = Some ord"
    and "ord_order_id ord = oid" and "ord_price ord = p" and "ord_side ord = s"
    and "0 < ord_remaining_qty ord" and "bt_get (side_levels s b) p = Some l"
    and "depth s b = ord # level_orders (hm_get (orders b)) ((p, rest) # ls)"
    and "distinct l"
proof -
  have si: "side_inv s b" by (rule book_inv_side [OF inv])
  then have ok: "level_ok (hm_get (orders b)) s (p, l)" and wf: "bt_wf (side_levels s b)"
    and "distinct l"
    using best by (auto simp: side_inv_def queued_def)
  from ok obtain oid rest where l: "l = oid # rest" by (auto simp: level_ok_def neq_Nil_conv)
  with ok obtain ord where "hm_get (orders b) oid = Some ord" "ord_order_id ord = oid"
      "ord_side ord = s" "ord_price ord = p" "0 < ord_remaining_qty ord"
    by (auto simp: level_ok_def split: option.splits)
  then show thesis
    using that l best_head(1) [OF best wf] \<open>distinct l\<close> by (simp add: depth_def best)
qed

lemma remove_filled_maker_unlink:
  assumes "bt_get (side_levels s b) p = Some (oid # rest)"
  shows "remove_filled_maker s p oid (reduce_order oid ord r b) = Some (unlink s p rest oid b, rest = [])"
  using assms
  by (simp add: remove_filled_maker_def unlink_def reduce_order_def AList.delete_update_same
      price_level_is_empty_def Let_def)

lemma fill_step_head:
  assumes inv: "book_inv b" and best: "best_levels (opposite (tk_side t)) b = (p, l) # ls"
    and l: "l = oid # rest" and get: "hm_get (orders b) oid = Some ord"
    and id: "ord_order_id ord = oid" and p: "ord_price ord = p" and n: "0 < n"
  shows "fill_step oc t p (b, n, rs) = Some
    (let rem = ord_remaining_qty ord in
     if n < rem
     then ((reduce_order oid ord (rem - n) b, 0, rs @ [MR_Trade (fill_trade t (ord, n))]), False)
     else ((unlink (opposite (tk_side t)) p rest oid b, n - rem,
            rs @ [MR_Trade (fill_trade t (ord, rem))]), rest \<noteq> []))"
proof -
  have "bt_wf (side_levels (opposite (tk_side t)) b)"
    using book_inv_side [OF inv] by (auto simp: side_inv_def)
  then have level: "bt_get (side_levels (opposite (tk_side t)) b) p = Some (oid # rest)"
    using best_head(1) [OF best] l by simp
  then have front: "front_order (opposite (tk_side t)) b p = Some oid"
    by (simp add: front_order_def)
  show ?thesis
  proof (cases "n < ord_remaining_qty ord")
    case True
    then show ?thesis
      using n front get id p
      by (simp add: fill_step_def u64_sub_ok fill_trade_def reduce_order_def Let_def)
  next
    case False
    then have "min n (ord_remaining_qty ord) = ord_remaining_qty ord" by simp
    with False show ?thesis
      using n front get id p remove_filled_maker_unlink [OF level, of ord 0]
      by (simp add: fill_step_def u64_sub_ok fill_trade_def reduce_order_def Let_def)
  qed
qed

section \<open>The loops\<close>

text \<open>What a run from book \<open>b\<close> with \<open>n\<close> units and results \<open>rs\<close> must end in.\<close>

definition match_spec :: "taker \<Rightarrow> (nat \<Rightarrow> bool) \<Rightarrow> orderbook \<Rightarrow> nat \<Rightarrow> match_result list \<Rightarrow> run \<Rightarrow> bool" where
  "match_spec t stops b n rs st' \<longleftrightarrow>
     (case take_fills stops n (depth (opposite (tk_side t)) b) of (fs, os, n') \<Rightarrow>
        (case st' of (b', m, rs') \<Rightarrow>
           m = n' \<and> rs' = rs @ map (MR_Trade \<circ> fill_trade t) fs \<and> book_inv b' \<and>
           depth (opposite (tk_side t)) b' = os \<and> depth (tk_side t) b' = depth (tk_side t) b \<and>
           symbol b' = symbol b \<and> ob_next_order_id b' = ob_next_order_id b))"

lemma match_spec_stay:
  assumes "book_inv b" and "take_fills stops n (depth (opposite (tk_side t)) b) =
      ([], depth (opposite (tk_side t)) b, n)"
  shows "match_spec t stops b n rs (b, n, rs)"
  using assms by (simp add: match_spec_def)

lemma match_spec_trans:
  assumes "match_spec t (\<lambda>q. q \<noteq> p) b n rs (b1, n1, rs1)" and "match_spec t stops b1 n1 rs1 st'"
    and "\<not> stops p"
  shows "match_spec t stops b n rs st'"
  using assms(1,2) take_fills_level [of stops p n "depth (opposite (tk_side t)) b"] assms(3)
  by (auto simp: match_spec_def split: prod.splits)

lemma head_distinct:
  assumes "book_inv b" and "depth s b = ord # ds"
  shows "x \<in> set ds \<Longrightarrow> ord_order_id x \<noteq> ord_order_id ord"
    and "s' \<noteq> s \<Longrightarrow> x \<in> set (depth s' b) \<Longrightarrow> ord_order_id x \<noteq> ord_order_id ord"
proof -
  show "ord_order_id x \<noteq> ord_order_id ord" if "x \<in> set ds"
    using depth_distinct [OF assms(1), of s] assms(2) that by (auto intro: rev_image_eqI)
  have "ord \<in> set (depth s b)" using assms(2) by simp
  then show "ord_order_id x \<noteq> ord_order_id ord" if "s' \<noteq> s" and "x \<in> set (depth s' b)"
    using that by (auto simp: depth_iff [OF assms(1)])
qed

lemma reduce_head_depth:
  assumes inv: "book_inv b" and d: "depth s b = ord # ds"
    and get: "hm_get (orders b) (ord_order_id ord) = Some ord" and "0 < r"
  shows "depth s (reduce_order (ord_order_id ord) ord r b) = ord\<lparr>ord_remaining_qty := r\<rparr> # ds"
    and "s' \<noteq> s \<Longrightarrow> depth s' (reduce_order (ord_order_id ord) ord r b) = depth s' b"
  using head_distinct [OF inv d]
  by (auto simp: reduce_order_depth [OF inv get \<open>0 < r\<close>] d intro!: map_idI)

lemma unlink_head_depth:
  assumes inv: "book_inv b" and d: "depth s b = ord # ds"
    and get: "hm_get (orders b) (ord_order_id ord) = Some ord"
    and l: "bt_get (side_levels s b) (ord_price ord) = Some (ord_order_id ord # rest)"
    and dist: "distinct (ord_order_id ord # rest)"
  shows "depth s (unlink s (ord_price ord) rest (ord_order_id ord) b) = ds"
    and "s' \<noteq> s \<Longrightarrow> depth s' (unlink s (ord_price ord) rest (ord_order_id ord) b) = depth s' b"
    and "book_inv (unlink s (ord_price ord) rest (ord_order_id ord) b)"
proof -
  have s: "s = ord_side ord"
    using d depth_iff [OF inv, of ord s] by auto
  have rest: "rest = filter (\<lambda>x. x \<noteq> ord_order_id ord) (ord_order_id ord # rest)"
    using dist by (auto intro!: filter_True [symmetric])
  note facts = inv get l [unfolded s] _ rest
  show "book_inv (unlink s (ord_price ord) rest (ord_order_id ord) b)"
    unfolding s by (rule unlink_inv [OF facts]) simp
  have *: "depth s'' (unlink s (ord_price ord) rest (ord_order_id ord) b) =
      filter (\<lambda>x. ord_order_id x \<noteq> ord_order_id ord) (depth s'' b)" for s''
    unfolding s by (rule unlink_depth [OF facts]) simp
  show "depth s (unlink s (ord_price ord) rest (ord_order_id ord) b) = ds"
    unfolding * using head_distinct [OF inv d] by (simp add: d filter_id_conv)
  show "s' \<noteq> s \<Longrightarrow> depth s' (unlink s (ord_price ord) rest (ord_order_id ord) b) = depth s' b"
    unfolding * using head_distinct [OF inv d] by (simp add: filter_id_conv)
qed

text \<open>Behind the best level every price is different.\<close>

lemma next_price:
  assumes inv: "book_inv b" and best: "best_levels s b = (p, l) # ls"
    and x: "x \<in> set (level_orders (hm_get (orders b)) ls)"
  shows "ord_price x \<noteq> p"
proof -
  have si: "side_inv s b" by (rule book_inv_side [OF inv])
  obtain p' l' where l': "(p', l') \<in> set ls" "x \<in> set (List.map_filter (hm_get (orders b)) l')"
    using x by (auto simp: level_orders_def)
  have ok: "level_ok (hm_get (orders b)) s (p', l')"
    using si best l'(1) by (auto simp: side_inv_def)
  have "distinct (map fst (best_levels s b))"
    using si bt_wf_distinct [of "side_levels s b"]
    by (cases s) (simp_all add: best_levels_def' side_inv_def rev_map [symmetric])
  then have "p' \<noteq> p"
    using l'(1) best by (auto intro: rev_image_eqI)
  moreover have "ord_price x = p'"
    using l'(2) ok by (auto simp: level_ok_queue [OF ok] level_ok_def split: option.splits)
  ultimately show ?thesis by simp
qed

lemma take_fills_other_price:
  "(\<And>x. x \<in> set os \<Longrightarrow> stops (ord_price x)) \<Longrightarrow> take_fills stops n os = ([], os, n)"
  by (cases os) auto

text \<open>The order at the head of the level outlasts the taker, or is consumed.\<close>

lemma fill_level_part:
  assumes inv: "book_inv b" and best: "best_levels (opposite (tk_side t)) b = (p, l) # ls"
    and head: "l = oid # rest" "hm_get (orders b) oid = Some ord" "ord_order_id ord = oid" "ord_price ord = p"
    and d: "depth (opposite (tk_side t)) b = ord # ds" and n: "0 < n" "n < ord_remaining_qty ord"
  shows "\<exists>st'. fill_level oc t p (b, n, rs) = Some st' \<and> match_spec t (\<lambda>q. q \<noteq> p) b n rs st'"
proof -
  let ?b = "reduce_order oid ord (ord_remaining_qty ord - n) b" and ?rs = "rs @ [MR_Trade (fill_trade t (ord, n))]"
  note step = fill_step_head [OF inv best head]
  have "fill_level oc t p (b, n, rs) = Some (?b, 0, ?rs)"
    using n by (subst fill_level.simps) (simp add: step Let_def)
  moreover have "match_spec t (\<lambda>q. q \<noteq> p) b n rs (?b, 0, ?rs)"
    using n head reduce_order_inv [OF inv head(2), of "ord_remaining_qty ord - n"]
      reduce_head_depth [OF inv d, where r = "ord_remaining_qty ord - n"]
    by (auto simp: match_spec_def d reduce_order_def)
  ultimately show ?thesis by blast
qed

lemma fill_level_full:
  assumes inv: "book_inv b" and best: "best_levels (opposite (tk_side t)) b = (p, l) # ls"
    and head: "l = oid # rest" "hm_get (orders b) oid = Some ord" "ord_order_id ord = oid" "ord_price ord = p"
    and lv: "bt_get (side_levels (opposite (tk_side t)) b) p = Some (oid # rest)" "distinct (oid # rest)"
    and d: "depth (opposite (tk_side t)) b = ord # level_orders (hm_get (orders b)) ((p, rest) # ls)"
    and n: "0 < n" "ord_remaining_qty ord \<le> n"
    and next_level: "\<And>b' n' rs'. rest \<noteq> [] \<Longrightarrow> book_inv b' \<Longrightarrow> best_levels (opposite (tk_side t)) b' = (p, rest) # ls \<Longrightarrow>
      \<exists>st'. fill_level oc t p (b', n', rs') = Some st' \<and> match_spec t (\<lambda>q. q \<noteq> p) b' n' rs' st'"
  shows "\<exists>st'. fill_level oc t p (b, n, rs) = Some st' \<and> match_spec t (\<lambda>q. q \<noteq> p) b n rs st'"
proof -
  let ?s = "opposite (tk_side t)" and ?rem = "ord_remaining_qty ord"
  let ?b = "unlink ?s p rest oid b" and ?rs = "rs @ [MR_Trade (fill_trade t (ord, ?rem))]"
  note step = fill_step_head [OF inv best head]
  have inv': "book_inv ?b" and ds: "depth ?s ?b = level_orders (hm_get (orders b)) ((p, rest) # ls)"
    and same: "depth (tk_side t) ?b = depth (tk_side t) b"
    using unlink_head_depth [OF inv d, where rest = rest] head lv by auto
  have lift: "match_spec t (\<lambda>q. q \<noteq> p) b n rs st'" if "match_spec t (\<lambda>q. q \<noteq> p) ?b (n - ?rem) ?rs st'" for st'
    using that n head(4) ds same by (auto simp: match_spec_def d split: prod.splits)
  show ?thesis
  proof (cases "rest = []")
    case True
    then have "fill_level oc t p (b, n, rs) = Some (?b, n - ?rem, ?rs)"
      using n by (subst fill_level.simps) (simp add: step Let_def)
    moreover have "match_spec t (\<lambda>q. q \<noteq> p) ?b (n - ?rem) ?rs (?b, n - ?rem, ?rs)"
      using True ds next_price [OF inv best] by (intro match_spec_stay inv' take_fills_other_price) auto
    ultimately show ?thesis using lift by blast
  next
    case False
    then have "fill_level oc t p (b, n, rs) = fill_level oc t p (?b, n - ?rem, ?rs)"
      using n by (subst fill_level.simps) (simp add: step Let_def)
    moreover have "best_levels ?s ?b = (p, rest) # ls"
      using False best_head(3) [OF best, of rest] book_inv_side [OF inv] by (simp add: unlink_def Let_def side_inv_def)
    ultimately show ?thesis using next_level [OF False inv', of "n - ?rem" ?rs] lift by auto
  qed
qed

lemma fill_level_refines:
  assumes "book_inv b" and "best_levels (opposite (tk_side t)) b = (p, l) # ls"
  shows "\<exists>st'. fill_level oc t p (b, n, rs) = Some st' \<and> match_spec t (\<lambda>q. q \<noteq> p) b n rs st'"
  using assms
proof (induction l arbitrary: b n rs)
  case Nil
  then show ?case by (auto elim: head_order)
next
  case (Cons oid0 l)
  let ?s = "opposite (tk_side t)"
  obtain oid rest ord where head: "oid0 # l = oid # rest" "hm_get (orders b) oid = Some ord" "ord_order_id ord = oid"
      "ord_price ord = p"
    and lv: "bt_get (side_levels ?s b) p = Some (oid # rest)" "distinct (oid # rest)"
    and d: "depth ?s b = ord # level_orders (hm_get (orders b)) ((p, rest) # ls)"
    using head_order [OF Cons.prems] by (metis (no_types))
  consider (zero) "n = 0" | (part) "0 < n" "n < ord_remaining_qty ord" | (full) "0 < n" "ord_remaining_qty ord \<le> n" by linarith
  then show ?case
  proof cases
    case zero
    then have "fill_level oc t p (b, n, rs) = Some (b, n, rs)" by (simp add: fill_level.simps fill_step_def)
    then show ?thesis using zero by (auto intro!: match_spec_stay Cons.prems)
  next
    case part
    then show ?thesis by (rule fill_level_part [OF Cons.prems head d])
  next
    case full
    then show ?thesis using Cons.IH head(1) by (intro fill_level_full [OF Cons.prems head lv d]) auto
  qed
qed

text \<open>The outer loop returns, and what it returns is the prefix of the depth that the stop test admits.\<close>

lemma match_while_unfold:
  "match_while oc t stops (b, n, rs) =
     (if n = 0 then Some (b, n, rs)
      else case resting_best (tk_side t) b of None \<Rightarrow> Some (b, n, rs)
        | Some p \<Rightarrow> (if stops p then Some (b, n, rs)
            else fill_level oc t p (b, n, rs) \<bind> match_while oc t stops))"
  by (subst match_while.simps) (simp split: option.splits)

text \<open>The loop ends when nothing is left, the side is empty, or the best price is refused.\<close>

lemma match_while_done:
  assumes inv: "book_inv b" and "n = 0 \<or> best_levels (opposite (tk_side t)) b = [] \<or>
    (\<exists>p l ls. best_levels (opposite (tk_side t)) b = (p, l) # ls \<and> stops p)"
  shows "\<exists>st'. match_while oc t stops (b, n, rs) = Some st' \<and> match_spec t stops b n rs st'"
  using assms(2)
proof (elim disjE exE conjE)
  assume "n = 0"
  then show ?thesis by (auto simp: match_while_unfold intro!: match_spec_stay inv)
next
  assume "best_levels (opposite (tk_side t)) b = []"
  then show ?thesis
    using best_empty [of "opposite (tk_side t)" b] by (auto simp: match_while_unfold depth_def intro!: match_spec_stay inv)
next
  fix p l ls assume best: "best_levels (opposite (tk_side t)) b = (p, l) # ls" and stop: "stops p"
  have "resting_best (tk_side t) b = Some p"
    using best_head(2) [OF best] book_inv_side [OF inv] by (simp add: side_inv_def)
  then have "match_while oc t stops (b, n, rs) = Some (b, n, rs)" using stop by (auto simp: match_while_unfold)
  moreover obtain ord ds where "depth (opposite (tk_side t)) b = ord # ds" "ord_price ord = p"
    using head_order [OF inv best] by blast
  then have "match_spec t stops b n rs (b, n, rs)" using stop by (intro match_spec_stay inv) auto
  ultimately show ?thesis by blast
qed

lemma match_while_refines:
  assumes "book_inv b"
  shows "\<exists>st'. match_while oc t stops (b, n, rs) = Some st' \<and> match_spec t stops b n rs st'"
  using assms
proof (induction "length (depth (opposite (tk_side t)) b)" arbitrary: b n rs rule: less_induct)
  case less
  let ?s = "opposite (tk_side t)"
  show ?case
  proof (cases "n = 0 \<or> best_levels ?s b = [] \<or> (\<exists>p l ls. best_levels ?s b = (p, l) # ls \<and> stops p)")
    case True
    then show ?thesis by (rule match_while_done [OF less.prems])
  next
    case False
    then obtain p l ls where best: "best_levels ?s b = (p, l) # ls" and go: "n \<noteq> 0" "\<not> stops p"
      by (metis neq_Nil_conv surj_pair)
    obtain ord ds where d: "depth ?s b = ord # ds" and p: "ord_price ord = p" and rem: "0 < ord_remaining_qty ord"
      using head_order [OF less.prems best] by blast
    obtain b1 n1 rs1 where fill: "fill_level oc t p (b, n, rs) = Some (b1, n1, rs1)"
      and spec: "match_spec t (\<lambda>q. q \<noteq> p) b n rs (b1, n1, rs1)"
      using fill_level_refines [OF less.prems best, of oc n rs] by (metis prod_cases3)
    then have inv1: "book_inv b1" by (auto simp: match_spec_def split: prod.splits)
    have "resting_best (tk_side t) b = Some p"
      using best_head(2) [OF best] book_inv_side [OF less.prems] by (simp add: side_inv_def)
    then have run: "match_while oc t stops (b, n, rs) = match_while oc t stops (b1, n1, rs1)"
      using go fill by (simp add: match_while_unfold [of oc t stops b])
    have "n1 = 0 \<or> length (depth ?s b1) < length (depth ?s b)"
      using spec go d p rem by (auto simp: match_spec_def split: prod.splits if_splits dest: take_fills_length)
    then obtain st' where "match_while oc t stops (b1, n1, rs1) = Some st'" "match_spec t stops b1 n1 rs1 st'"
      using less.hyps [OF _ inv1] match_while_done [OF inv1] by metis
    then show ?thesis using run match_spec_trans [OF spec] go by auto
  qed
qed

end
