(* ===== verification/Orderbook_Ops.thy ===== *)
theory Orderbook_Ops
  imports Orderbook_Match
begin

text \<open>
  The public operations of the book against the abstract ones: resting and cancelling, the three
  liquidity queries, the depth snapshot, and placing limit and market orders.
\<close>

section \<open>Resting an order\<close>

definition strictly_better :: "side \<Rightarrow> nat \<Rightarrow> nat \<Rightarrow> bool" where
  "strictly_better s p q = (case s of Bid \<Rightarrow> q < p | Ask \<Rightarrow> p < q)"

lemma strictly_better_simps:
  "strictly_better s p q \<Longrightarrow> at_least_as_good s p q"
  "strictly_better s q p \<Longrightarrow> \<not> at_least_as_good s p q"
  "at_least_as_good s p p"
  by (auto simp: strictly_better_def at_least_as_good_def split: side.splits)

lemma insert_levels:
  assumes wf: "bt_wf (side_levels s b)"
    and level: "level = (case bt_get (side_levels s b) p of None \<Rightarrow> [] | Some l \<Rightarrow> l)"
    and nonempty: "\<And>l. bt_get (side_levels s b) p = Some l \<Longrightarrow> l \<noteq> []"
  obtains n1 n2 where "best_levels s b = n1 @ (if level = [] then [] else [(p, level)]) @ n2"
    and "best_levels s (set_side_levels s (bt_insert p l' (side_levels s b)) b) = n1 @ [(p, l')] @ n2"
    and "\<forall>pl \<in> set n1. strictly_better s (fst pl) p" and "\<forall>pl \<in> set n2. strictly_better s p (fst pl)"
proof -
  obtain m1 m2 where m: "side_levels s b = m1 @ (if level = [] then [] else [(p, level)]) @ m2"
    "bt_insert p l' (side_levels s b) = m1 @ [(p, l')] @ m2"
    "\<forall>k \<in> fst ` set m1. k < p" "\<forall>k \<in> fst ` set m2. p < k"
  proof (cases "bt_get (side_levels s b) p")
    case None
    obtain m1 m2 where "side_levels s b = m1 @ m2" "\<And>v. bt_insert p v (side_levels s b) = m1 @ (p, v) # m2"
        "\<forall>k \<in> fst ` set m1. k < p" "\<forall>k \<in> fst ` set m2. p < k"
      using bt_split_fresh [OF wf None] by blast
    moreover have "level = []" using None level by simp
    ultimately show ?thesis by (intro that [of m1 m2]) auto
  next
    case (Some l)
    obtain m1 m2 where m: "side_levels s b = m1 @ (p, l) # m2"
        "\<And>v. bt_insert p v (side_levels s b) = m1 @ (p, v) # m2"
      using bt_split_key [OF wf Some] by blast
    have "\<forall>k \<in> fst ` set m1. k < p" "\<forall>k \<in> fst ` set m2. p < k"
      using wf unfolding m(1) by (auto simp: bt_wf_def sorted_wrt_append)
    with m Some level nonempty show ?thesis by (intro that [of m1 m2]) auto
  qed
  show thesis
  proof (cases s)
    case Bid
    with m show thesis
      by (intro that [of "rev m2" "rev m1"]) (auto simp: best_levels_def' strictly_better_def)
  next
    case Ask
    with m show thesis
      by (intro that [of m1 m2]) (auto simp: best_levels_def' strictly_better_def)
  qed
qed

lemma level_orders_price:
  assumes "\<And>pl. pl \<in> set ls \<Longrightarrow> level_ok f s pl" and "x \<in> set (level_orders f ls)"
  shows "\<exists>pl \<in> set ls. ord_price x = fst pl"
proof -
  obtain p l where l: "(p, l) \<in> set ls" "x \<in> set (List.map_filter f l)"
    using assms(2) by (auto simp: level_orders_def)
  with assms(1) have ok: "level_ok f s (p, l)" by auto
  then have "ord_price x = p"
    using l(2) by (auto simp: level_ok_queue [OF ok] level_ok_def split: option.splits)
  with l(1) show ?thesis by force
qed

lemma map_filter_append [simp]: "List.map_filter f (xs @ ys) = List.map_filter f xs @ List.map_filter f ys"
  by (induction xs) (auto split: option.splits)

lemma level_ok_fresh:
  assumes "level_ok f s pl" and "f oid = None"
  shows "level_ok (f(oid \<mapsto> ord)) s pl"
  using assms unfolding level_ok_def by (fastforce split: option.splits)

lemma rest_order_parts:
  assumes inv: "book_inv b"
    and ord: "ord = \<lparr>ord_order_id = oid, ord_user_id = uid, ord_side = s, ord_price = p, ord_remaining_qty = q\<rparr>"
    and b': "b' = rest_order oid uid s p q b"
  obtains n1 n2 level where "best_levels s b = n1 @ (if level = [] then [] else [(p, level)]) @ n2"
    and "best_levels s b' = n1 @ [(p, level @ [oid])] @ n2"
    and "\<forall>pl \<in> set n1. strictly_better s (fst pl) p" and "\<forall>pl \<in> set n2. strictly_better s p (fst pl)"
    and "bt_wf (side_levels s b')" and "orders b' = hm_insert oid ord (orders b)"
    and "\<And>s'. s' \<noteq> s \<Longrightarrow> best_levels s' b' = best_levels s' b \<and> side_levels s' b' = side_levels s' b"
    and "ob_next_order_id b' = ob_next_order_id b" and "symbol b' = symbol b"
proof -
  define level where level: "level = (case bt_get (side_levels s b) p of None \<Rightarrow> [] | Some l \<Rightarrow> l)"
  have b'': "b' = (set_side_levels s (bt_insert p (level @ [oid]) (side_levels s b)) b)
      \<lparr>orders := hm_insert oid ord (orders b)\<rparr>"
    unfolding b' rest_order_def Let_def ord level price_level_new_def by simp
  have si: "side_inv s b" by (rule book_inv_side [OF inv])
  then have wf: "bt_wf (side_levels s b)" by (simp add: side_inv_def)
  have nonempty: "l \<noteq> []" if "bt_get (side_levels s b) p = Some l" for l
  proof -
    have "(p, l) \<in> set (best_levels s b)"
      using that bt.entries_iff [OF wf] by (simp add: set_best_levels)
    with si show ?thesis by (auto simp: side_inv_def level_ok_def)
  qed
  obtain n1 n2 where n: "best_levels s b = n1 @ (if level = [] then [] else [(p, level)]) @ n2"
      "best_levels s (set_side_levels s (bt_insert p (level @ [oid]) (side_levels s b)) b)
         = n1 @ [(p, level @ [oid])] @ n2"
      "\<forall>pl \<in> set n1. strictly_better s (fst pl) p" "\<forall>pl \<in> set n2. strictly_better s p (fst pl)"
    using insert_levels [OF wf level nonempty] by blast
  have "best_levels s b' = n1 @ [(p, level @ [oid])] @ n2"
    using n(2) by (simp add: b'')
  with n show thesis
    using wf by (intro that) (auto simp: b'' bt_wf_insert)
qed

lemma level_orders_all:
  assumes "\<forall>pl \<in> set ls. level_ok f s pl" and "\<forall>pl \<in> set ls. P (fst pl)"
  shows "\<forall>x \<in> set (level_orders f ls). P (ord_price x)"
  using level_orders_price [of ls f s] assms by fastforce

lemma rest_order_depth:
  assumes inv: "book_inv b" and fresh: "hm_get (orders b) oid = None"
    and ord: "ord = \<lparr>ord_order_id = oid, ord_user_id = uid, ord_side = s, ord_price = p, ord_remaining_qty = q\<rparr>"
  shows "depth s (rest_order oid uid s p q b) = enqueue s ord (depth s b)"
    and "s' \<noteq> s \<Longrightarrow> depth s' (rest_order oid uid s p q b) = depth s' b"
proof -
  let ?f = "hm_get (orders b)" and ?b = "rest_order oid uid s p q b"
  obtain n1 n2 level where n: "best_levels s b = n1 @ (if level = [] then [] else [(p, level)]) @ n2"
      "best_levels s ?b = n1 @ [(p, level @ [oid])] @ n2"
      "\<forall>pl \<in> set n1. strictly_better s (fst pl) p" "\<forall>pl \<in> set n2. strictly_better s p (fst pl)"
      and ords: "orders ?b = hm_insert oid ord (orders b)"
      and other: "\<And>s'. s' \<noteq> s \<Longrightarrow> best_levels s' ?b = best_levels s' b"
    using rest_order_parts [OF inv ord refl] by metis
  have notin: "oid \<notin> set (queued s' b)" for s'
    using queued_level [OF book_inv_side [OF inv], of oid s'] fresh by auto
  have f': "hm_get (orders ?b) = ?f(oid \<mapsto> ord)"
    by (simp add: ords AList.update_conv')
  have keep: "level_orders (hm_get (orders ?b)) ls = level_orders ?f ls"
    if "set (concat (map snd ls)) \<subseteq> set (queued s' b)" for ls s'
    using that notin [of s'] by (intro level_orders_cong) (auto simp: f')
  show "depth s' ?b = depth s' b" if "s' \<noteq> s"
    using keep [of "best_levels s' b" s'] other [OF that] by (simp add: depth_def queued_def)
  have level: "level_orders ?f (if level = [] then [] else [(p, level)]) = List.map_filter ?f level"
    by simp
  have sub: "set (concat (map snd n1)) \<subseteq> set (queued s b)" "set (concat (map snd n2)) \<subseteq> set (queued s b)"
      "set level \<subseteq> set (queued s b)"
    by (auto simp: queued_def n(1))
  have "List.map_filter (hm_get (orders ?b)) level = List.map_filter ?f level"
    using sub(3) notin [of s] by (intro map_filter_cong) (auto simp: f')
  then have new: "depth s ?b = level_orders ?f n1 @ List.map_filter ?f level @ [ord] @ level_orders ?f n2"
    using keep [OF sub(1)] keep [OF sub(2)] by (simp add: depth_def n(2) f')
  have ok: "level_ok ?f s pl" if "pl \<in> set n1 \<or> pl \<in> set n2 \<or> level \<noteq> [] \<and> pl = (p, level)" for pl
    using book_inv_side [OF inv, of s] that by (auto simp: side_inv_def n(1))
  have good: "\<forall>x \<in> set (level_orders ?f (n1 @ (if level = [] then [] else [(p, level)]))). at_least_as_good s (ord_price x) p"
    using n(3) by (intro level_orders_all [where s = s]) (auto intro!: ok simp: strictly_better_simps split: if_splits)
  have bad: "\<forall>x \<in> set (level_orders ?f n2). \<not> at_least_as_good s (ord_price x) p"
    using n(4) by (intro level_orders_all [where s = s]) (auto intro!: ok simp: strictly_better_simps)
  have "depth s b = level_orders ?f (n1 @ (if level = [] then [] else [(p, level)])) @ level_orders ?f n2"
    by (simp add: depth_def n(1))
  then show "depth s ?b = enqueue s ord (depth s b)"
    using good bad enqueue_split [of "level_orders ?f (n1 @ (if level = [] then [] else [(p, level)]))" s ord]
      new ord by simp
qed

lemma rest_order_side:
  assumes inv: "book_inv b" and fresh: "hm_get (orders b) oid = None" and pos: "0 < p" "0 < q"
  shows "side_inv s' (rest_order oid uid s p q b)"
    and "set (queued s' b) \<subseteq> set (queued s' (rest_order oid uid s p q b))" and "oid \<in> set (queued s (rest_order oid uid s p q b))"
proof -
  let ?f = "hm_get (orders b)" and ?b = "rest_order oid uid s p q b"
  define ord where ord: "ord = \<lparr>ord_order_id = oid, ord_user_id = uid, ord_side = s, ord_price = p, ord_remaining_qty = q\<rparr>"
  obtain n1 n2 level where n: "best_levels s b = n1 @ (if level = [] then [] else [(p, level)]) @ n2"
      "best_levels s ?b = n1 @ [(p, level @ [oid])] @ n2" and wf: "bt_wf (side_levels s ?b)"
      and ords: "orders ?b = hm_insert oid ord (orders b)"
      and other: "\<And>s'. s' \<noteq> s \<Longrightarrow> best_levels s' ?b = best_levels s' b \<and> side_levels s' ?b = side_levels s' b"
    using rest_order_parts [OF inv ord refl] by metis
  note si = book_inv_side [OF inv]
  have f': "hm_get (orders ?b) = ?f(oid \<mapsto> ord)" by (simp add: ords AList.update_conv')
  have notin: "oid \<notin> set (queued s' b)" for s'
    using queued_level [OF si, of oid s'] fresh by auto
  have "level_ok (hm_get (orders ?b)) s (p, level @ [oid])"
  proof (cases "level = []")
    case False
    then have "level_ok ?f s (p, level)" using si [of s] by (simp add: side_inv_def n(1))
    with level_ok_fresh [OF this fresh, of ord] pos show ?thesis by (auto simp: level_ok_iff f' ord)
  qed (use pos in \<open>simp add: level_ok_iff f' ord\<close>)
  moreover have "level_ok (hm_get (orders ?b)) s' pl" if "pl \<in> set (best_levels s' b)" for s' pl
    using si [of s'] that fresh by (auto simp: side_inv_def f' intro!: level_ok_fresh)
  moreover have "distinct (queued s ?b)"
    using si [of s] notin [of s] by (auto simp: side_inv_def queued_def n split: if_splits)
  ultimately show "side_inv s' ?b"
    using other [of s'] si [of s'] wf
    by (cases "s' = s") (auto simp: side_inv_def n queued_def split: if_splits)
  show "set (queued s' b) \<subseteq> set (queued s' ?b)" "oid \<in> set (queued s ?b)"
    using other [of s'] by (cases "s' = s") (auto simp: queued_def n split: if_splits)
qed

lemma rest_order_inv:
  assumes inv: "book_inv b" and fresh: "hm_get (orders b) oid = None"
    and bound: "oid < ob_next_order_id b" and pos: "0 < p" "0 < q"
  shows "book_inv (rest_order oid uid s p q b)"
    and "symbol (rest_order oid uid s p q b) = symbol b"
    and "ob_next_order_id (rest_order oid uid s p q b) = ob_next_order_id b"
proof -
  let ?f = "hm_get (orders b)" and ?b = "rest_order oid uid s p q b"
  define ord where ord: "ord = \<lparr>ord_order_id = oid, ord_user_id = uid, ord_side = s, ord_price = p, ord_remaining_qty = q\<rparr>"
  have ords: "orders ?b = hm_insert oid ord (orders b)" and nid: "ob_next_order_id ?b = ob_next_order_id b"
    using rest_order_parts [OF inv ord refl] by metis+
  note side = rest_order_side [OF inv fresh pos]
  have wf: "hm_wf (orders ?b)" using inv by (simp add: book_inv_def ords AList.distinct_update)
  have "oid' \<in> set (queued (ord_side ord') ?b) \<and> oid' < ob_next_order_id ?b"
    if "(oid', ord') \<in> set (orders ?b)" for oid' ord'
  proof -
    have "hm_get (orders ?b) oid' = Some ord'" using that wf by (simp only: map_of_is_SomeI)
    then have "(?f(oid \<mapsto> ord)) oid' = Some ord'" by (simp add: ords AList.update_conv')
    then consider "oid' = oid" "ord_side ord' = s" | "?f oid' = Some ord'" by (auto simp: ord split: if_splits)
    then show ?thesis
      using side(2,3) get_order_key [OF inv, of oid' ord'] bound nid by cases auto
  qed
  with side(1) wf show "book_inv ?b" unfolding book_inv_def by blast
qed (use rest_order_parts [OF inv refl refl] in metis)+

section \<open>Cancelling\<close>

lemma remove_first_filter:
  "distinct l \<Longrightarrow> x \<in> set l \<Longrightarrow> remove_first x l = Some (filter (\<lambda>y. y \<noteq> x) l)"
  by (induction l) (auto simp: filter_id_conv intro!: filter_True [symmetric])

definition cancelled_of :: "order \<Rightarrow> order_cancelled" where
  "cancelled_of ord = \<lparr>ocl_order_id = ord_order_id ord, ocl_user_id = ord_user_id ord,
     ocl_side = ord_side ord, ocl_price = ord_price ord, ocl_remaining_qty = ord_remaining_qty ord\<rparr>"

lemma cancel_order_refines:
  assumes inv: "book_inv b" and get: "get_order b oid = Some ord" and owner: "ord_user_id ord = uid"
  shows "\<exists>b'. cancel_order oid uid b = Some (b', Inr (cancelled_of ord)) \<and> book_inv b' \<and>
     (\<forall>s. depth s b' = filter (\<lambda>x. ord_order_id x \<noteq> oid) (depth s b)) \<and>
     symbol b' = symbol b \<and> ob_next_order_id b' = ob_next_order_id b"
proof -
  note get' = get [unfolded get_order_def]
  obtain l where l: "bt_get (side_levels (ord_side ord) b) (ord_price ord) = Some l"
      "oid \<in> set l" "distinct l"
    using order_level [OF inv get'] by blast
  let ?rest = "filter (\<lambda>x. x \<noteq> oid) l"
  have "cancel_order oid uid b =
      Some (unlink (ord_side ord) (ord_price ord) ?rest oid b, Inr (cancelled_of ord))"
    using get' owner l remove_first_filter [OF l(3,2)]
    by (simp add: cancel_order_def unlink_def cancelled_of_def price_level_is_empty_def Let_def)
  then show ?thesis
    using unlink_inv [OF inv get' l(1,2) refl] unlink_depth [OF inv get' l(1,2) refl] by auto
qed

lemma cancel_order_unknown:
  "get_order b oid = None \<Longrightarrow> cancel_order oid uid b = Some (b, Inl OrderNotFound)"
  by (simp add: cancel_order_def get_order_def)

lemma cancel_order_foreign:
  "get_order b oid = Some ord \<Longrightarrow> ord_user_id ord \<noteq> uid \<Longrightarrow>
    cancel_order oid uid b = Some (b, Inl NotOrderOwner)"
  by (simp add: cancel_order_def get_order_def)

section \<open>Liquidity queries\<close>

text \<open>Loops over the levels of a side see the orders of the level list, level by level.\<close>

lemma level_ok_members:
  assumes "level_ok f s (p, l)" and "x \<in> set (List.map_filter f l)"
  shows "ord_price x = p" and "0 < ord_remaining_qty x"
  using assms(2) assms(1) by (auto simp: level_ok_queue [OF assms(1)] level_ok_iff)

lemma level_ok_head:
  assumes "level_ok f s (p, l)"
  obtains x xs where "List.map_filter f l = x # xs" and "ord_price x = p"
proof -
  obtain oid rest where l: "l = oid # rest"
    using assms by (auto simp: level_ok_iff neq_Nil_conv)
  then have "List.map_filter f l = the (f oid) # map (the \<circ> f) rest"
    using level_ok_queue [OF assms] by simp
  moreover have "ord_price (the (f oid)) = p"
    using assms l by (auto simp: level_ok_iff)
  ultimately show thesis using that by blast
qed

lemma can_fill_level_eq:
  assumes "a < qty" and "a + sum_of ord_remaining_qty (List.map_filter (hm_get os) l) < u64_lim"
  shows "can_fill_level oc os qty a l =
    (let t = a + sum_of ord_remaining_qty (List.map_filter (hm_get os) l)
     in Some (if qty \<le> t then Inr True else Inl t))"
  using assms
proof (induction l arbitrary: a)
  case (Cons oid l)
  show ?case
  proof (cases "hm_get os oid")
    case None
    with Cons show ?thesis by simp
  next
    case (Some ord)
    let ?a = "a + ord_remaining_qty ord"
    have add: "u64_add oc a (ord_remaining_qty ord) = Some ?a"
      using Cons.prems(2) Some by (simp add: u64_add_ok)
    show ?thesis
    proof (cases "qty \<le> ?a")
      case False
      with Cons.IH [of ?a] Cons.prems(2) Some add show ?thesis by (simp add: add.assoc)
    qed (use Some add in \<open>simp add: Let_def\<close>)
  qed
qed simp

lemma can_fill_levels_eq:
  assumes "\<forall>pl \<in> set ls. level_ok (hm_get os) s pl" and "a < qty"
    and "a + sum_of ord_remaining_qty (level_orders (hm_get os) ls) < u64_lim"
  shows "can_fill_levels oc os stops qty a ls =
    Some (qty \<le> a + reachable_qty stops (level_orders (hm_get os) ls))"
  using assms
proof (induction ls arbitrary: a)
  case (Cons pl ls)
  obtain p l where pl: "pl = (p, l)" by (cases pl)
  let ?D = "List.map_filter (hm_get os) l"
  have ok: "level_ok (hm_get os) s (p, l)" using Cons.prems(1) pl by simp
  obtain x xs where head: "?D = x # xs" "ord_price x = p" using level_ok_head [OF ok] .
  show ?case
  proof (cases "stops p")
    case True
    with head pl Cons.prems(2) show ?thesis by (simp add: reachable_qty_def)
  next
    case False
    then have all: "\<And>y. y \<in> set ?D \<Longrightarrow> \<not> stops (ord_price y)"
      using level_ok_members(1) [OF ok] by auto
    then have reach: "reachable_qty stops (?D @ level_orders (hm_get os) ls) =
        sum_of ord_remaining_qty ?D + reachable_qty stops (level_orders (hm_get os) ls)"
      by (simp add: reachable_qty_def takeWhile_append2)
    have level: "can_fill_level oc os qty a l =
        (let t = a + sum_of ord_remaining_qty ?D in Some (if qty \<le> t then Inr True else Inl t))"
      using Cons.prems pl by (intro can_fill_level_eq) auto
    show ?thesis
      using Cons.IH [of "a + sum_of ord_remaining_qty ?D"] Cons.prems False level
      by (auto simp: pl reach Let_def add.assoc)
  qed
qed (simp add: reachable_qty_def)

lemma limit_stops_simps:
  "limit_stops Bid price = (\<lambda>p. p > price)" "limit_stops Ask price = (\<lambda>p. p < price)"
  by (auto simp: limit_stops_def)

lemma best_levels_ok: "book_inv b \<Longrightarrow> \<forall>pl \<in> set (best_levels s b). level_ok (hm_get (orders b)) s pl"
  using book_inv_side [of b s] by (simp add: side_inv_def)

lemma can_fill_quantity_eq:
  assumes "book_inv b" and "sum_of ord_remaining_qty (depth (opposite s) b) < u64_lim"
  shows "can_fill_quantity oc b s price qty =
    Some (qty \<le> reachable_qty (limit_stops s price) (depth (opposite s) b))"
  using can_fill_levels_eq [OF best_levels_ok [OF assms(1), of "opposite s"], of 0 qty oc "limit_stops s price"]
    assms(2)
  by (cases s) (auto simp: can_fill_quantity_def limit_stops_simps depth_def best_levels_def)

text \<open>What a run costs in quote currency.\<close>

abbreviation fills_cost :: "(order \<times> nat) list \<Rightarrow> nat" where
  "fills_cost fs \<equiv> sum_of (\<lambda>f. ord_price (fst f) * snd f) fs"

lemma take_fills_all: "take_fills (\<lambda>_. False) n os = (fs, os', n') \<Longrightarrow> 0 < n' \<Longrightarrow> os' = []"
  using take_fills_stop by fastforce

lemma quote_level_eq:
  assumes "level_ok f s (p, l)" and "f = hm_get os" and "0 < q"
    and "take_fills (\<lambda>_. False) q (List.map_filter f l) = (fs, os', q')"
    and "c + fills_cost fs < u64_lim" and "n + sum_of snd fs < u64_lim"
  shows "quote_level oc os p (q, c, n) l = Some ((q', c + fills_cost fs, n + sum_of snd fs), q' = 0)"
proof -
  have "quote_level oc os p (q, c, n) l = Some ((q', c + fills_cost fs, n + sum_of snd fs), q' = 0)"
    if "\<forall>oid \<in> set l. \<exists>x. f oid = Some x \<and> ord_price x = p \<and> 0 < ord_remaining_qty x"
    using that assms(2-)
  proof (induction l arbitrary: q c n fs os')
    case (Cons oid l)
    then obtain x where x: "hm_get os oid = Some x" "ord_price x = p" by auto
    show ?case
    proof (cases "q \<le> ord_remaining_qty x")
      case True
      then have fs: "fs = [(x, q)]" "q' = 0"
        using Cons.prems(3,4) x Cons.prems(2) by (auto split: if_splits prod.splits)
      with True Cons.prems x show ?thesis
        by (simp add: u64_mul_ok u64_add_ok u64_sub_ok Let_def mult.commute min_absorb1)
    next
      case False
      obtain fs1 where rec: "take_fills (\<lambda>_. False) (q - ord_remaining_qty x) (List.map_filter f l) = (fs1, os', q')"
        and fs: "fs = (x, ord_remaining_qty x) # fs1"
        using Cons.prems(2,3,4) x False by (auto split: prod.splits)
      have "quote_level oc os p (q - ord_remaining_qty x, c + p * ord_remaining_qty x, n + ord_remaining_qty x) l =
          Some ((q', c + fills_cost fs, n + sum_of snd fs), q' = 0)"
        using Cons.IH [OF _ Cons.prems(2) _ rec, of "c + p * ord_remaining_qty x" "n + ord_remaining_qty x"]
          Cons.prems False fs x by (simp add: add.assoc)
      then show ?thesis
        using False Cons.prems fs x
        by (simp add: u64_mul_ok u64_add_ok u64_sub_ok Let_def mult.commute min_absorb2)
    qed
  qed auto
  with assms(1) show ?thesis by (fastforce simp: level_ok_iff)
qed

lemma sell_level_eq:
  assumes "level_ok f s (p, l)" and "f = hm_get os" and "0 < q"
    and "take_fills (\<lambda>_. False) q (List.map_filter f l) = (fs, os', q')"
    and "n + sum_of snd fs < u64_lim"
  shows "sell_level oc os (q, n) l = Some ((q', n + sum_of snd fs), q' = 0)"
proof -
  have "sell_level oc os (q, n) l = Some ((q', n + sum_of snd fs), q' = 0)"
    if "\<forall>oid \<in> set l. \<exists>x. f oid = Some x \<and> 0 < ord_remaining_qty x"
    using that assms(2-)
  proof (induction l arbitrary: q n fs os')
    case (Cons oid l)
    then obtain x where x: "hm_get os oid = Some x" by auto
    show ?case
    proof (cases "q \<le> ord_remaining_qty x")
      case True
      then have fs: "fs = [(x, q)]" "q' = 0"
        using Cons.prems(3,4) x Cons.prems(2) by (auto split: if_splits prod.splits)
      with True Cons.prems x show ?thesis
        by (simp add: u64_add_ok u64_sub_ok Let_def min_absorb1)
    next
      case False
      obtain fs1 where rec: "take_fills (\<lambda>_. False) (q - ord_remaining_qty x) (List.map_filter f l) = (fs1, os', q')"
        and fs: "fs = (x, ord_remaining_qty x) # fs1"
        using Cons.prems(2,3,4) x False by (auto split: prod.splits)
      have "sell_level oc os (q - ord_remaining_qty x, n + ord_remaining_qty x) l =
          Some ((q', n + sum_of snd fs), q' = 0)"
        using Cons.IH [OF _ Cons.prems(2) _ rec, of "n + ord_remaining_qty x"]
          Cons.prems False fs by (simp add: add.assoc)
      then show ?thesis
        using False Cons.prems fs x by (simp add: u64_add_ok u64_sub_ok Let_def min_absorb2)
    qed
  qed auto
  with assms(1) show ?thesis by (fastforce simp: level_ok_iff)
qed

text \<open>One more level in front of a level list, for a stop test that only looks at prices.\<close>

lemma take_fills_first_level:
  assumes "level_ok f s (p, l)"
  shows "stops p \<Longrightarrow> take_fills stops q (level_orders f ((p, l) # ls)) =
      ([], level_orders f ((p, l) # ls), q)"
    and "\<not> stops p \<Longrightarrow> take_fills stops q (level_orders f ((p, l) # ls)) =
      (case take_fills (\<lambda>_. False) q (List.map_filter f l) of (fs1, os1, n1) \<Rightarrow>
         case take_fills stops n1 (level_orders f ls) of (fs2, os2, n2) \<Rightarrow> (fs1 @ fs2, os1 @ os2, n2))"
proof -
  show "take_fills stops q (level_orders f ((p, l) # ls)) = ([], level_orders f ((p, l) # ls), q)"
    if "stops p"
  proof -
    obtain x xs where "List.map_filter f l = x # xs" "ord_price x = p" using level_ok_head [OF assms] .
    with that show ?thesis by simp
  qed
  show "take_fills stops q (level_orders f ((p, l) # ls)) =
      (case take_fills (\<lambda>_. False) q (List.map_filter f l) of (fs1, os1, n1) \<Rightarrow>
         case take_fills stops n1 (level_orders f ls) of (fs2, os2, n2) \<Rightarrow> (fs1 @ fs2, os1 @ os2, n2))"
    if "\<not> stops p"
    using that take_fills_append [of "List.map_filter f l" stops q "level_orders f ls"]
      level_ok_members(1) [OF assms] by auto
qed

lemma quote_levels_eq:
  assumes "\<forall>pl \<in> set ls. level_ok (hm_get os) s pl" and "0 < q"
    and "take_fills (market_stops Bid worst) q (level_orders (hm_get os) ls) = (fs, os', q')"
    and "c + fills_cost fs < u64_lim" and "n + sum_of snd fs < u64_lim"
  shows "quote_levels oc os worst (q, c, n) ls = Some (c + fills_cost fs, n + sum_of snd fs)"
  using assms
proof (induction ls arbitrary: q c n fs os' q')
  case (Cons pl ls)
  obtain p l where pl: "pl = (p, l)" by (cases pl)
  have ok: "level_ok (hm_get os) s (p, l)" using Cons.prems(1) pl by simp
  have stop: "(case worst of None \<Rightarrow> False | Some cap \<Rightarrow> p > cap) = market_stops Bid worst p"
    by (simp add: market_stops_def split: option.splits)
  show ?case
  proof (cases "market_stops Bid worst p")
    case True
    with Cons.prems(3) pl take_fills_first_level(1) [OF ok] show ?thesis by (simp add: stop)
  next
    case False
    obtain fs1 os1 q1 where t1: "take_fills (\<lambda>_. False) q (List.map_filter (hm_get os) l) = (fs1, os1, q1)"
      by (metis prod_cases3)
    obtain fs2 os2 q2 where t2: "take_fills (market_stops Bid worst) q1 (level_orders (hm_get os) ls) = (fs2, os2, q2)"
      by (metis prod_cases3)
    have fs: "fs = fs1 @ fs2" "q' = q2"
      using Cons.prems(3) False take_fills_first_level(2) [OF ok, of "market_stops Bid worst" q ls]
      by (simp_all add: pl t1 t2)
    have level: "quote_level oc os p (q, c, n) l = Some ((q1, c + fills_cost fs1, n + sum_of snd fs1), q1 = 0)"
      using Cons.prems fs by (intro quote_level_eq [OF ok refl _ t1]) auto
    show ?thesis
    proof (cases "q1 = 0")
      case True
      with t2 have "fs2 = []" by simp
      with True level False fs show ?thesis by (simp add: pl stop)
    next
      case False
      then have "quote_levels oc os worst (q1, c + fills_cost fs1, n + sum_of snd fs1) ls =
          Some (c + fills_cost fs, n + sum_of snd fs)"
        using Cons.IH [OF _ _ t2, of "c + fills_cost fs1" "n + sum_of snd fs1"] Cons.prems fs
        by (simp add: add.assoc)
      with False level \<open>\<not> market_stops Bid worst p\<close> show ?thesis by (simp add: pl stop)
    qed
  qed
qed simp

lemma sell_levels_eq:
  assumes "\<forall>pl \<in> set ls. level_ok (hm_get os) s pl" and "0 < q"
    and "take_fills (market_stops Ask worst) q (level_orders (hm_get os) ls) = (fs, os', q')"
    and "n + sum_of snd fs < u64_lim"
  shows "sell_levels oc os worst (q, n) ls = Some (n + sum_of snd fs)"
  using assms
proof (induction ls arbitrary: q n fs os' q')
  case (Cons pl ls)
  obtain p l where pl: "pl = (p, l)" by (cases pl)
  have ok: "level_ok (hm_get os) s (p, l)" using Cons.prems(1) pl by simp
  have stop: "(case worst of None \<Rightarrow> False | Some lo \<Rightarrow> p < lo) = market_stops Ask worst p"
    by (simp add: market_stops_def split: option.splits)
  show ?case
  proof (cases "market_stops Ask worst p")
    case True
    with Cons.prems(3) pl take_fills_first_level(1) [OF ok] show ?thesis by (simp add: stop)
  next
    case False
    obtain fs1 os1 q1 where t1: "take_fills (\<lambda>_. False) q (List.map_filter (hm_get os) l) = (fs1, os1, q1)"
      by (metis prod_cases3)
    obtain fs2 os2 q2 where t2: "take_fills (market_stops Ask worst) q1 (level_orders (hm_get os) ls) = (fs2, os2, q2)"
      by (metis prod_cases3)
    have fs: "fs = fs1 @ fs2" "q' = q2"
      using Cons.prems(3) False take_fills_first_level(2) [OF ok, of "market_stops Ask worst" q ls]
      by (simp_all add: pl t1 t2)
    have level: "sell_level oc os (q, n) l = Some ((q1, n + sum_of snd fs1), q1 = 0)"
      using Cons.prems fs by (intro sell_level_eq [OF ok refl _ t1]) auto
    show ?thesis
    proof (cases "q1 = 0")
      case True
      with t2 have "fs2 = []" by simp
      with True level False fs show ?thesis by (simp add: pl stop)
    next
      case False
      then have "sell_levels oc os worst (q1, n + sum_of snd fs1) ls = Some (n + sum_of snd fs)"
        using Cons.IH [OF _ _ t2, of "n + sum_of snd fs1"] Cons.prems fs by (simp add: add.assoc)
      with False level \<open>\<not> market_stops Ask worst p\<close> show ?thesis by (simp add: pl stop)
    qed
  qed
qed simp

lemma quote_cost_eq:
  assumes "book_inv b" and "0 < qty"
    and "take_fills (market_stops Bid worst) qty (depth Ask b) = (fs, os', q')"
    and "fills_cost fs < u64_lim" and "qty < u64_lim"
  shows "quote_cost_for_market_buy oc b qty worst = Some (fills_cost fs, sum_of snd fs)"
  using quote_levels_eq [OF best_levels_ok [OF assms(1), of Ask], of qty worst fs os' q' 0 0 oc]
    assms(2-) take_fills_qty [OF assms(3)]
  by (simp add: quote_cost_for_market_buy_def depth_def best_levels_def)

lemma fillable_qty_eq:
  assumes "book_inv b" and "0 < qty"
    and "take_fills (market_stops Ask worst) qty (depth Bid b) = (fs, os', q')" and "qty < u64_lim"
  shows "fillable_qty_for_market_sell oc b qty worst = Some (sum_of snd fs)"
  using sell_levels_eq [OF best_levels_ok [OF assms(1), of Bid], of qty worst fs os' q' 0 oc]
    assms(2-) take_fills_qty [OF assms(3)]
  by (simp add: fillable_qty_for_market_sell_def depth_def best_levels_def)

end
