(* ===== verification/Orderbook_Place.thy ===== *)
theory Orderbook_Place
  imports Orderbook_Ops
begin

text \<open>
  Limit and market orders as one abstract step each (\<open>limit_fills\<close>, \<open>take_fills\<close>), the priority order
  of the depth, the spread, and the depth snapshot.
\<close>

section \<open>Price priority\<close>

lemma level_orders_sorted:
  assumes "\<And>pl. pl \<in> set ls \<Longrightarrow> level_ok f s pl"
    and "sorted_wrt (\<lambda>x y. strictly_better s (fst x) (fst y)) ls"
  shows "sorted_wrt (\<lambda>x y. at_least_as_good s (ord_price x) (ord_price y)) (level_orders f ls)"
  using assms
proof (induction ls)
  case (Cons pl ls)
  obtain p l where pl: "pl = (p, l)" by (cases pl)
  have ok: "level_ok f s (p, l)" using Cons.prems(1) pl by simp
  have same: "ord_price x = p" if "x \<in> set (List.map_filter f l)" for x
    using level_ok_members(1) [OF ok that] .
  have "sorted_wrt (\<lambda>x y. at_least_as_good s (ord_price x) (ord_price y)) (List.map_filter f l)"
    by (rule sorted_wrt_mono_rel [of _ "\<lambda>_ _. True"]) (simp_all add: same strictly_better_simps sorted_wrt_true)
  moreover have "at_least_as_good s p (ord_price y)" if "y \<in> set (level_orders f ls)" for y
  proof -
    have "\<exists>pl' \<in> set ls. ord_price y = fst pl'"
      by (rule level_orders_price [where s = s, OF _ that]) (simp add: Cons.prems(1))
    then show ?thesis
      using Cons.prems(2) by (auto simp: pl strictly_better_simps)
  qed
  ultimately show ?case
    using Cons by (auto simp: pl sorted_wrt_append same)
qed simp

lemma depth_sorted:
  assumes "book_inv b"
  shows "sorted_wrt (\<lambda>x y. at_least_as_good s (ord_price x) (ord_price y)) (depth s b)"
proof -
  have wf: "bt_wf (side_levels s b)"
    using book_inv_side [OF assms] by (simp add: side_inv_def)
  have "sorted_wrt (\<lambda>x y. strictly_better s (fst x) (fst y)) (best_levels s b)"
    using wf by (cases s)
      (simp_all add: best_levels_def' strictly_better_def bt_wf_def sorted_wrt_map sorted_wrt_rev)
  then show ?thesis
    unfolding depth_def by (intro level_orders_sorted) (use best_levels_ok [OF assms] in auto)
qed

lemma limit_stops_mono: "limit_stops s price p \<Longrightarrow> at_least_as_good (opposite s) p q \<Longrightarrow> limit_stops s price q"
  by (cases s) (auto simp: limit_stops_def at_least_as_good_def)

lemma limit_stops_uncrossed: "limit_stops s price p \<longleftrightarrow> (case s of Bid \<Rightarrow> price < p | Ask \<Rightarrow> p < price)"
  by (cases s) (auto simp: limit_stops_def)

section \<open>Limit orders\<close>

text \<open>The abstract step of a limit order: a fill-or-kill order that cannot be filled does nothing.\<close>

definition limit_fills ::
  "time_in_force \<Rightarrow> side \<Rightarrow> nat \<Rightarrow> nat \<Rightarrow> order list \<Rightarrow> (order \<times> nat) list \<times> order list \<times> nat" where
  "limit_fills tif s price qty os =
     (if tif = Fok \<and> reachable_qty (limit_stops s price) os < qty then ([], os, qty)
      else take_fills (limit_stops s price) qty os)"

lemma limit_fills_cases:
  assumes "limit_fills tif s price qty os = (fs, os', n')"
  obtains "tif = Fok" "fs = []" "os' = os" "n' = qty" | "take_fills (limit_stops s price) qty os = (fs, os', n')"
proof (cases "tif = Fok \<and> reachable_qty (limit_stops s price) os < qty")
  case True
  with assms that(1) show thesis by (simp add: limit_fills_def)
next
  case False
  with assms have "take_fills (limit_stops s price) qty os = (fs, os', n')"
    by (simp only: limit_fills_def if_False)
  with that(2) show thesis .
qed

lemma limit_fills_fok:
  assumes "limit_fills Fok s price qty os = (fs, os', n')" and "0 < n'"
  shows "fs = [] \<and> os' = os \<and> n' = qty"
  using assms take_fills_left [of "limit_stops s price" qty os fs os' n']
  by (auto simp: limit_fills_def split: if_splits)

definition new_order :: "nat \<Rightarrow> nat \<Rightarrow> side \<Rightarrow> nat \<Rightarrow> nat \<Rightarrow> order" where
  "new_order oid uid s price q = \<lparr>ord_order_id = oid, ord_user_id = uid, ord_side = s,
     ord_price = price, ord_remaining_qty = q\<rparr>"

definition accepted_of :: "order \<Rightarrow> order_accepted" where
  "accepted_of ord = \<lparr>oa_order_id = ord_order_id ord, oa_user_id = ord_user_id ord,
     oa_side = ord_side ord, oa_price = ord_price ord, oa_remaining_qty = ord_remaining_qty ord\<rparr>"

text \<open>The state of the book after a placement, for both kinds of order.\<close>

definition placed :: "orderbook \<Rightarrow> nat \<Rightarrow> side \<Rightarrow> order list \<Rightarrow> order list \<Rightarrow> orderbook \<Rightarrow> bool" where
  "placed b oid s opp own b' \<longleftrightarrow> book_inv b' \<and> depth (opposite s) b' = opp \<and> depth s b' = own \<and>
     symbol b' = symbol b \<and> ob_next_order_id b' = max (ob_next_order_id b) (oid + 1)"

lemma depth_next [simp]: "depth s (b\<lparr>ob_next_order_id := m\<rparr>) = depth s b"
  by (simp add: depth_def)

lemma bump_next: "book_inv b \<Longrightarrow> book_inv (b\<lparr>ob_next_order_id := max (ob_next_order_id b) n\<rparr>)"
  by (auto simp: book_inv_def side_inv_def queued_def less_max_iff_disj split: prod.splits)

lemma fresh_id: "book_inv b \<Longrightarrow> ob_next_order_id b \<le> oid \<Longrightarrow> hm_get (orders b) oid = None"
  using get_order_key(3) [of b oid] by (cases "hm_get (orders b) oid") auto

lemma match_keeps_fresh:
  assumes "book_inv b" and "book_inv b'" and "hm_get (orders b) oid = None"
    and "depth s b' = depth s b"
    and "take_fills stops n (depth (opposite s) b) = (fs, depth (opposite s) b', n')"
  shows "hm_get (orders b') oid = None"
proof (rule ccontr)
  assume "hm_get (orders b') oid \<noteq> None"
  then obtain x where x: "hm_get (orders b') oid = Some x" by blast
  then have mem: "x \<in> set (depth (ord_side x) b')" and id: "ord_order_id x = oid"
    using get_order_key(1) [OF assms(2) x] by (auto simp: depth_iff [OF assms(2)])
  have "\<exists>y. y \<in> set (depth (ord_side x) b) \<and> ord_order_id y = oid"
  proof (cases "ord_side x = s")
    case True
    then show ?thesis using mem id assms(4) by auto
  next
    case False
    then have "ord_side x = opposite s" by (cases s; cases "ord_side x") auto
    then show ?thesis
      using take_fills_rest [OF assms(5), of x] mem id by auto
  qed
  then show False
    using assms(3) by (auto simp: depth_iff [OF assms(1)])
qed

text \<open>The guards of the code decided: what is left is the run and the resting of the remainder.\<close>

lemma add_order_with_id_unfold:
  assumes "u64_add oc oid 1 = Some nx" and "0 < price" and "0 < qty"
    and "b0 = b\<lparr>ob_next_order_id := max (ob_next_order_id b) nx\<rparr>"
    and "tif = Fok \<Longrightarrow> can_fill_quantity oc b0 s price qty = Some enough" and "tif \<noteq> Fok \<Longrightarrow> enough"
    and "match_while oc \<lparr>tk_order_id = oid, tk_user_id = uid, tk_side = s\<rparr> (limit_stops s price) (b0, qty, []) =
      Some (b1, n', rs)"
  shows "add_order_with_id oc oid uid s price qty tif b =
    Some (if \<not> enough then (b0, Inr [])
      else if 0 < n' \<and> tif = Gtc
      then (rest_order oid uid s price n' b1, Inr (rs @ [MR_OrderAccepted (accepted_of (new_order oid uid s price n'))]))
      else (b1, Inr rs))"
  using assms by (cases tif) (simp_all add: add_order_with_id_def Let_def accepted_of_def new_order_def)

lemma match_while_fresh:
  assumes inv: "book_inv b" and oid: "ob_next_order_id b \<le> oid"
    and t: "t = \<lparr>tk_order_id = oid, tk_user_id = uid, tk_side = s\<rparr>"
    and b0: "b0 = b\<lparr>ob_next_order_id := max (ob_next_order_id b) (oid + 1)\<rparr>"
    and run: "take_fills stops qty (depth (opposite s) b) = (fs, os', n')"
  obtains b1 where "match_while oc t stops (b0, qty, []) = Some (b1, n', map (MR_Trade \<circ> fill_trade t) fs)"
    and "placed b oid s os' (depth s b) b1" and "hm_get (orders b1) oid = None"
proof -
  obtain b1 where match: "match_while oc t stops (b0, qty, []) = Some (b1, n', map (MR_Trade \<circ> fill_trade t) fs)"
    and b1: "placed b oid s os' (depth s b) b1"
    using match_while_refines [OF bump_next [OF inv, of "oid + 1"], of oc t stops qty "[]"]
    by (auto simp: match_spec_def run t b0 placed_def)
  moreover have "hm_get (orders b1) oid = None"
    using match_keeps_fresh [OF inv _ fresh_id [OF inv oid], of b1 s] run b1 by (auto simp: placed_def)
  ultimately show thesis using that by blast
qed

lemma placed_rest:
  assumes "placed b oid s os' (depth s b) b1" and "hm_get (orders b1) oid = None"
    and "0 < price" and "0 < q"
  shows "placed b oid s os' (enqueue s (new_order oid uid s price q) (depth s b)) (rest_order oid uid s price q b1)"
proof -
  have b1: "book_inv b1" and "oid < ob_next_order_id b1"
    using assms(1) by (auto simp: placed_def)
  then show ?thesis
    using rest_order_inv [OF b1 assms(2) _ assms(3,4), where s = s] assms(1)
      rest_order_depth(1) [OF b1 assms(2) refl, where s = s and uid = uid and p = price and q = q]
      rest_order_depth(2) [OF b1 assms(2) refl, where s = s and s' = "opposite s" and uid = uid and p = price and q = q]
    by (simp add: placed_def new_order_def)
qed

lemma placed_untouched:
  "book_inv b \<Longrightarrow> placed b oid s (depth (opposite s) b) (depth s b)
     (b\<lparr>ob_next_order_id := max (ob_next_order_id b) (oid + 1)\<rparr>)"
  using bump_next [of b "oid + 1"] by (simp add: placed_def)

lemma add_order_with_id_refines:
  assumes inv: "book_inv b" and pos: "0 < price" "0 < qty"
    and oid: "ob_next_order_id b \<le> oid" "oid + 1 < u64_lim"
    and fits: "tif = Fok \<Longrightarrow> sum_of ord_remaining_qty (depth (opposite s) b) < u64_lim"
    and fills: "limit_fills tif s price qty (depth (opposite s) b) = (fs, os', n')"
    and rests: "rests \<longleftrightarrow> 0 < n' \<and> tif = Gtc"
  obtains b' where "add_order_with_id oc oid uid s price qty tif b =
      Some (b', Inr (map (MR_Trade \<circ> fill_trade \<lparr>tk_order_id = oid, tk_user_id = uid, tk_side = s\<rparr>) fs @
                    (if rests then [MR_OrderAccepted (accepted_of (new_order oid uid s price n'))] else [])))"
    and "placed b oid s os' (if rests then enqueue s (new_order oid uid s price n') (depth s b) else depth s b) b'"
proof -
  define b0 where "b0 = b\<lparr>ob_next_order_id := max (ob_next_order_id b) (oid + 1)\<rparr>"
  let ?enough = "\<not> (tif = Fok \<and> reachable_qty (limit_stops s price) (depth (opposite s) b) < qty)"
  obtain gs os1 m where run: "take_fills (limit_stops s price) qty (depth (opposite s) b) = (gs, os1, m)"
    by (metis prod_cases3)
  obtain b1 where match: "match_while oc \<lparr>tk_order_id = oid, tk_user_id = uid, tk_side = s\<rparr> (limit_stops s price)
        (b0, qty, []) = Some (b1, m, map (MR_Trade \<circ> fill_trade \<lparr>tk_order_id = oid, tk_user_id = uid, tk_side = s\<rparr>) gs)"
    and b1: "placed b oid s os1 (depth s b) b1" "hm_get (orders b1) oid = None"
    using match_while_fresh [OF inv oid(1) refl b0_def run] .
  have "can_fill_quantity oc b0 s price qty = Some ?enough" if "tif = Fok"
    using can_fill_quantity_eq [OF bump_next [OF inv, of "oid + 1"], of s oc price qty] fits [OF that] that
    by (auto simp: b0_def)
  note code = add_order_with_id_unfold [where tif = tif, OF u64_add_ok [OF oid(2)] pos b0_def this _ match]
  show thesis
  proof (cases ?enough)
    case False
    then have "fs = []" "os' = depth (opposite s) b" "\<not> rests" using fills rests by (auto simp: limit_fills_def)
    with False show thesis
      using code placed_untouched [OF inv, of oid s] by (intro that [of b0]) (auto simp: b0_def)
  next
    case True
    then have "gs = fs" "os1 = os'" "m = n'" using fills run by (auto simp: limit_fills_def)
    with True show thesis
      using code placed_rest [OF b1 pos(1), of n' uid] b1 rests
      by (intro that [of "if rests then rest_order oid uid s price n' b1 else b1"]) auto
  qed
qed

lemma add_order_with_id_rejects:
  assumes "oid + 1 < u64_lim" and "price = 0 \<or> qty = 0"
  shows "add_order_with_id oc oid uid s price qty tif b =
    Some (b\<lparr>ob_next_order_id := max (ob_next_order_id b) (oid + 1)\<rparr>,
      Inl (if price = 0 then InvalidPrice else InvalidQuantity))"
  unfolding add_order_with_id_def u64_add_ok [OF assms(1)] using assms(2) by auto

text \<open>The convenience entry points take the next id of the book itself.\<close>

lemma add_order_eq:
  assumes "ob_next_order_id b + 1 < u64_lim"
  shows "add_order oc uid s price qty tif b = add_order_with_id oc (ob_next_order_id b) uid s price qty tif b"
  using u64_add_ok [OF assms, of oc] by (simp add: add_order_def add_order_with_id_def Let_def cong: if_cong)

lemma execute_market_order_eq:
  assumes "ob_next_order_id b + 1 < u64_lim"
  shows "execute_market_order oc uid s qty worst b =
    execute_market_order_with_id oc (ob_next_order_id b) uid s qty worst b"
  using u64_add_ok [OF assms, of oc]
  by (simp add: execute_market_order_def execute_market_order_with_id_def Let_def)

section \<open>Market orders\<close>

lemma execute_market_order_refines:
  assumes inv: "book_inv b" and pos: "0 < qty"
    and oid: "ob_next_order_id b \<le> oid" "oid + 1 < u64_lim"
    and run: "take_fills (market_stops s worst) qty (depth (opposite s) b) = (fs, os', n')"
  obtains b' where "execute_market_order_with_id oc oid uid s qty worst b =
      Some (b', Inr (map (MR_Trade \<circ> fill_trade \<lparr>tk_order_id = oid, tk_user_id = uid, tk_side = s\<rparr>) fs))"
    and "placed b oid s os' (depth s b) b'"
proof -
  define b0 where "b0 = b\<lparr>ob_next_order_id := max (ob_next_order_id b) (oid + 1)\<rparr>"
  obtain b1 where match: "match_while oc \<lparr>tk_order_id = oid, tk_user_id = uid, tk_side = s\<rparr> (market_stops s worst)
        (b0, qty, []) = Some (b1, n', map (MR_Trade \<circ> fill_trade \<lparr>tk_order_id = oid, tk_user_id = uid, tk_side = s\<rparr>) fs)"
    and b1: "placed b oid s os' (depth s b) b1"
    using match_while_fresh [OF inv oid(1) refl b0_def run] by blast
  have "execute_market_order_with_id oc oid uid s qty worst b =
      Some (b1, Inr (map (MR_Trade \<circ> fill_trade \<lparr>tk_order_id = oid, tk_user_id = uid, tk_side = s\<rparr>) fs))"
    unfolding execute_market_order_with_id_def u64_add_ok [OF oid(2)] using match pos by (simp add: b0_def)
  then show thesis using b1 that by blast
qed

lemma execute_market_order_rejects:
  assumes "oid + 1 < u64_lim"
  shows "execute_market_order_with_id oc oid uid s 0 worst b =
    Some (b\<lparr>ob_next_order_id := max (ob_next_order_id b) (oid + 1)\<rparr>, Inl InvalidQuantity)"
  unfolding execute_market_order_with_id_def u64_add_ok [OF assms] by simp

section \<open>The spread\<close>

text \<open>Orders \<open>xs\<close> of a side and orders \<open>ys\<close> of the other side that do not cross.\<close>

definition apart :: "side \<Rightarrow> order list \<Rightarrow> order list \<Rightarrow> bool" where
  "apart s xs ys \<longleftrightarrow> (\<forall>x \<in> set xs. \<forall>y \<in> set ys. limit_stops s (ord_price x) (ord_price y))"

lemma uncrossed_iff: "uncrossed b \<longleftrightarrow> apart s (depth s b) (depth (opposite s) b)"
  by (cases s) (auto simp: uncrossed_def apart_def limit_stops_simps)

lemma take_fills_all_stop:
  assumes "take_fills (limit_stops s price) n os = (fs, os', n')" and "0 < n'" and "y \<in> set os'"
    and "sorted_wrt (\<lambda>x y. at_least_as_good (opposite s) (ord_price x) (ord_price y)) os'"
  shows "limit_stops s price (ord_price y)"
proof -
  from assms(3) obtain z zs where os': "os' = z # zs" by (cases os') auto
  then have stop: "limit_stops s price (ord_price z)"
    using take_fills_stop [OF assms(1,2)] by simp
  have "y = z \<or> at_least_as_good (opposite s) (ord_price z) (ord_price y)"
    using assms(3,4) os' by auto
  then show ?thesis using stop limit_stops_mono by blast
qed

lemma market_apart:
  assumes "apart s own opp" and "take_fills stops n opp = (fs, os', n')"
  shows "apart s own os'"
  using assms(1) take_fills_rest [OF assms(2)] unfolding apart_def by force

lemma limit_apart:
  assumes old: "apart s own opp" and fills: "limit_fills tif s price qty opp = (fs, os', n')"
    and rests: "rests \<longrightarrow> 0 < n' \<and> tif = Gtc"
    and sorted: "sorted_wrt (\<lambda>x y. at_least_as_good (opposite s) (ord_price x) (ord_price y)) os'"
  shows "apart s (if rests then enqueue s (new_order oid uid s price n') own else own) os'"
proof -
  have kept: "apart s own os'"
    using limit_fills_cases [OF fills] market_apart [OF old] old by metis
  have "limit_stops s price (ord_price y)" if "rests" and "y \<in> set os'" for y
  proof -
    from that(1) rests fills have "0 < n'" "take_fills (limit_stops s price) qty opp = (fs, os', n')"
      by (auto simp: limit_fills_def)
    then show ?thesis using take_fills_all_stop that(2) sorted by blast
  qed
  with kept show ?thesis by (auto simp: apart_def set_enqueue new_order_def)
qed

lemma limit_keeps_uncrossed:
  assumes "uncrossed b" and "limit_fills tif s price qty (depth (opposite s) b) = (fs, os', n')"
    and "rests \<longrightarrow> 0 < n' \<and> tif = Gtc"
    and new: "placed b oid s os' (if rests then enqueue s (new_order oid uid s price n') (depth s b) else depth s b) b'"
  shows "uncrossed b'"
  using limit_apart [OF assms(1) [unfolded uncrossed_iff [of b s]] assms(2,3)] new depth_sorted [of b' "opposite s"]
  unfolding uncrossed_iff [of b' s] by (simp add: placed_def)

lemma market_keeps_uncrossed:
  assumes "uncrossed b" and "take_fills stops n (depth (opposite s) b) = (fs, os', n')"
    and "placed b oid s os' (depth s b) b'"
  shows "uncrossed b'"
  using market_apart [OF assms(1) [unfolded uncrossed_iff [of b s]] assms(2)] assms(3)
  unfolding uncrossed_iff [of b' s] by (simp add: placed_def)

lemma filter_keeps_uncrossed:
  assumes "uncrossed b" and "\<And>s. set (depth s b') \<subseteq> set (depth s b)"
  shows "uncrossed b'"
  using assms unfolding uncrossed_def by blast

end
