(* ===== verification/Orderbook_Snapshot.thy ===== *)
theory Orderbook_Snapshot
  imports Orderbook_Place
begin

text \<open>
  The depth snapshot (\<^verbatim>\<open>get_state\<close>): one row per price of the depth, best price first, with the total
  quantity of the orders at that price.
\<close>

definition depth_rows :: "order list \<Rightarrow> level_snapshot list" where
  "depth_rows os = map (\<lambda>p. \<lparr>ls_price = p,
     ls_qty = sum_of ord_remaining_qty (filter (\<lambda>x. ord_price x = p) os)\<rparr>) (remdups (map ord_price os))"

lemma remdups_block: "set xs = {p} \<Longrightarrow> p \<notin> set ys \<Longrightarrow> remdups (xs @ ys) = p # remdups ys"
proof (induction xs)
  case (Cons x xs)
  then show ?case by (cases "xs = []") (auto simp: insert_eq_iff subset_singleton_iff)
qed simp

lemma depth_rows_level:
  assumes ok: "level_ok f s (p, l)" and other: "\<And>x. x \<in> set os \<Longrightarrow> ord_price x \<noteq> p"
  shows "depth_rows (List.map_filter f l @ os) =
    \<lparr>ls_price = p, ls_qty = sum_of ord_remaining_qty (List.map_filter f l)\<rparr> # depth_rows os"
proof -
  let ?D = "List.map_filter f l"
  have D: "\<And>x. x \<in> set ?D \<Longrightarrow> ord_price x = p"
    by (rule level_ok_members(1) [OF ok])
  then have "set (map ord_price ?D) = {p}"
    using level_ok_head [OF ok] by (auto simp: image_iff) (metis list.set_intros(1))
  then have keys: "remdups (map ord_price (?D @ os)) = p # remdups (map ord_price os)"
    using remdups_block [of "map ord_price ?D" p "map ord_price os"] other by auto
  have "filter (\<lambda>x. ord_price x = p) ?D = ?D" "filter (\<lambda>x. ord_price x = p) os = []"
    using D other by (simp_all add: filter_empty_conv)
  moreover have "filter (\<lambda>x. ord_price x = q) (?D @ os) = filter (\<lambda>x. ord_price x = q) os"
    if "q \<in> set (remdups (map ord_price os))" for q
    using that D other by (auto simp: filter_empty_conv)
  ultimately show ?thesis
    unfolding depth_rows_def keys by (simp cong: map_cong)
qed

lemma depth_rows_levels:
  assumes "\<And>pl. pl \<in> set ls \<Longrightarrow> level_ok f s pl" and "distinct (map fst ls)"
  shows "depth_rows (level_orders f ls) =
    map (\<lambda>(p, l). \<lparr>ls_price = p, ls_qty = sum_of ord_remaining_qty (List.map_filter f l)\<rparr>) ls"
  using assms
proof (induction ls)
  case (Cons pl ls)
  obtain p l where pl: "pl = (p, l)" by (cases pl)
  have "ord_price x \<noteq> p" if "x \<in> set (level_orders f ls)" for x
  proof -
    have "\<exists>pl' \<in> set ls. ord_price x = fst pl'"
      by (rule level_orders_price [where s = s, OF _ that]) (simp add: Cons.prems(1))
    then show ?thesis using Cons.prems(2) pl by (auto simp: image_iff)
  qed
  then show ?case
    using Cons depth_rows_level [of f s p l "level_orders f ls"] pl by simp
qed (simp add: depth_rows_def)

lemma level_sum_le:
  "(p, l) \<in> set ls \<Longrightarrow> sum_of g (List.map_filter f l) \<le> sum_of g (level_orders f ls)"
proof (induction ls)
  case (Cons pl ls)
  then show ?case by (cases pl) (auto simp: level_orders_def le_trans)
qed simp

lemma level_snapshots:
  assumes inv: "book_inv b" and fits: "sum_of ord_remaining_qty (depth s b) < u64_lim"
  shows "map_m (level_snapshot_of oc b) (best_levels s b) = Some (depth_rows (depth s b))"
proof -
  have "level_snapshot_of oc b pl =
      Some (case pl of (p, l) \<Rightarrow> \<lparr>ls_price = p, ls_qty = sum_of ord_remaining_qty (List.map_filter (hm_get (orders b)) l)\<rparr>)"
    if "pl \<in> set (best_levels s b)" for pl
  proof -
    obtain p l where pl: "pl = (p, l)" by (cases pl)
    then have "sum_of ord_remaining_qty (List.map_filter (hm_get (orders b)) l) < u64_lim"
      using level_sum_le [of p l "best_levels s b" ord_remaining_qty "hm_get (orders b)"] that fits
      by (simp add: depth_def)
    then show ?thesis by (simp add: level_snapshot_of_def pl u64_simps)
  qed
  moreover have "distinct (map fst (best_levels s b))"
    using bt_wf_distinct [of "side_levels s b"] book_inv_side [OF inv, of s]
    by (cases s) (simp_all add: side_inv_def best_levels_def side_levels_def rev_map [symmetric])
  ultimately show ?thesis
    using depth_rows_levels [of "best_levels s b" "hm_get (orders b)" s] best_levels_ok [OF inv, of s]
    by (subst map_m_ok) (auto simp: depth_def)
qed

lemma get_state_eq:
  assumes "book_inv b" and "\<And>s. sum_of ord_remaining_qty (depth s b) < u64_lim"
  shows "get_state oc b =
    Some \<lparr>os_symbol = symbol b, os_bids = depth_rows (depth Bid b), os_asks = depth_rows (depth Ask b)\<rparr>"
  using level_snapshots [OF assms(1), of Bid oc] level_snapshots [OF assms(1), of Ask oc] assms(2)
  by (simp add: get_state_def best_levels_def)

end
