(* ===== verification/Book_Api.thy ===== *)
theory Book_Api
  imports Orderbook_Place Orderbook_Snapshot
begin

text \<open>
  What the engine may rely on when it uses an order book, as an interface: a book shows the two sides
  as lists of orders in price-time order, and placing, sweeping and withdrawing act on these lists as
  \<open>limit_fills\<close>, \<open>take_fills\<close> and removal do. From these laws alone follow the facts a trader
  cares about: the spread never closes, a limit order never trades beyond its price, the quantity of
  an order is accounted for exactly. The book of \<^verbatim>\<open>rs-engine/src/orderbook/book.rs\<close> is an instance,
  and its reachable states inherit the facts.
\<close>

section \<open>Fills of a limit order\<close>

text \<open>The trades among the results of an order.\<close>

fun trades_of :: "match_result list \<Rightarrow> trade list" where
  "trades_of [] = []"
| "trades_of (MR_Trade t # rs) = t # trades_of rs"
| "trades_of (MR_OrderAccepted a # rs) = trades_of rs"

lemma trades_of_fills [simp]: "trades_of (map (MR_Trade \<circ> f) xs @ rs) = map f xs @ trades_of rs"
  by (induction xs) auto

lemma trades_of_all [simp]: "trades_of (map (MR_Trade \<circ> f) xs) = map f xs"
  using trades_of_fills [of f xs "[]"] by simp

lemma fill_trade_terms:
  "tr_price (fill_trade t f) = ord_price (fst f)" "tr_qty (fill_trade t f) = snd f"
  "tr_maker_order_id (fill_trade t f) = ord_order_id (fst f)"
  by (simp_all add: fill_trade_def make_trade_def split: side.split)

lemma fill_trade_sums:
  "sum_of (tr_qty \<circ> fill_trade t) fs = sum_of snd fs"
  "sum_of ((\<lambda>x. tr_price x * tr_qty x) \<circ> fill_trade t) fs = fills_cost fs"
  by (simp_all add: comp_def fill_trade_terms)

lemma take_fills_volume:
  assumes "take_fills stops n os = (fs, os', n')"
  shows "sum_of ord_remaining_qty os' + sum_of snd fs = sum_of ord_remaining_qty os"
  by (rule take_fills_split_rel [OF assms, where R = "(=)"]) auto

lemma limit_fills_account:
  assumes fills: "limit_fills tif s price qty os = (fs, os', n')" and pos: "\<forall>x \<in> set os. 0 < ord_remaining_qty x"
  shows "sum_of snd fs + n' = qty"
    and "sum_of ord_remaining_qty os' + sum_of snd fs = sum_of ord_remaining_qty os"
    and "f \<in> set fs \<Longrightarrow> 0 < snd f \<and> \<not> limit_stops s price (ord_price (fst f))"
proof -
  show "sum_of snd fs + n' = qty" "sum_of ord_remaining_qty os' + sum_of snd fs = sum_of ord_remaining_qty os"
    by (rule limit_fills_cases [OF fills]; simp add: take_fills_qty take_fills_volume)+
  show "0 < snd f \<and> \<not> limit_stops s price (ord_price (fst f))" if "f \<in> set fs"
    using limit_fills_cases [OF fills] take_fills_members [OF _ that pos] that by (metis empty_iff list.set(1))
qed

section \<open>The interface\<close>

locale price_time_book =
  fixes book_ok :: "'b \<Rightarrow> bool" and ords :: "side \<Rightarrow> 'b \<Rightarrow> order list" and next_id :: "'b \<Rightarrow> nat"
    and place :: "nat \<Rightarrow> nat \<Rightarrow> side \<Rightarrow> nat \<Rightarrow> nat \<Rightarrow> time_in_force \<Rightarrow> 'b \<Rightarrow> ('b \<times> (orderbook_error + match_result list)) option"
    and sweep :: "nat \<Rightarrow> nat \<Rightarrow> side \<Rightarrow> nat \<Rightarrow> nat option \<Rightarrow> 'b \<Rightarrow> ('b \<times> (orderbook_error + match_result list)) option"
    and withdraw :: "nat \<Rightarrow> nat \<Rightarrow> 'b \<Rightarrow> ('b \<times> (orderbook_error + order_cancelled)) option"
  assumes ranked: "book_ok b \<Longrightarrow> sorted_wrt (\<lambda>x y. at_least_as_good s (ord_price x) (ord_price y)) (ords s b)"
    and live: "book_ok b \<Longrightarrow> x \<in> set (ords s b) \<Longrightarrow> ord_side x = s \<and> 0 < ord_remaining_qty x \<and> ord_order_id x < next_id b"
    and place_law: "book_ok b \<Longrightarrow> 0 < price \<Longrightarrow> 0 < qty \<Longrightarrow> next_id b \<le> oid \<Longrightarrow> oid + 1 < u64_lim \<Longrightarrow>
      sum_of ord_remaining_qty (ords (opposite s) b) < u64_lim \<Longrightarrow>
      limit_fills tif s price qty (ords (opposite s) b) = (fs, os', n') \<Longrightarrow>
      rests = (0 < n' \<and> tif = Gtc) \<Longrightarrow>
      \<exists>b'. place oid uid s price qty tif b = Some (b', Inr
          (map (MR_Trade \<circ> fill_trade \<lparr>tk_order_id = oid, tk_user_id = uid, tk_side = s\<rparr>) fs @
           (if rests then [MR_OrderAccepted (accepted_of (new_order oid uid s price n'))] else []))) \<and>
        book_ok b' \<and> ords (opposite s) b' = os' \<and>
        ords s b' = (if rests then enqueue s (new_order oid uid s price n') (ords s b) else ords s b)"
    and place_invalid: "oid + 1 < u64_lim \<Longrightarrow> book_ok b \<Longrightarrow> price = 0 \<or> qty = 0 \<Longrightarrow>
      \<exists>b'. place oid uid s price qty tif b = Some (b', Inl (if price = 0 then InvalidPrice else InvalidQuantity)) \<and>
        book_ok b' \<and> (\<forall>t. ords t b' = ords t b)"
    and sweep_law: "book_ok b \<Longrightarrow> 0 < qty \<Longrightarrow> next_id b \<le> oid \<Longrightarrow> oid + 1 < u64_lim \<Longrightarrow>
      take_fills (market_stops s worst) qty (ords (opposite s) b) = (fs, os', n') \<Longrightarrow>
      \<exists>b'. sweep oid uid s qty worst b = Some (b', Inr
          (map (MR_Trade \<circ> fill_trade \<lparr>tk_order_id = oid, tk_user_id = uid, tk_side = s\<rparr>) fs)) \<and>
        book_ok b' \<and> ords (opposite s) b' = os' \<and> ords s b' = ords s b"
    and sweep_invalid: "oid + 1 < u64_lim \<Longrightarrow> book_ok b \<Longrightarrow>
      \<exists>b'. sweep oid uid s 0 worst b = Some (b', Inl InvalidQuantity) \<and> book_ok b' \<and> (\<forall>t. ords t b' = ords t b)"
    and withdraw_law: "book_ok b \<Longrightarrow> \<exists>b' r. withdraw oid uid b = Some (b', r) \<and> book_ok b' \<and>
      (\<forall>t. ords t b' = (case r of Inl _ \<Rightarrow> ords t b | Inr _ \<Rightarrow> filter (\<lambda>x. ord_order_id x \<noteq> oid) (ords t b)))"
begin

definition spread :: "'b \<Rightarrow> bool" where
  "spread b \<longleftrightarrow> (\<forall>x \<in> set (ords Bid b). \<forall>y \<in> set (ords Ask b). ord_price x < ord_price y)"

lemma spread_apart: "spread b \<longleftrightarrow> apart s (ords s b) (ords (opposite s) b)"
  by (cases s) (auto simp: spread_def apart_def limit_stops_simps)

lemma spread_mono: "spread b \<Longrightarrow> (\<And>s. set (ords s b') \<subseteq> set (ords s b)) \<Longrightarrow> spread b'"
  unfolding spread_def by blast

lemma place_safe:
  assumes ok: "book_ok b" and id: "next_id b \<le> oid" "oid + 1 < u64_lim"
    and room: "sum_of ord_remaining_qty (ords (opposite s) b) < u64_lim" and spread: "spread b"
    and run: "place oid uid s price qty tif b = Some (b', r)"
  shows "book_ok b' \<and> spread b'"
proof (cases "price = 0 \<or> qty = 0")
  case True
  then show ?thesis
    using place_invalid [OF id(2) ok, of price qty uid s tif] run spread_mono [OF spread, of b'] by auto
next
  case False
  obtain fs os' n' where fills: "limit_fills tif s price qty (ords (opposite s) b) = (fs, os', n')"
    by (cases "limit_fills tif s price qty (ords (opposite s) b)")
  from False have "0 < price" "0 < qty" by auto
  from place_law [OF ok this id room fills refl, of uid] run
  have new: "book_ok b'" "ords (opposite s) b' = os'"
    "ords s b' = (if 0 < n' \<and> tif = Gtc then enqueue s (new_order oid uid s price n') (ords s b) else ords s b)"
    by (auto split: if_splits)
  have "apart s (ords s b') (ords (opposite s) b')"
    unfolding new(2,3)
    by (rule limit_apart [OF spread [unfolded spread_apart [of b s]] fills])
      (use ranked [OF new(1), of "opposite s"] new(2) in auto)
  then show ?thesis using new(1) spread_apart [of b' s] by blast
qed

lemma sweep_safe:
  assumes ok: "book_ok b" and id: "next_id b \<le> oid" "oid + 1 < u64_lim" and spread: "spread b"
    and run: "sweep oid uid s qty worst b = Some (b', r)"
  shows "book_ok b' \<and> spread b'"
proof (cases "qty = 0")
  case True
  then show ?thesis
    using sweep_invalid [OF id(2) ok, of uid s worst] run spread_mono [OF spread, of b'] by auto
next
  case False
  obtain fs os' n' where fills: "take_fills (market_stops s worst) qty (ords (opposite s) b) = (fs, os', n')"
    by (cases "take_fills (market_stops s worst) qty (ords (opposite s) b)")
  from sweep_law [OF ok _ id fills, of uid] run False
  have "book_ok b'" "ords (opposite s) b' = os'" "ords s b' = ords s b" by auto
  then show ?thesis
    using market_apart [OF spread [unfolded spread_apart [of b s]] fills] spread_apart [of b' s] by simp
qed

lemma withdraw_safe:
  assumes "book_ok b" and "spread b" and "withdraw oid uid b = Some (b', r)"
  shows "book_ok b' \<and> spread b'"
  using withdraw_law [OF assms(1), of oid uid] assms(3) spread_mono [OF assms(2), of b']
  by (auto split: sum.splits)

text \<open>
  The account of a limit order: what is traded comes off the opposite side, what is left rests or is
  discarded, and no trade is worse than the limit.
\<close>

lemma place_account:
  assumes ok: "book_ok b" and pos: "0 < price" "0 < qty" and id: "next_id b \<le> oid" "oid + 1 < u64_lim"
    and room: "sum_of ord_remaining_qty (ords (opposite s) b) < u64_lim"
    and run: "place oid uid s price qty tif b = Some (b', Inr rs)"
    and ts: "ts = trades_of rs"
  shows "sum_of ord_remaining_qty (ords (opposite s) b) = sum_of ord_remaining_qty (ords (opposite s) b') + sum_of tr_qty ts"
    and "sum_of ord_remaining_qty (ords s b') =
      sum_of ord_remaining_qty (ords s b) + (if tif = Gtc then qty - sum_of tr_qty ts else 0)"
    and "sum_of tr_qty ts \<le> qty"
    and "t \<in> set ts \<Longrightarrow> 0 < tr_qty t \<and> \<not> limit_stops s price (tr_price t)"
    and "tif = Fok \<Longrightarrow> sum_of tr_qty ts = qty \<or> rs = []"
proof -
  obtain fs os' n' where fills: "limit_fills tif s price qty (ords (opposite s) b) = (fs, os', n')"
    by (cases "limit_fills tif s price qty (ords (opposite s) b)")
  let ?t = "\<lparr>tk_order_id = oid, tk_user_id = uid, tk_side = s\<rparr>"
  from place_law [OF ok pos id room fills refl, of uid] run
  have new: "ords (opposite s) b' = os'"
    "ords s b' = (if 0 < n' \<and> tif = Gtc then enqueue s (new_order oid uid s price n') (ords s b) else ords s b)"
    "rs = map (MR_Trade \<circ> fill_trade ?t) fs @
      (if 0 < n' \<and> tif = Gtc then [MR_OrderAccepted (accepted_of (new_order oid uid s price n'))] else [])"
    by auto
  have trades: "ts = map (fill_trade ?t) fs"
    by (simp add: ts new(3))
  have qty: "sum_of tr_qty ts = sum_of snd fs" by (simp add: trades fill_trade_sums)
  have "\<forall>x \<in> set (ords (opposite s) b). 0 < ord_remaining_qty x" using live [OF ok] by blast
  note account = limit_fills_account [OF fills this]
  show "sum_of ord_remaining_qty (ords (opposite s) b) = sum_of ord_remaining_qty (ords (opposite s) b') + sum_of tr_qty ts"
    and "sum_of ord_remaining_qty (ords s b') =
      sum_of ord_remaining_qty (ords s b) + (if tif = Gtc then qty - sum_of tr_qty ts else 0)"
    and "sum_of tr_qty ts \<le> qty"
    using account(1,2) by (auto simp: new(1,2) qty sum_of_enqueue new_order_def)
  show "t \<in> set ts \<Longrightarrow> 0 < tr_qty t \<and> \<not> limit_stops s price (tr_price t)"
    using account(3) by (auto simp: trades fill_trade_terms)
  show "tif = Fok \<Longrightarrow> sum_of tr_qty ts = qty \<or> rs = []"
    using limit_fills_fok [of s price qty _ fs os' n'] fills account(1) by (cases "n' = 0") (auto simp: qty new(3))
qed

end

section \<open>The order book of the engine\<close>

lemma add_order_law:
  assumes "book_inv b" and "0 < price" and "0 < qty" and "ob_next_order_id b \<le> oid" and "oid + 1 < u64_lim"
    and "sum_of ord_remaining_qty (depth (opposite s) b) < u64_lim"
    and "limit_fills tif s price qty (depth (opposite s) b) = (fs, os', n')" and "rests = (0 < n' \<and> tif = Gtc)"
  shows "\<exists>b'. add_order_with_id oc oid uid s price qty tif b = Some (b', Inr
      (map (MR_Trade \<circ> fill_trade \<lparr>tk_order_id = oid, tk_user_id = uid, tk_side = s\<rparr>) fs @
       (if rests then [MR_OrderAccepted (accepted_of (new_order oid uid s price n'))] else []))) \<and>
    book_inv b' \<and> depth (opposite s) b' = os' \<and>
    depth s b' = (if rests then enqueue s (new_order oid uid s price n') (depth s b) else depth s b)"
  by (rule add_order_with_id_refines [OF assms, of oc uid]) (auto simp: placed_def)

lemma market_order_law:
  assumes "book_inv b" and "0 < qty" and "ob_next_order_id b \<le> oid" and "oid + 1 < u64_lim"
    and "take_fills (market_stops s worst) qty (depth (opposite s) b) = (fs, os', n')"
  shows "\<exists>b'. execute_market_order_with_id oc oid uid s qty worst b = Some (b', Inr
      (map (MR_Trade \<circ> fill_trade \<lparr>tk_order_id = oid, tk_user_id = uid, tk_side = s\<rparr>) fs)) \<and>
    book_inv b' \<and> depth (opposite s) b' = os' \<and> depth s b' = depth s b"
  by (rule execute_market_order_refines [OF assms, of oc uid]) (auto simp: placed_def)

lemma cancel_order_law:
  assumes inv: "book_inv b"
  shows "\<exists>b' r. cancel_order oid uid b = Some (b', r) \<and> book_inv b' \<and>
    (\<forall>t. depth t b' = (case r of Inl _ \<Rightarrow> depth t b | Inr _ \<Rightarrow> filter (\<lambda>x. ord_order_id x \<noteq> oid) (depth t b)))"
proof (cases "get_order b oid")
  case None
  then show ?thesis using cancel_order_unknown inv by simp
next
  case (Some x)
  then show ?thesis
    using cancel_order_refines [OF inv Some] cancel_order_foreign [OF Some, of uid] inv
    by (cases "ord_user_id x = uid") fastforce+
qed

lemma invalid_orders:
  assumes "oid + 1 < u64_lim" and "book_inv b"
  shows "price = 0 \<or> qty = 0 \<Longrightarrow> \<exists>b'. add_order_with_id oc oid uid s price qty tif b =
      Some (b', Inl (if price = 0 then InvalidPrice else InvalidQuantity)) \<and> book_inv b' \<and> (\<forall>t. depth t b' = depth t b)"
    and "\<exists>b'. execute_market_order_with_id oc oid uid s 0 worst b = Some (b', Inl InvalidQuantity) \<and>
      book_inv b' \<and> (\<forall>t. depth t b' = depth t b)"
  using add_order_with_id_rejects [OF assms(1), of price qty] execute_market_order_rejects [OF assms(1)]
    bump_next [OF assms(2)] by simp_all

interpretation pt: price_time_book book_inv depth ob_next_order_id "add_order_with_id oc"
    "execute_market_order_with_id oc" cancel_order for oc
  by unfold_locales (fact depth_sorted add_order_law market_order_law cancel_order_law invalid_orders
      | simp add: depth_pos)+

lemma pt_spread [simp]: "pt.spread b = uncrossed b"
  by (simp add: pt.spread_def uncrossed_def)

section \<open>Reachable books\<close>

text \<open>
  The books that the public operations can produce, with the ids the book hands out itself
  (\<^verbatim>\<open>add_order\<close>, \<^verbatim>\<open>execute_market_order\<close>), as long as ids and resting quantity fit into 64 bits.
\<close>

definition book_room :: "orderbook \<Rightarrow> bool" where
  "book_room b \<longleftrightarrow> ob_next_order_id b + 1 < u64_lim \<and>
     sum_of ord_remaining_qty (depth Bid b) < u64_lim \<and> sum_of ord_remaining_qty (depth Ask b) < u64_lim"

lemma book_room_side: "book_room b \<Longrightarrow> sum_of ord_remaining_qty (depth s b) < u64_lim"
  by (cases s) (auto simp: book_room_def)

inductive book_reachable :: "bool \<Rightarrow> orderbook \<Rightarrow> bool" for oc where
  new: "book_reachable oc (orderbook_new sy)"
| reset: "book_reachable oc b \<Longrightarrow> book_reachable oc (orderbook_reset b)"
| limit: "book_reachable oc b \<Longrightarrow> book_room b \<Longrightarrow> add_order oc uid s price qty tif b = Some (b', r) \<Longrightarrow>
    book_reachable oc b'"
| market: "book_reachable oc b \<Longrightarrow> book_room b \<Longrightarrow> execute_market_order oc uid s qty worst b = Some (b', r) \<Longrightarrow>
    book_reachable oc b'"
| cancel: "book_reachable oc b \<Longrightarrow> cancel_order oid uid b = Some (b', r) \<Longrightarrow> book_reachable oc b'"

lemma no_levels: "bids b = [] \<Longrightarrow> asks b = [] \<Longrightarrow> orders b = [] \<Longrightarrow> book_inv b \<and> uncrossed b"
  by (simp add: book_inv_def side_inv_def bt_wf_def side_levels_def best_levels_def queued_def uncrossed_def
      depth_def level_orders_def)

lemma book_reachable_inv: "book_reachable oc b \<Longrightarrow> book_inv b \<and> uncrossed b"
proof (induction rule: book_reachable.induct)
  case (limit b uid s price qty tif b' r)
  then have "add_order_with_id oc (ob_next_order_id b) uid s price qty tif b = Some (b', r)"
    using add_order_eq by (simp add: book_room_def)
  then show ?case
    using pt.place_safe [of b "ob_next_order_id b" s oc uid price qty tif b' r] limit book_room_side [of b "opposite s"]
    unfolding book_room_def pt_spread by blast
next
  case (market b uid s qty worst b' r)
  then have "execute_market_order_with_id oc (ob_next_order_id b) uid s qty worst b = Some (b', r)"
    using execute_market_order_eq by (simp add: book_room_def)
  then show ?case
    using pt.sweep_safe [of b "ob_next_order_id b" oc uid s qty worst b' r] market by (simp add: book_room_def)
next
  case (cancel b oid uid b' r)
  then show ?case using pt.withdraw_safe [of b oid uid b' r] by simp
qed (simp_all add: no_levels orderbook_new_def orderbook_reset_def)

lemma best_prices:
  assumes "book_inv b"
  shows "resting_best (opposite s) b = (case depth s b of [] \<Rightarrow> None | x # _ \<Rightarrow> Some (ord_price x))"
proof (cases "best_levels s b")
  case Nil
  then show ?thesis using best_empty [OF Nil] by (simp add: depth_def level_orders_def)
next
  case (Cons pl ls)
  obtain p l where pl: "pl = (p, l)" by (cases pl)
  from head_order [OF assms Cons [unfolded pl]] obtain ord ds where "depth s b = ord # ds" "ord_price ord = p"
    by metis
  then show ?thesis
    using best_head(2) [OF Cons [unfolded pl]] book_inv_side [OF assms, of s] by (simp add: side_inv_def)
qed

end
