(* ===== verification/Engine_State.thy ===== *)
theory Engine_State
  imports Orderbook_Place
begin

text \<open>
  The engine's state (\<^verbatim>\<open>rs-engine/src/state.rs\<close>): USD and asset balances, the three order books, the
  global order id and the fee schedule, with the accessors the handlers use.

  A mutable borrow \<^verbatim>\<open>usd_mut(u)\<close> creates the entry of a user that has none. A use that only reads
  through it is \<open>usd_touch\<close>; a use that assigns through it is \<open>usd_modify\<close> with the assignment as a
  function on the balance. The second half gives the laws of these accessors: what each leaves
  alone, and what it does to the totals.
\<close>

section \<open>State\<close>

record engine_state =
  usd_balance :: "(nat, balance) hash_map"
  stock_balance :: "(nat, (string, balance) hash_map) hash_map"
  sol_orderbook :: orderbook
  btc_orderbook :: orderbook
  eth_orderbook :: orderbook
  next_order_id :: nat
  es_fee_schedule :: fee_schedule

definition engine_state_new :: "string option \<Rightarrow> string option \<Rightarrow> engine_state" where
  "engine_state_new maker_env taker_env =
     \<lparr>usd_balance = [], stock_balance = [],
      sol_orderbook = orderbook_new ''SOL-USDT'', btc_orderbook = orderbook_new ''BTC-USDT'',
      eth_orderbook = orderbook_new ''ETH-USDT'', next_order_id = 1,
      es_fee_schedule = fee_schedule_from_env maker_env taker_env\<rparr>"

definition with_fee_schedule :: "fee_schedule \<Rightarrow> engine_state \<Rightarrow> engine_state" where
  "with_fee_schedule fs st = st\<lparr>es_fee_schedule := fs\<rparr>"

definition engine_reset :: "engine_state \<Rightarrow> engine_state" where
  "engine_reset st = st\<lparr>usd_balance := [], stock_balance := [],
     sol_orderbook := orderbook_reset (sol_orderbook st),
     btc_orderbook := orderbook_reset (btc_orderbook st),
     eth_orderbook := orderbook_reset (eth_orderbook st), next_order_id := 1\<rparr>"

definition take_order_id :: "bool \<Rightarrow> engine_state \<Rightarrow> (nat \<times> engine_state) option" where
  "take_order_id oc st =
     do { n \<leftarrow> u64_add oc (next_order_id st) 1;
          Some (next_order_id st, st\<lparr>next_order_id := n\<rparr>) }"

section \<open>Order books\<close>

definition get_orderbook :: "engine_state \<Rightarrow> string \<Rightarrow> orderbook option" where
  "get_orderbook st asset =
     (let a = to_lowercase asset in
      if a = ''sol'' then Some (sol_orderbook st)
      else if a = ''btc'' then Some (btc_orderbook st)
      else if a = ''eth'' then Some (eth_orderbook st)
      else None)"

text \<open>Writing back through \<^verbatim>\<open>get_orderbook_mut\<close>.\<close>

definition put_orderbook :: "string \<Rightarrow> orderbook \<Rightarrow> engine_state \<Rightarrow> engine_state" where
  "put_orderbook asset b st =
     (let a = to_lowercase asset in
      if a = ''sol'' then st\<lparr>sol_orderbook := b\<rparr>
      else if a = ''btc'' then st\<lparr>btc_orderbook := b\<rparr>
      else if a = ''eth'' then st\<lparr>eth_orderbook := b\<rparr>
      else st)"

section \<open>Balances\<close>

abbreviation usd_of :: "engine_state \<Rightarrow> nat \<Rightarrow> balance" where
  "usd_of st u \<equiv> hm_get_or balance_default (usd_balance st) u"

abbreviation assets_of :: "engine_state \<Rightarrow> nat \<Rightarrow> (string, balance) hash_map" where
  "assets_of st u \<equiv> hm_get_or [] (stock_balance st) u"

abbreviation asset_of :: "engine_state \<Rightarrow> nat \<Rightarrow> string \<Rightarrow> balance" where
  "asset_of st u a \<equiv> hm_get_or balance_default (assets_of st u) a"

definition usd_touch :: "nat \<Rightarrow> engine_state \<Rightarrow> engine_state" where
  "usd_touch u st = st\<lparr>usd_balance := hm_entry_or balance_default u (usd_balance st)\<rparr>"

definition usd_modify :: "nat \<Rightarrow> (balance \<Rightarrow> balance option) \<Rightarrow> engine_state \<Rightarrow> engine_state option" where
  "usd_modify u f st =
     do { b \<leftarrow> f (usd_of st u); Some (st\<lparr>usd_balance := hm_insert u b (usd_balance st)\<rparr>) }"

text \<open>The nested entry of a user and a symbol, before and after an assignment.\<close>

definition stock_touch :: "nat \<Rightarrow> string \<Rightarrow> engine_state \<Rightarrow> engine_state" where
  "stock_touch u sy st = st\<lparr>stock_balance :=
     hm_insert u (hm_entry_or balance_default sy (assets_of st u)) (stock_balance st)\<rparr>"

definition stock_modify ::
  "nat \<Rightarrow> string \<Rightarrow> (balance \<Rightarrow> balance option) \<Rightarrow> engine_state \<Rightarrow> engine_state option" where
  "stock_modify u sy f st =
     do { b \<leftarrow> f (asset_of st u sy);
          Some (st\<lparr>stock_balance := hm_insert u (hm_insert sy b (assets_of st u)) (stock_balance st)\<rparr>) }"

definition asset_touch :: "nat \<Rightarrow> string \<Rightarrow> engine_state \<Rightarrow> engine_state" where
  "asset_touch u asset = stock_touch u (to_lowercase asset)"

definition asset_modify ::
  "nat \<Rightarrow> string \<Rightarrow> (balance \<Rightarrow> balance option) \<Rightarrow> engine_state \<Rightarrow> engine_state option" where
  "asset_modify u asset = stock_modify u (to_lowercase asset)"

text \<open>The assignments the handlers make through a mutable balance.\<close>

definition available_add :: "bool \<Rightarrow> nat \<Rightarrow> balance \<Rightarrow> balance option" where
  "available_add oc x b = do { a \<leftarrow> u64_add oc (available b) x; Some (b\<lparr>available := a\<rparr>) }"

definition available_sub :: "bool \<Rightarrow> nat \<Rightarrow> balance \<Rightarrow> balance option" where
  "available_sub oc x b = do { a \<leftarrow> u64_sub oc (available b) x; Some (b\<lparr>available := a\<rparr>) }"

definition locked_add :: "bool \<Rightarrow> nat \<Rightarrow> balance \<Rightarrow> balance option" where
  "locked_add oc x b = do { l \<leftarrow> u64_add oc (locked b) x; Some (b\<lparr>locked := l\<rparr>) }"

definition locked_sub :: "bool \<Rightarrow> nat \<Rightarrow> balance \<Rightarrow> balance option" where
  "locked_sub oc x b = do { l \<leftarrow> u64_sub oc (locked b) x; Some (b\<lparr>locked := l\<rparr>) }"

definition lock_funds :: "bool \<Rightarrow> nat \<Rightarrow> balance \<Rightarrow> balance option" where
  "lock_funds oc x b = do { b1 \<leftarrow> available_sub oc x b; locked_add oc x b1 }"

definition unlock_funds :: "bool \<Rightarrow> nat \<Rightarrow> balance \<Rightarrow> balance option" where
  "unlock_funds oc x b = do { b1 \<leftarrow> locked_sub oc x b; available_add oc x b1 }"

section \<open>Supported assets\<close>

definition supported :: "string \<Rightarrow> bool" where
  "supported a \<longleftrightarrow> a = ''sol'' \<or> a = ''btc'' \<or> a = ''eth''"

lemma lower_assets [simp]:
  "to_lowercase ''sol'' = ''sol''" "to_lowercase ''btc'' = ''btc''" "to_lowercase ''eth'' = ''eth''"
  by (simp_all add: to_lowercase_def char_lower_def)

lemma supported_cases:
  assumes "supported a"
  obtains "a = ''sol''" | "a = ''btc''" | "a = ''eth''"
  using assms by (auto simp: supported_def)

lemma supported_lower: "supported a \<Longrightarrow> to_lowercase a = a"
  by (erule supported_cases) simp_all

definition book_of :: "engine_state \<Rightarrow> string \<Rightarrow> orderbook" where
  "book_of st a = (if a = ''sol'' then sol_orderbook st else if a = ''btc'' then btc_orderbook st
     else eth_orderbook st)"

lemma book_of_simps [simp]:
  "book_of st ''sol'' = sol_orderbook st" "book_of st ''btc'' = btc_orderbook st" "book_of st ''eth'' = eth_orderbook st"
  by (simp_all add: book_of_def)

lemma supported_ex: "(\<exists>a. supported a \<and> P a) \<longleftrightarrow> P ''sol'' \<or> P ''btc'' \<or> P ''eth''"
  unfolding supported_def by blast

lemma supported_all: "(\<forall>a. supported a \<longrightarrow> P a) \<longleftrightarrow> P ''sol'' \<and> P ''btc'' \<and> P ''eth''"
  unfolding supported_def by blast

abbreviation books :: "engine_state \<Rightarrow> orderbook list" where
  "books st \<equiv> [sol_orderbook st, btc_orderbook st, eth_orderbook st]"

lemma get_orderbook_supported: "supported a \<Longrightarrow> get_orderbook st a = Some (book_of st a)"
  by (erule supported_cases) (simp_all add: get_orderbook_def book_of_def)

lemma get_orderbook_unsupported: "\<not> supported (to_lowercase a) \<Longrightarrow> get_orderbook st a = None"
  by (simp add: get_orderbook_def supported_def Let_def)

lemma put_orderbook_simps [frame_simps]:
  "usd_balance (put_orderbook a b st) = usd_balance st"
  "stock_balance (put_orderbook a b st) = stock_balance st"
  "next_order_id (put_orderbook a b st) = next_order_id st"
  "es_fee_schedule (put_orderbook a b st) = es_fee_schedule st"
  by (simp_all add: put_orderbook_def Let_def)

lemma put_orderbook_books [simp]:
  "put_orderbook ''sol'' b st = st\<lparr>sol_orderbook := b\<rparr>"
  "put_orderbook ''btc'' b st = st\<lparr>btc_orderbook := b\<rparr>"
  "put_orderbook ''eth'' b st = st\<lparr>eth_orderbook := b\<rparr>"
  by (simp_all add: put_orderbook_def)

lemma book_of_put [frame_simps]:
  assumes "supported a" and "supported a'"
  shows "book_of (put_orderbook a b st) a' = (if a' = a then b else book_of st a')"
  using assms(2) by (cases rule: supported_cases [OF assms(1)]) (auto simp: book_of_def supported_def)

lemma books_supported: "set (books st) = book_of st ` {a. supported a}"
  by (force simp: book_of_def supported_def)

text \<open>A total over the three books changes by the contribution of the book that is replaced.\<close>

lemma books_put_sum:
  "supported a \<Longrightarrow> sum_of f (books (put_orderbook a b st)) + f (book_of st a) = sum_of f (books st) + f b"
  by (erule supported_cases) (simp_all add: book_of_def)

lemma books_supported_sum: "supported a \<Longrightarrow> f (book_of st a) \<le> sum_of f (books st)"
  by (erule supported_cases) (simp_all add: book_of_def)

end
