(* ===== verification/Handlers.thy ===== *)
theory Handlers
  imports Engine_State
begin

text \<open>
  The command handlers of the engine (\<^verbatim>\<open>rs-engine/src/handlers\<close>), each as a function from the state, the
  publisher and the message to the new state and the publisher. The publisher is the engine's Redis
  connection: the list of commands sent so far, or \<open>None\<close> when events are replayed. Redis and the
  JSON encoder are taken to accept what is sent to them.

  A handler that panics has the value \<open>None\<close>. In \<open>handle_order\<close> a reply followed by \<^verbatim>\<open>return\<close> skips
  the depth update at the end of the function: the Boolean of an \<open>outcome\<close> is \<open>True\<close> in that case.
\<close>

section \<open>Replies and events (mod.rs)\<close>

datatype out_msg = Lpush string reply_payload | Xadd string execution_event | Del "string list"

type_synonym publisher = "out_msg list option"

definition reply :: "publisher \<Rightarrow> string \<Rightarrow> reply_payload \<Rightarrow> publisher" where
  "reply pub queue_id payload = map_option (\<lambda>l. l @ [Lpush (REPLY_PREFIX @ queue_id) payload]) pub"

definition emit_execution :: "publisher \<Rightarrow> execution_event \<Rightarrow> publisher" where
  "emit_execution pub event = map_option (\<lambda>l. l @ [Xadd STREAM_EXECUTIONS event]) pub"

definition reply_error :: "publisher \<Rightarrow> string \<Rightarrow> string \<Rightarrow> string \<Rightarrow> nat \<Rightarrow> publisher" where
  "reply_error pub queue_id identifier err status_code =
     reply pub queue_id (OrderReply identifier None None (Some err) (Some status_code))"

definition reply_cancel_error :: "publisher \<Rightarrow> string \<Rightarrow> string \<Rightarrow> string \<Rightarrow> publisher" where
  "reply_cancel_error pub queue_id identifier err =
     reply pub queue_id (CancelReply identifier None None None (Some err))"

section \<open>Accounts (account.rs)\<close>

definition handle_signup :: "engine_state \<Rightarrow> publisher \<Rightarrow> signup_msg \<Rightarrow> (engine_state \<times> publisher) option" where
  "handle_signup st pub msg =
     do { let uid = sg_user_id msg;
          let st1 = st\<lparr>usd_balance := hm_entry_or balance_default uid (usd_balance st),
                       stock_balance := hm_entry_or [] uid (stock_balance st)\<rparr>;
          usd \<leftarrow> hm_get (usd_balance st1) uid;
          stock \<leftarrow> hm_get (stock_balance st1) uid;
          Some (st1, reply pub (sg_queue_id msg) (BalanceReply (sg_identifier msg) usd stock)) }"

definition handle_onramp ::
  "bool \<Rightarrow> engine_state \<Rightarrow> publisher \<Rightarrow> onramp_msg \<Rightarrow> (engine_state \<times> publisher) option" where
  "handle_onramp oc st pub msg =
     do { let uid = on_user_id msg;
          st1 \<leftarrow> usd_modify uid (available_add oc (on_qty msg)) st;
          let pub1 = emit_execution pub (FundingExecuted uid ''USD'' (on_qty msg) ''onramp'');
          Some (st1, reply pub1 (on_queue_id msg)
            (BalanceReply (on_identifier msg) (usd_of st1 uid) (assets_of st1 uid))) }"

definition handle_deposit ::
  "bool \<Rightarrow> engine_state \<Rightarrow> publisher \<Rightarrow> deposit_msg \<Rightarrow> (engine_state \<times> publisher) option" where
  "handle_deposit oc st pub msg =
     do { let uid = dp_user_id msg;
          st1 \<leftarrow> stock_modify uid (dp_symbol msg) (available_add oc (dp_qty msg)) st;
          let pub1 = emit_execution pub
            (FundingExecuted uid (to_uppercase (dp_symbol msg)) (dp_qty msg) ''deposit'');
          Some (st1, reply pub1 (dp_queue_id msg)
            (BalanceReply (dp_identifier msg) (usd_of st1 uid) (assets_of st1 uid))) }"

definition handle_balance :: "engine_state \<Rightarrow> publisher \<Rightarrow> balance_query_msg \<Rightarrow> publisher" where
  "handle_balance st pub msg =
     reply pub (bq_queue_id msg)
       (BalanceReply (bq_identifier msg) (usd_of st (bq_user_id msg)) (assets_of st (bq_user_id msg)))"

section \<open>Administration (admin.rs) and market data (market.rs)\<close>

definition handle_reset :: "engine_state \<Rightarrow> publisher \<Rightarrow> reset_msg \<Rightarrow> engine_state \<times> publisher" where
  "handle_reset st pub msg =
     (engine_reset st, reply pub (rs_queue_id msg) (GenericReply (rs_identifier msg) ''Reset successful''))"

definition handle_get_orderbook ::
  "bool \<Rightarrow> engine_state \<Rightarrow> publisher \<Rightarrow> orderbook_query_msg \<Rightarrow> publisher option" where
  "handle_get_orderbook oc st pub msg =
     (let answer = (\<lambda>d. reply pub (obq_queue_id msg) (OrderbookReply (obq_identifier msg) d));
          level = (\<lambda>l. \<lparr>ol_price = ls_price l, ol_qty = ls_qty l\<rparr>) in
      case get_orderbook st (obq_asset msg) of
        None \<Rightarrow> Some (answer \<lparr>od_bids = [], od_asks = []\<rparr>)
      | Some ob \<Rightarrow>
          do { snap \<leftarrow> get_state oc ob;
               Some (answer \<lparr>od_bids = map level (os_bids snap), od_asks = map level (os_asks snap)\<rparr>) })"

section \<open>Settlement of a fill (order.rs)\<close>

text \<open>The fees of buyer and seller: the taker of the trade pays the taker fee.\<close>

definition fill_fees :: "bool \<Rightarrow> fee_schedule \<Rightarrow> side \<Rightarrow> nat \<Rightarrow> (nat \<times> nat) option" where
  "fill_fees oc fs taker_side value =
     (case taker_side of
        Bid \<Rightarrow> do { b \<leftarrow> calc_taker_fee oc fs value; s \<leftarrow> calc_maker_fee oc fs value; Some (b, s) }
      | Ask \<Rightarrow> do { b \<leftarrow> calc_maker_fee oc fs value; s \<leftarrow> calc_taker_fee oc fs value; Some (b, s) })"

definition apply_fill ::
  "bool \<Rightarrow> string \<Rightarrow> trade \<Rightarrow> engine_state \<Rightarrow> (engine_state \<times> nat \<times> nat) option" where
  "apply_fill oc asset t st =
     do { val \<leftarrow> u64_mul oc (tr_price t) (tr_qty t);
          (buyer_fee, seller_fee) \<leftarrow> fill_fees oc (es_fee_schedule st) (tr_taker_side t) val;
          cost \<leftarrow> u64_add oc val buyer_fee;
          st1 \<leftarrow> usd_modify (tr_buyer t) (locked_sub oc cost) st;
          st2 \<leftarrow> asset_modify (tr_buyer t) asset (available_add oc (tr_qty t)) st1;
          st3 \<leftarrow> asset_modify (tr_seller t) asset (locked_sub oc (tr_qty t)) st2;
          st4 \<leftarrow> usd_modify (tr_seller t) (available_add oc (saturating_sub val seller_fee)) st3;
          total_fee \<leftarrow> u64_add oc buyer_fee seller_fee;
          st5 \<leftarrow> (if total_fee > 0 then usd_modify 0 (available_add oc total_fee) st4 else Some st4);
          Some (st5, buyer_fee, seller_fee) }"

text \<open>
  The body of the loop over match results, which occurs three times in \<^verbatim>\<open>handle_order\<close>: settle the
  trade, count the filled quantity, add up what the buyer paid (the two bid cases, \<open>track\<close>), and
  publish the execution with the maker's remaining quantity read from the book.
\<close>

type_synonym settle_acc = "engine_state \<times> nat \<times> nat \<times> publisher"

definition maker_remaining :: "engine_state \<Rightarrow> string \<Rightarrow> nat \<Rightarrow> nat" where
  "maker_remaining st asset maker_id =
     (case get_orderbook st asset \<bind> (\<lambda>ob. get_order ob maker_id) of
        None \<Rightarrow> 0 | Some ord \<Rightarrow> ord_remaining_qty ord)"

definition settle_trade ::
  "bool \<Rightarrow> bool \<Rightarrow> string \<Rightarrow> string \<Rightarrow> trade \<Rightarrow> settle_acc \<Rightarrow> settle_acc option" where
  "settle_trade oc track asset market t acc =
     (case acc of (st, filled_qty, spent, pub) \<Rightarrow>
       do { (st1, buyer_fee, seller_fee) \<leftarrow> apply_fill oc asset t st;
            filled' \<leftarrow> u64_add oc filled_qty (tr_qty t);
            spent' \<leftarrow> (if track
                       then do { v \<leftarrow> u64_mul oc (tr_price t) (tr_qty t);
                                 c \<leftarrow> u64_add oc v buyer_fee;
                                 u64_add oc spent c }
                       else Some spent);
            quote \<leftarrow> u64_mul oc (tr_price t) (tr_qty t);
            Some (st1, filled', spent', emit_execution pub (TradeExecuted
              \<lparr>te_maker_order_id = tr_maker_order_id t, te_taker_order_id = tr_taker_order_id t,
               te_buyer_id = tr_buyer t, te_seller_id = tr_seller t, te_market = market,
               te_price = tr_price t, te_qty = tr_qty t, te_quote_amount = quote,
               te_maker_remaining_qty = maker_remaining st1 asset (tr_maker_order_id t),
               te_taker_remaining_qty = 0, te_buyer_fee = buyer_fee, te_seller_fee = seller_fee\<rparr>)) })"

text \<open>The loop; the second component is \<^verbatim>\<open>resting_order\<close>, which the market branches do not have.\<close>

fun settle_results ::
  "bool \<Rightarrow> bool \<Rightarrow> string \<Rightarrow> string \<Rightarrow> match_result list \<Rightarrow> settle_acc \<times> order_accepted option
     \<Rightarrow> (settle_acc \<times> order_accepted option) option" where
  "settle_results oc track asset market [] acc = Some acc"
| "settle_results oc track asset market (MR_Trade t # rs) acc =
     do { acc' \<leftarrow> settle_trade oc track asset market t (fst acc);
          settle_results oc track asset market rs (acc', snd acc) }"
| "settle_results oc track asset market (MR_OrderAccepted a # rs) acc =
     settle_results oc track asset market rs (fst acc, Some a)"

section \<open>Locking and releasing funds (order.rs)\<close>

text \<open>The Boolean tells whether the balance was sufficient.\<close>

definition lock_usd :: "bool \<Rightarrow> nat \<Rightarrow> nat \<Rightarrow> engine_state \<Rightarrow> (engine_state \<times> bool) option" where
  "lock_usd oc uid amount st =
     (if available (usd_of st uid) < amount then Some (usd_touch uid st, False)
      else do { st1 \<leftarrow> usd_modify uid (lock_funds oc amount) st; Some (st1, True) })"

definition lock_asset :: "bool \<Rightarrow> nat \<Rightarrow> string \<Rightarrow> nat \<Rightarrow> engine_state \<Rightarrow> (engine_state \<times> bool) option" where
  "lock_asset oc uid asset qty st =
     (if available (asset_of st uid (to_lowercase asset)) < qty then Some (asset_touch uid asset st, False)
      else do { st1 \<leftarrow> asset_modify uid asset (lock_funds oc qty) st; Some (st1, True) })"

definition unlock_usd :: "bool \<Rightarrow> nat \<Rightarrow> nat \<Rightarrow> engine_state \<Rightarrow> engine_state option" where
  "unlock_usd oc uid excess st =
     (if excess > 0 then usd_modify uid (unlock_funds oc excess) st else Some st)"

definition unlock_asset :: "bool \<Rightarrow> nat \<Rightarrow> string \<Rightarrow> nat \<Rightarrow> engine_state \<Rightarrow> engine_state option" where
  "unlock_asset oc uid asset unfilled st =
     (if unfilled > 0 then asset_modify uid asset (unlock_funds oc unfilled) st else Some st)"

definition fill_status :: "nat \<Rightarrow> nat \<Rightarrow> string" where
  "fill_status filled_qty qty =
     (if filled_qty = qty then ''filled'' else if filled_qty > 0 then ''partially_filled'' else ''unfilled'')"

definition insufficient_asset :: "string \<Rightarrow> string" where
  "insufficient_asset asset = ''Insufficient '' @ to_uppercase asset"

section \<open>Limit orders (order.rs)\<close>

type_synonym outcome = "bool \<times> engine_state \<times> publisher"

text \<open>Cost and total lock of a limit order, for both sides.\<close>

definition limit_lock :: "bool \<Rightarrow> fee_schedule \<Rightarrow> nat \<Rightarrow> nat \<Rightarrow> nat option" where
  "limit_lock oc fs price qty =
     do { cost \<leftarrow> u64_mul oc price qty;
          let fee_rate = max (taker_fee_bps fs) (maker_fee_bps fs);
          p \<leftarrow> u64_mul oc cost fee_rate;
          u64_add oc cost (p div 10000) }"

definition needed_locked :: "bool \<Rightarrow> fee_schedule \<Rightarrow> order_accepted option \<Rightarrow> nat option" where
  "needed_locked oc fs resting =
     (case resting of
        None \<Rightarrow> Some 0
      | Some acc \<Rightarrow>
          do { resting_cost \<leftarrow> u64_mul oc (oa_price acc) (oa_remaining_qty acc);
               fee \<leftarrow> calc_maker_fee oc fs resting_cost;
               u64_add oc resting_cost fee })"

definition reconcile ::
  "bool \<Rightarrow> nat \<Rightarrow> string \<Rightarrow> side \<Rightarrow> time_in_force \<Rightarrow> nat \<Rightarrow> nat \<Rightarrow> nat \<Rightarrow> nat \<Rightarrow> order_accepted option
     \<Rightarrow> engine_state \<Rightarrow> engine_state option" where
  "reconcile oc uid asset s tif qty total_lock filled_qty deducted resting st =
     (case s of
        Bid \<Rightarrow> do { needed \<leftarrow> needed_locked oc (es_fee_schedule st) resting;
                    unlock_usd oc uid (saturating_sub (saturating_sub total_lock deducted) needed) st }
      | Ask \<Rightarrow> do { unfilled \<leftarrow> u64_sub oc qty filled_qty;
                    (if tif \<noteq> Gtc then unlock_asset oc uid asset unfilled st else Some st) })"

definition limit_reply ::
  "publisher \<Rightarrow> order_msg \<Rightarrow> string \<Rightarrow> nat \<Rightarrow> nat \<Rightarrow> order_accepted option \<Rightarrow> publisher" where
  "limit_reply pub msg market qty filled_qty resting =
     (case resting of
        Some acc \<Rightarrow>
          reply (emit_execution pub (OrderCreated
              \<lparr>oc_order_id = oa_order_id acc, oc_user_id = oa_user_id acc, oc_market = market,
               oc_side = om_side msg, oc_price = oa_price acc, oc_original_qty = qty,
               oc_remaining_qty = oa_remaining_qty acc, oc_status = ''open''\<rparr>))
            (om_queue_id msg)
            (OrderReply (om_identifier msg) (Some (oa_order_id acc)) (Some ''open'') None None)
      | None \<Rightarrow>
          reply pub (om_queue_id msg)
            (OrderReply (om_identifier msg) None (Some (fill_status filled_qty qty)) None None))"

definition handle_limit ::
  "bool \<Rightarrow> engine_state \<Rightarrow> publisher \<Rightarrow> order_msg \<Rightarrow> string \<Rightarrow> string \<Rightarrow> side \<Rightarrow> nat \<Rightarrow> outcome option" where
  "handle_limit oc st pub msg asset market s qty =
     (if om_price msg \<le> 0
      then Some (True, st, reply_error pub (om_queue_id msg) (om_identifier msg)
             ''price must be positive for limit orders'' 400)
      else do {
        let price = nat (om_price msg);
        let uid = om_user_id msg;
        total_lock \<leftarrow> limit_lock oc (es_fee_schedule st) price qty;
        (st1, ok) \<leftarrow> (case s of Bid \<Rightarrow> lock_usd oc uid total_lock st | Ask \<Rightarrow> lock_asset oc uid asset qty st);
        (if \<not> ok
         then Some (True, st1, reply_error pub (om_queue_id msg) (om_identifier msg)
                (case s of Bid \<Rightarrow> ''Insufficient USD'' | Ask \<Rightarrow> insufficient_asset asset) 400)
         else do {
           (order_id, st2) \<leftarrow> take_order_id oc st1;
           ob \<leftarrow> get_orderbook st2 asset;
           (ob', res) \<leftarrow> add_order_with_id oc order_id uid s price qty (om_time_in_force msg) ob;
           results \<leftarrow> (case res of Inl _ \<Rightarrow> None | Inr r \<Rightarrow> Some r);
           ((st3, filled_qty, deducted, pub1), resting) \<leftarrow>
             settle_results oc (s = Bid) asset market results ((put_orderbook asset ob' st2, 0, 0, pub), None);
           st4 \<leftarrow> reconcile oc uid asset s (om_time_in_force msg) qty total_lock filled_qty deducted resting st3;
           Some (False, st4, limit_reply pub1 msg market qty filled_qty resting) }) })"

section \<open>Market orders (order.rs)\<close>

definition slippage_of :: "order_msg \<Rightarrow> f64" where
  "slippage_of msg = (case om_slippage_pct msg of None \<Rightarrow> 5 | Some x \<Rightarrow> x)"

definition sell_floor :: "engine_state \<Rightarrow> order_msg \<Rightarrow> string \<Rightarrow> nat option" where
  "sell_floor st msg asset =
     (if om_price msg > 0 then Some (nat (om_price msg))
      else case get_orderbook st asset \<bind> best_bid of
        Some bid \<Rightarrow>
          Some (max (f64_floor_u64 (f64_mul (f64_of_u64 bid) (f64_sub 1 (f64_div (slippage_of msg) 100)))) 1)
      | None \<Rightarrow> None)"

definition buy_cap :: "engine_state \<Rightarrow> order_msg \<Rightarrow> string \<Rightarrow> nat option" where
  "buy_cap st msg asset =
     (if om_price msg > 0 then Some (nat (om_price msg))
      else case get_orderbook st asset \<bind> best_ask of
        Some ask \<Rightarrow>
          Some (f64_ceil_u64 (f64_mul (f64_of_u64 ask) (f64_add 1 (f64_div (slippage_of msg) 100))))
      | None \<Rightarrow> None)"

definition status_reply :: "publisher \<Rightarrow> order_msg \<Rightarrow> string \<Rightarrow> publisher" where
  "status_reply pub msg status =
     reply pub (om_queue_id msg) (OrderReply (om_identifier msg) None (Some status) None None)"

text \<open>Executing the order and settling its trades, in both market branches.\<close>

definition execute_and_settle ::
  "bool \<Rightarrow> order_msg \<Rightarrow> string \<Rightarrow> string \<Rightarrow> side \<Rightarrow> nat \<Rightarrow> nat option \<Rightarrow> engine_state \<Rightarrow> publisher
     \<Rightarrow> settle_acc option" where
  "execute_and_settle oc msg asset market s qty worst st pub =
     do { (order_id, st1) \<leftarrow> take_order_id oc st;
          ob \<leftarrow> get_orderbook st1 asset;
          (ob', res) \<leftarrow> execute_market_order_with_id oc order_id (om_user_id msg) s qty worst ob;
          results \<leftarrow> (case res of Inl _ \<Rightarrow> None | Inr r \<Rightarrow> Some r);
          (acc, resting) \<leftarrow> settle_results oc (s = Bid) asset market results
            ((put_orderbook asset ob' st1, 0, 0, pub), None);
          Some acc }"

definition handle_market_ask ::
  "bool \<Rightarrow> engine_state \<Rightarrow> publisher \<Rightarrow> order_msg \<Rightarrow> string \<Rightarrow> string \<Rightarrow> nat \<Rightarrow> outcome option" where
  "handle_market_ask oc st pub msg asset market qty =
     do { let worst = sell_floor st msg asset;
          fillable \<leftarrow> (if om_time_in_force msg = Fok
                       then (case get_orderbook st asset of
                               None \<Rightarrow> Some 0
                             | Some ob \<Rightarrow> fillable_qty_for_market_sell oc ob qty worst)
                       else Some qty);
          (if fillable < qty then Some (True, st, status_reply pub msg ''unfilled'')
           else do {
             (st1, ok) \<leftarrow> lock_asset oc (om_user_id msg) asset qty st;
             (if \<not> ok
              then Some (True, st1, reply_error pub (om_queue_id msg) (om_identifier msg)
                     (insufficient_asset asset) 400)
              else do {
                (st2, filled_qty, _, pub1) \<leftarrow> execute_and_settle oc msg asset market Ask qty worst st1 pub;
                unfilled \<leftarrow> u64_sub oc qty filled_qty;
                st3 \<leftarrow> unlock_asset oc (om_user_id msg) asset unfilled st2;
                Some (False, st3, status_reply pub1 msg (fill_status filled_qty qty)) }) }) }"

definition handle_market_bid ::
  "bool \<Rightarrow> engine_state \<Rightarrow> publisher \<Rightarrow> order_msg \<Rightarrow> string \<Rightarrow> string \<Rightarrow> nat \<Rightarrow> outcome option" where
  "handle_market_bid oc st pub msg asset market qty =
     do { let worst = buy_cap st msg asset;
          (required_usd, fillable) \<leftarrow> (case get_orderbook st asset of
             None \<Rightarrow> Some (0, 0)
           | Some ob \<Rightarrow> quote_cost_for_market_buy oc ob qty worst);
          let killed = (om_time_in_force msg = Fok \<and> fillable < qty);
          (if fillable = 0 \<or> killed
           then (if killed then Some (True, st, status_reply pub msg ''unfilled'')
                 else Some (True, st, reply_error pub (om_queue_id msg) (om_identifier msg)
                        ''No ask liquidity available within slippage limit'' 400))
           else do {
             fee_reserve \<leftarrow> calc_taker_fee oc (es_fee_schedule st) required_usd;
             total_required \<leftarrow> u64_add oc required_usd fee_reserve;
             (st1, ok) \<leftarrow> lock_usd oc (om_user_id msg) total_required st;
             (if \<not> ok
              then Some (True, st1, reply_error pub (om_queue_id msg) (om_identifier msg) ''Insufficient USD'' 400)
              else do {
                (st2, filled_qty, total_spent, pub1) \<leftarrow>
                  execute_and_settle oc msg asset market Bid qty worst st1 pub;
                st3 \<leftarrow> unlock_usd oc (om_user_id msg) (saturating_sub total_required total_spent) st2;
                Some (False, st3, status_reply pub1 msg (fill_status filled_qty qty)) }) }) }"

section \<open>The order handler (order.rs)\<close>

definition parse_side :: "string \<Rightarrow> side option" where
  "parse_side s = (if s = ''bid'' then Some Bid else if s = ''ask'' then Some Ask else None)"

definition market_of :: "string \<Rightarrow> string" where
  "market_of asset = to_uppercase asset @ ''_USD''"

definition emit_depth :: "bool \<Rightarrow> engine_state \<Rightarrow> publisher \<Rightarrow> string \<Rightarrow> string \<Rightarrow> publisher option" where
  "emit_depth oc st pub asset market =
     (case get_orderbook st asset of
        None \<Rightarrow> Some pub
      | Some ob \<Rightarrow>
          do { snap \<leftarrow> get_state oc ob;
               let level = (\<lambda>l. (ls_price l, ls_qty l));
               Some (emit_execution pub (DepthUpdated market
                 (map level (take 25 (os_bids snap))) (map level (take 25 (os_asks snap))))) })"

definition handle_order ::
  "bool \<Rightarrow> engine_state \<Rightarrow> publisher \<Rightarrow> order_msg \<Rightarrow> (engine_state \<times> publisher) option" where
  "handle_order oc st pub msg =
     (let asset = to_lowercase (om_asset msg);
          fail = (\<lambda>e. Some (st, reply_error pub (om_queue_id msg) (om_identifier msg) e 400)) in
      if \<not> supported asset then fail ''Supported assets are SOL, BTC, ETH''
      else case parse_side (om_side msg) of
        None \<Rightarrow> fail ''side must be bid or ask''
      | Some s \<Rightarrow>
          if om_qty msg \<le> 0 then fail ''qty must be a positive number''
          else do {
            let market = market_of asset;
            let qty = nat (om_qty msg);
            (returned, st1, pub1) \<leftarrow>
              (case om_order_type msg of
                 Limit \<Rightarrow> handle_limit oc st pub msg asset market s qty
               | Market \<Rightarrow> (case s of
                   Ask \<Rightarrow> handle_market_ask oc st pub msg asset market qty
                 | Bid \<Rightarrow> handle_market_bid oc st pub msg asset market qty));
            (if returned then Some (st1, pub1)
             else do { pub2 \<leftarrow> emit_depth oc st1 pub1 asset market; Some (st1, pub2) }) })"

section \<open>Cancelling and queries (order.rs)\<close>

text \<open>
  The three attempts, in the order of the source. A book whose \<^verbatim>\<open>cancel_order\<close> fails is left as it
  was (it only mutates after its checks), but the model writes the returned book back all the same.
\<close>

definition try_cancel ::
  "cancel_msg \<Rightarrow> string \<Rightarrow> engine_state \<Rightarrow> (engine_state \<times> order_cancelled option) option" where
  "try_cancel msg asset st =
     do { ob \<leftarrow> get_orderbook st asset;
          (ob', res) \<leftarrow> cancel_order (cm_order_id msg) (cm_user_id msg) ob;
          Some (put_orderbook asset ob' st, (case res of Inl _ \<Rightarrow> None | Inr c \<Rightarrow> Some c)) }"

fun cancel_in ::
  "cancel_msg \<Rightarrow> string list \<Rightarrow> engine_state
     \<Rightarrow> (engine_state \<times> (order_cancelled \<times> string) option) option" where
  "cancel_in msg [] st = Some (st, None)"
| "cancel_in msg (asset # as) st =
     do { (st1, res) \<leftarrow> try_cancel msg asset st;
          (case res of Some c \<Rightarrow> Some (st1, Some (c, asset)) | None \<Rightarrow> cancel_in msg as st1) }"

definition or_else :: "'a option \<Rightarrow> 'a option \<Rightarrow> 'a option" where
  "or_else x y = (case x of None \<Rightarrow> y | Some _ \<Rightarrow> x)"

definition order_exists :: "engine_state \<Rightarrow> nat \<Rightarrow> order option" where
  "order_exists st oid =
     or_else (or_else (get_order (sol_orderbook st) oid) (get_order (btc_orderbook st) oid))
       (get_order (eth_orderbook st) oid)"

definition refund_cancelled ::
  "bool \<Rightarrow> order_cancelled \<Rightarrow> string \<Rightarrow> engine_state \<Rightarrow> engine_state option" where
  "refund_cancelled oc c asset st =
     (case ocl_side c of
        Bid \<Rightarrow> do { cost \<leftarrow> u64_mul oc (ocl_price c) (ocl_remaining_qty c);
                    fee \<leftarrow> calc_maker_fee oc (es_fee_schedule st) cost;
                    refund \<leftarrow> u64_add oc cost fee;
                    usd_modify (ocl_user_id c) (unlock_funds oc refund) st }
      | Ask \<Rightarrow> asset_modify (ocl_user_id c) asset (unlock_funds oc (ocl_remaining_qty c)) st)"

definition handle_cancel ::
  "bool \<Rightarrow> engine_state \<Rightarrow> publisher \<Rightarrow> cancel_msg \<Rightarrow> (engine_state \<times> publisher) option" where
  "handle_cancel oc st pub msg =
     do { (st1, res) \<leftarrow> cancel_in msg [''sol'', ''btc'', ''eth''] st;
          (case res of
             None \<Rightarrow>
               Some (st1, reply_cancel_error pub (cm_queue_id msg) (cm_identifier msg)
                 (case order_exists st1 (cm_order_id msg) of
                    Some _ \<Rightarrow> ''Not order owner'' | None \<Rightarrow> ''Open order not found''))
           | Some (c, asset) \<Rightarrow>
               do { st2 \<leftarrow> refund_cancelled oc c asset st1;
                    let pub1 = emit_execution pub
                      (OrderCancelled (ocl_order_id c) (ocl_user_id c) (ocl_remaining_qty c));
                    pub2 \<leftarrow> emit_depth oc st2 pub1 asset (market_of asset);
                    Some (st2, reply pub2 (cm_queue_id msg)
                      (CancelReply (cm_identifier msg) (Some (ocl_order_id c)) (Some (ocl_remaining_qty c))
                        (Some ''Order cancelled'') None)) }) }"

definition side_name :: "side \<Rightarrow> string" where
  "side_name s = (case s of Bid \<Rightarrow> ''bid'' | Ask \<Rightarrow> ''ask'')"

definition open_orders_of :: "nat \<Rightarrow> orderbook \<times> string \<Rightarrow> open_order_info list" where
  "open_orders_of uid bm =
     map (\<lambda>o'. \<lparr>oi_order_id = uo_order_id o', oi_user_id = uo_user_id o', oi_side = side_name (uo_side o'),
                oi_price = uo_price o', oi_remaining_qty = uo_remaining_qty o', oi_market = snd bm\<rparr>)
       (get_user_orders (fst bm) uid)"

definition handle_get_open_orders :: "engine_state \<Rightarrow> publisher \<Rightarrow> open_orders_query_msg \<Rightarrow> publisher" where
  "handle_get_open_orders st pub msg =
     reply pub (ooq_queue_id msg) (OpenOrdersReply (ooq_identifier msg)
       (concat (map (open_orders_of (ooq_user_id msg))
          [(sol_orderbook st, ''SOL_USD''), (btc_orderbook st, ''BTC_USD''), (eth_orderbook st, ''ETH_USD'')])))"

definition handle_get_order_status :: "engine_state \<Rightarrow> publisher \<Rightarrow> order_status_query_msg \<Rightarrow> publisher" where
  "handle_get_order_status st pub msg =
     (let look = (\<lambda>ob market. map_option (\<lambda>ord. (ord, market)) (get_order ob (osq_order_id msg)));
          found = or_else (or_else (look (sol_orderbook st) ''SOL_USD'') (look (btc_orderbook st) ''BTC_USD''))
                    (look (eth_orderbook st) ''ETH_USD'');
          missing = reply pub (osq_queue_id msg) (OrderStatusReply (osq_identifier msg) None None
                      (Some ''Order not found in open book'')) in
      case found of
        None \<Rightarrow> missing
      | Some (ord, market) \<Rightarrow>
          if ord_user_id ord = osq_user_id msg
          then reply pub (osq_queue_id msg) (OrderStatusReply (osq_identifier msg)
                 (Some \<lparr>oi_order_id = ord_order_id ord, oi_user_id = ord_user_id ord,
                   oi_side = side_name (ord_side ord), oi_price = ord_price ord,
                   oi_remaining_qty = ord_remaining_qty ord, oi_market = market\<rparr>)
                 (Some ''open'') None)
          else missing)"

end
