(* ===== verification/Engine.thy ===== *)
theory Engine
  imports Handlers
begin

text \<open>
  The event loop (\<^verbatim>\<open>rs-engine/src/engine.rs\<close>) and the snapshots (\<^verbatim>\<open>rs-engine/src/snapshot.rs\<close>).

  What the crate does not contain is passed in: the JSON decoders of the ten message types (a record
  of functions), the JSON codec of the state, and the reply of Redis to \<^verbatim>\<open>XRANGE\<close>. A stream record is
  its id and its field map; \<^verbatim>\<open>from_redis_value::<String>\<close> fails on bytes that are not UTF-8. The table
  \<^verbatim>\<open>engine_snapshots\<close> is the list of its rows with the next value of its serial column, and SQL
  statements are taken to succeed; without a database the engine runs in memory only.
\<close>

section \<open>Dispatch\<close>

record decoders =
  dec_signup :: "string \<Rightarrow> signup_msg option"
  dec_onramp :: "string \<Rightarrow> onramp_msg option"
  dec_deposit :: "string \<Rightarrow> deposit_msg option"
  dec_balance :: "string \<Rightarrow> balance_query_msg option"
  dec_order :: "string \<Rightarrow> order_msg option"
  dec_cancel :: "string \<Rightarrow> cancel_msg option"
  dec_orderbook :: "string \<Rightarrow> orderbook_query_msg option"
  dec_open_orders :: "string \<Rightarrow> open_orders_query_msg option"
  dec_order_status :: "string \<Rightarrow> order_status_query_msg option"
  dec_reset :: "string \<Rightarrow> reset_msg option"

text \<open>\<^verbatim>\<open>if let Ok(msg) = ... { handler }\<close>: a payload that does not decode is ignored.\<close>

definition on_msg ::
  "'m option \<Rightarrow> engine_state \<Rightarrow> publisher \<Rightarrow> ('m \<Rightarrow> (engine_state \<times> publisher) option) \<Rightarrow> (engine_state \<times> publisher) option" where
  "on_msg m st pub h = (case m of None \<Rightarrow> Some (st, pub) | Some msg \<Rightarrow> h msg)"

definition dispatch_event ::
  "bool \<Rightarrow> decoders \<Rightarrow> engine_state \<Rightarrow> publisher \<Rightarrow> string \<Rightarrow> string \<Rightarrow> (engine_state \<times> publisher) option" where
  "dispatch_event oc dec st pub channel data =
     (if channel = CH_SIGNUP then on_msg (dec_signup dec data) st pub (handle_signup st pub)
      else if channel = CH_ONRAMP then on_msg (dec_onramp dec data) st pub (handle_onramp oc st pub)
      else if channel = CH_DEPOSIT then on_msg (dec_deposit dec data) st pub (handle_deposit oc st pub)
      else if channel = CH_BALANCE
      then on_msg (dec_balance dec data) st pub (\<lambda>m. Some (st, handle_balance st pub m))
      else if channel = CH_ORDER then on_msg (dec_order dec data) st pub (handle_order oc st pub)
      else if channel = CH_CANCEL then on_msg (dec_cancel dec data) st pub (handle_cancel oc st pub)
      else if channel = CH_ORDERBOOK
      then on_msg (dec_orderbook dec data) st pub (\<lambda>m. map_option (Pair st) (handle_get_orderbook oc st pub m))
      else if channel = CH_OPEN_ORDERS
      then on_msg (dec_open_orders dec data) st pub (\<lambda>m. Some (st, handle_get_open_orders st pub m))
      else if channel = CH_ORDER_STATUS
      then on_msg (dec_order_status dec data) st pub (\<lambda>m. Some (st, handle_get_order_status st pub m))
      else if channel = CH_RESET
      then on_msg (dec_reset dec data) st pub (\<lambda>m. Some (handle_reset st pub m))
      else Some (st, pub))"

section \<open>Replay\<close>

datatype redis_value = Utf8 string | NotUtf8

record stream_record =
  sr_id :: string
  sr_map :: "(string, redis_value) hash_map"

definition from_redis_value :: "redis_value \<Rightarrow> string" where
  "from_redis_value v = (case v of Utf8 s \<Rightarrow> s | NotUtf8 \<Rightarrow> '''')"

text \<open>The channel and the data of a record; \<open>None\<close> is the \<^verbatim>\<open>continue\<close> of a record without the fields.\<close>

definition record_event :: "stream_record \<Rightarrow> (string \<times> string) option" where
  "record_event r =
     do { c \<leftarrow> hm_get (sr_map r) ''channel'';
          d \<leftarrow> hm_get (sr_map r) ''data'';
          Some (from_redis_value c, from_redis_value d) }"

fun replay_records ::
  "bool \<Rightarrow> decoders \<Rightarrow> stream_record list \<Rightarrow> engine_state \<times> string \<Rightarrow> (engine_state \<times> string) option" where
  "replay_records oc dec [] acc = Some acc"
| "replay_records oc dec (r # rs) acc =
     (case record_event r of
        None \<Rightarrow> replay_records oc dec rs (fst acc, sr_id r)
      | Some (channel, data) \<Rightarrow>
          do { (st', pub) \<leftarrow> dispatch_event oc dec (fst acc) None channel data;
               replay_records oc dec rs (st', sr_id r) })"

text \<open>
  The argument \<open>xrange\<close> is Redis: its reply to \<^verbatim>\<open>XRANGE engine-events start +\<close>, or \<open>None\<close> for an error,
  which the function returns as \<open>Inl ()\<close> with the state untouched.
\<close>

definition xrange_start :: "string \<Rightarrow> string" where
  "xrange_start last_id = (if last_id = ''0-0'' \<or> last_id = '''' then ''-'' else ''('' @ last_id)"

definition replay_events_since ::
  "bool \<Rightarrow> decoders \<Rightarrow> (string \<Rightarrow> stream_record list option) \<Rightarrow> engine_state \<Rightarrow> string
     \<Rightarrow> (engine_state \<times> (unit + string)) option" where
  "replay_events_since oc dec xrange st last_id =
     (case xrange (xrange_start last_id) of
        None \<Rightarrow> Some (st, Inl ())
      | Some records \<Rightarrow>
          do { (st', current_id) \<leftarrow> replay_records oc dec records (st, last_id);
               Some (st', Inr current_id) })"

section \<open>Snapshots (snapshot.rs)\<close>

record 'j snapshot_table =
  next_serial :: nat
  snapshot_rows :: "(nat \<times> string \<times> 'j) list"

definition empty_table :: "'j snapshot_table" where
  "empty_table = \<lparr>next_serial = 1, snapshot_rows = []\<rparr>"

text \<open>\<^verbatim>\<open>SELECT id FROM engine_snapshots ORDER BY id DESC LIMIT 3\<close>\<close>

definition latest_ids :: "'j snapshot_table \<Rightarrow> nat list" where
  "latest_ids t = take 3 (rev (sort (map fst (snapshot_rows t))))"

definition save_snapshot ::
  "(engine_state \<Rightarrow> 'j option) \<Rightarrow> string \<Rightarrow> engine_state \<Rightarrow> 'j snapshot_table \<Rightarrow> 'j snapshot_table option" where
  "save_snapshot to_value last_stream_id st t =
     do { json \<leftarrow> to_value st;
          let t1 = t\<lparr>next_serial := next_serial t + 1,
                     snapshot_rows := snapshot_rows t @ [(next_serial t, last_stream_id, json)]\<rparr>;
          Some (t1\<lparr>snapshot_rows := filter (\<lambda>(i, _). i \<in> set (latest_ids t1)) (snapshot_rows t1)\<rparr>) }"

text \<open>The row with the greatest id; \<open>Inl ()\<close> when its JSON does not decode.\<close>

definition latest_row :: "'j snapshot_table \<Rightarrow> (nat \<times> string \<times> 'j) option" where
  "latest_row t =
     (case rev (sort_key fst (snapshot_rows t)) of [] \<Rightarrow> None | row # _ \<Rightarrow> Some row)"

definition load_latest_snapshot ::
  "('j \<Rightarrow> engine_state option) \<Rightarrow> 'j snapshot_table \<Rightarrow> unit + (string \<times> engine_state) option" where
  "load_latest_snapshot from_value t =
     (case latest_row t of
        None \<Rightarrow> Inr None
      | Some (i, stream_id, json) \<Rightarrow>
          (case from_value json of None \<Rightarrow> Inl () | Some st \<Rightarrow> Inr (Some (stream_id, st))))"

definition truncate_snapshots :: "'j snapshot_table \<Rightarrow> 'j snapshot_table" where
  "truncate_snapshots t = empty_table"

section \<open>The live loop\<close>

record 'j engine_proc =
  ep_state :: engine_state
  ep_pub :: publisher
  ep_db :: "'j snapshot_table option"
  ep_last_id :: string
  ep_events :: nat

definition SNAPSHOT_INTERVAL :: nat where
  "SNAPSHOT_INTERVAL = 1000"

definition snapshot_now ::
  "(engine_state \<Rightarrow> 'j option) \<Rightarrow> 'j engine_proc \<Rightarrow> 'j engine_proc" where
  "snapshot_now to_value p =
     p\<lparr>ep_db := (case ep_db p of
         None \<Rightarrow> None
       | Some t \<Rightarrow> (case save_snapshot to_value (ep_last_id p) (ep_state p) t of
           None \<Rightarrow> Some t | Some t' \<Rightarrow> Some t')),
       ep_events := 0\<rparr>"

text \<open>One record of a batch that \<^verbatim>\<open>XREAD\<close> returned.\<close>

definition process_record ::
  "bool \<Rightarrow> decoders \<Rightarrow> (engine_state \<Rightarrow> 'j option) \<Rightarrow> stream_record \<Rightarrow> 'j engine_proc \<Rightarrow> 'j engine_proc option" where
  "process_record oc dec to_value r p =
     (let p1 = p\<lparr>ep_last_id := sr_id r\<rparr> in
      case record_event r of
        None \<Rightarrow> Some p1
      | Some (channel, data) \<Rightarrow>
          do { (st', pub') \<leftarrow> dispatch_event oc dec (ep_state p1) (ep_pub p1) channel data;
               let p2 = p1\<lparr>ep_state := st', ep_pub := pub'\<rparr>;
               (if channel = CH_RESET
                then Some (p2\<lparr>ep_db := map_option truncate_snapshots (ep_db p2),
                              ep_pub := map_option (\<lambda>l. l @ [Del [STREAM_EVENTS, STREAM_EXECUTIONS]]) (ep_pub p2),
                              ep_last_id := ''0-0'', ep_events := 0\<rparr>)
                else (let p3 = p2\<lparr>ep_events := ep_events p2 + 1\<rparr> in
                      Some (if ep_events p3 \<ge> SNAPSHOT_INTERVAL then snapshot_now to_value p3 else p3))) })"

fun process_batch ::
  "bool \<Rightarrow> decoders \<Rightarrow> (engine_state \<Rightarrow> 'j option) \<Rightarrow> stream_record list \<Rightarrow> 'j engine_proc \<Rightarrow> 'j engine_proc option" where
  "process_batch oc dec to_value [] p = Some p"
| "process_batch oc dec to_value (r # rs) p =
     do { p' \<leftarrow> process_record oc dec to_value r p; process_batch oc dec to_value rs p' }"

text \<open>The start of \<^verbatim>\<open>run_engine_with_db\<close>: restore the latest snapshot, then replay what came after it.\<close>

definition start_engine ::
  "bool \<Rightarrow> decoders \<Rightarrow> ('j \<Rightarrow> engine_state option) \<Rightarrow> (string \<Rightarrow> stream_record list option) \<Rightarrow>
     engine_state \<Rightarrow> publisher \<Rightarrow> 'j snapshot_table option \<Rightarrow> string \<Rightarrow> 'j engine_proc option" where
  "start_engine oc dec from_value xrange st pub db last_id =
     (let (st1, id1) = (if last_id = ''0-0''
        then (case db of
                None \<Rightarrow> (st, last_id)
              | Some t \<Rightarrow> (case load_latest_snapshot from_value t of
                  Inr (Some (snap_id, snap_state)) \<Rightarrow> (snap_state, snap_id)
                | _ \<Rightarrow> (st, last_id)))
        else (st, last_id)) in
      do { (st2, res) \<leftarrow> replay_events_since oc dec xrange st1 id1;
           Some \<lparr>ep_state = st2, ep_pub = pub, ep_db = db,
                 ep_last_id = (case res of Inl _ \<Rightarrow> id1 | Inr new_last \<Rightarrow> new_last), ep_events = 0\<rparr> })"

end
