(* ===== verification/Publisher.thy ===== *)
theory Publisher
  imports Handlers
begin

text \<open>
  The publisher is write-only. Running a handler with another publisher changes what is sent, never
  what is computed: every handler commutes with prefixing the log of commands. Replay, which runs the
  handlers without a publisher, therefore computes the same states as the live engine, and what a
  handler sends can be read off a run that starts with an empty log.
\<close>

text \<open>The publisher \<open>pub\<close> after the commands that \<open>p\<close> has recorded.\<close>

definition graft :: "publisher \<Rightarrow> publisher \<Rightarrow> publisher" where
  "graft pub p = (case p of None \<Rightarrow> None | Some sent \<Rightarrow> map_option (\<lambda>l. l @ sent) pub)"

lemma graft_empty [simp]: "graft pub (Some []) = pub"
  by (cases pub) (simp_all add: graft_def)

lemma graft_reply: "reply (graft pub p) q x = graft pub (reply p q x)"
  by (cases pub; cases p) (simp_all add: graft_def reply_def)

lemma graft_emit: "emit_execution (graft pub p) e = graft pub (emit_execution p e)"
  by (cases pub; cases p) (simp_all add: graft_def emit_execution_def)

lemma graft_errors:
  "reply_error (graft pub p) q i e c = graft pub (reply_error p q i e c)"
  "reply_cancel_error (graft pub p) q i e = graft pub (reply_cancel_error p q i e)"
  "status_reply (graft pub p) msg s = graft pub (status_reply p msg s)"
  "limit_reply (graft pub p) msg market qty f r = graft pub (limit_reply p msg market qty f r)"
  by (simp_all add: reply_error_def reply_cancel_error_def status_reply_def limit_reply_def graft_reply graft_emit
      split: option.splits)

lemmas graft_simps = graft_reply graft_emit graft_errors

section \<open>Pushing a map through the option monad\<close>

lemma map_option_bind: "map_option g (m \<bind> f) = m \<bind> (\<lambda>x. map_option g (f x))"
  by (cases m) simp_all

lemma map_option_if: "map_option g (if c then x else y) = (if c then map_option g x else map_option g y)"
  by simp

lemma map_option_prod: "map_option g (case x of (a, b) \<Rightarrow> f a b) = (case x of (a, b) \<Rightarrow> map_option g (f a b))"
  by (cases x) simp

lemma bind_map_option: "map_option g m \<bind> f = m \<bind> (\<lambda>x. f (g x))"
  by (cases m) simp_all

lemmas push_simps = map_option_bind map_option_if map_option_prod bind_map_option

section \<open>The settlement loop\<close>

abbreviation graft_acc :: "publisher \<Rightarrow> settle_acc \<Rightarrow> settle_acc" where
  "graft_acc pub \<equiv> \<lambda>(st, f, s, p). (st, f, s, graft pub p)"

lemma settle_trade_graft:
  "settle_trade oc track a market t (graft_acc pub acc) = map_option (graft_acc pub) (settle_trade oc track a market t acc)"
  by (cases acc) (simp add: settle_trade_def push_simps graft_simps split_def cong: if_cong)

lemma settle_results_graft:
  "settle_results oc track a market rs (graft_acc pub acc, res) =
     map_option (\<lambda>(acc, res). (graft_acc pub acc, res)) (settle_results oc track a market rs (acc, res))"
proof (induction rs arbitrary: acc res)
  case (Cons r rs)
  then show ?case
    by (cases r) (simp_all add: settle_trade_graft push_simps del: split_paired_All)
qed simp

section \<open>The handlers\<close>

abbreviation graft_out :: "publisher \<Rightarrow> 'a \<times> publisher \<Rightarrow> 'a \<times> publisher" where
  "graft_out pub \<equiv> \<lambda>(x, p). (x, graft pub p)"

abbreviation graft_outcome :: "publisher \<Rightarrow> outcome \<Rightarrow> outcome" where
  "graft_outcome pub \<equiv> \<lambda>(ret, st, p). (ret, st, graft pub p)"

lemma settle_results_start:
  "settle_results oc track a market rs ((st, f, s, graft pub p), res) =
     map_option (\<lambda>(acc, res). (graft_acc pub acc, res)) (settle_results oc track a market rs ((st, f, s, p), res))"
  using settle_results_graft [of oc track a market rs pub "(st, f, s, p)" res] by simp

lemma handle_limit_graft:
  "handle_limit oc st (graft pub p) msg a market s qty =
     map_option (graft_outcome pub) (handle_limit oc st p msg a market s qty)"
  by (simp add: handle_limit_def Let_def push_simps graft_simps settle_results_start split_def cong: if_cong)

lemma execute_and_settle_graft:
  "execute_and_settle oc msg a market s qty worst st (graft pub p) =
     map_option (graft_acc pub) (execute_and_settle oc msg a market s qty worst st p)"
  by (simp add: execute_and_settle_def push_simps settle_results_start split_def)

lemma handle_market_ask_graft:
  "handle_market_ask oc st (graft pub p) msg a market qty =
     map_option (graft_outcome pub) (handle_market_ask oc st p msg a market qty)"
  by (simp add: handle_market_ask_def Let_def push_simps graft_simps execute_and_settle_graft split_def cong: if_cong)

lemma handle_market_bid_graft:
  "handle_market_bid oc st (graft pub p) msg a market qty =
     map_option (graft_outcome pub) (handle_market_bid oc st p msg a market qty)"
  by (simp add: handle_market_bid_def Let_def push_simps graft_simps execute_and_settle_graft split_def cong: if_cong)

lemma emit_depth_graft:
  "emit_depth oc st (graft pub p) a market = map_option (graft pub) (emit_depth oc st p a market)"
  by (cases "get_orderbook st a") (simp_all add: emit_depth_def Let_def push_simps graft_simps)

lemma handle_order_graft:
  "handle_order oc st (graft pub p) msg = map_option (graft_out pub) (handle_order oc st p msg)"
proof -
  have branch: "(case om_order_type msg of
        Limit \<Rightarrow> handle_limit oc st (graft pub p) msg a market s qty
      | Market \<Rightarrow> (case s of
          Ask \<Rightarrow> handle_market_ask oc st (graft pub p) msg a market qty
        | Bid \<Rightarrow> handle_market_bid oc st (graft pub p) msg a market qty)) =
      map_option (graft_outcome pub) (case om_order_type msg of
        Limit \<Rightarrow> handle_limit oc st p msg a market s qty
      | Market \<Rightarrow> (case s of
          Ask \<Rightarrow> handle_market_ask oc st p msg a market qty
        | Bid \<Rightarrow> handle_market_bid oc st p msg a market qty))" for a market s qty
    by (simp add: handle_limit_graft handle_market_ask_graft handle_market_bid_graft split: order_type.split side.split)
  show ?thesis
    by (cases "parse_side (om_side msg)")
      (simp_all only: handle_order_def Let_def option.case branch graft_errors push_simps split_def fst_conv snd_conv
        option.map if_distrib [of "map_option f" for f] emit_depth_graft prod.case cong: if_cong)
qed

lemma handle_cancel_graft:
  "handle_cancel oc st (graft pub p) msg = map_option (graft_out pub) (handle_cancel oc st p msg)"
  by (simp add: handle_cancel_def Let_def push_simps graft_simps emit_depth_graft split_def option.case_distrib [of "map_option f" for f] del: cancel_in.simps cong: option.case_cong)

lemma account_graft:
  "handle_signup st (graft pub p) m1 = map_option (graft_out pub) (handle_signup st p m1)"
  "handle_onramp oc st (graft pub p) m2 = map_option (graft_out pub) (handle_onramp oc st p m2)"
  "handle_deposit oc st (graft pub p) m3 = map_option (graft_out pub) (handle_deposit oc st p m3)"
  "handle_reset st (graft pub p) m4 = graft_out pub (handle_reset st p m4)"
  by (simp_all add: handle_signup_def handle_onramp_def handle_deposit_def handle_reset_def Let_def push_simps graft_simps)

lemma query_graft:
  "handle_balance st (graft pub p) m1 = graft pub (handle_balance st p m1)"
  "handle_get_orderbook oc st (graft pub p) m2 = map_option (graft pub) (handle_get_orderbook oc st p m2)"
  "handle_get_open_orders st (graft pub p) m3 = graft pub (handle_get_open_orders st p m3)"
  "handle_get_order_status st (graft pub p) m4 = graft pub (handle_get_order_status st p m4)"
  by (simp_all add: handle_balance_def handle_get_orderbook_def handle_get_open_orders_def
      handle_get_order_status_def Let_def push_simps graft_simps split: option.split)

end
