(* ===== verification/Ledger.thy ===== *)
theory Ledger
  imports Engine_State
begin

text \<open>
  The balances as ledgers. The locale \<open>accounts\<close> is the interface between the handlers and the
  balance maps: a family of accounts, assignment to one of them, and the total over all. Locking,
  unlocking, crediting and debiting are analysed once inside it, and the USD balances and the
  balances of each asset are its two interpretations.
\<close>

section \<open>The interface\<close>

definition funds :: "balance \<Rightarrow> nat" where
  "funds b = available b + locked b"

lemma funds_default [simp]: "funds balance_default = 0"
  by (simp add: funds_def balance_default_def)

locale accounts =
  fixes bal :: "'s \<Rightarrow> 'k \<Rightarrow> balance"
    and put :: "'k \<Rightarrow> balance \<Rightarrow> 's \<Rightarrow> 's"
    and total :: "'s \<Rightarrow> nat"
    and wf :: "'s \<Rightarrow> bool"
  assumes bal_put: "bal (put k b s) k' = (if k' = k then b else bal s k')"
    and wf_put: "wf s \<Longrightarrow> wf (put k b s)"
    and total_put: "wf s \<Longrightarrow> total (put k b s) + funds (bal s k) = total s + funds b"
    and total_ge: "wf s \<Longrightarrow> funds (bal s k) \<le> total s"
begin

text \<open>The four movements of the handlers, without their arithmetic checks.\<close>

definition credit :: "'k \<Rightarrow> nat \<Rightarrow> 's \<Rightarrow> 's" where
  "credit k x s = put k ((bal s k)\<lparr>available := available (bal s k) + x\<rparr>) s"

definition debit :: "'k \<Rightarrow> nat \<Rightarrow> 's \<Rightarrow> 's" where
  "debit k x s = put k ((bal s k)\<lparr>locked := locked (bal s k) - x\<rparr>) s"

definition lock :: "'k \<Rightarrow> nat \<Rightarrow> 's \<Rightarrow> 's" where
  "lock k x s = put k ((bal s k)\<lparr>available := available (bal s k) - x, locked := locked (bal s k) + x\<rparr>) s"

definition unlock :: "'k \<Rightarrow> nat \<Rightarrow> 's \<Rightarrow> 's" where
  "unlock k x s = put k ((bal s k)\<lparr>locked := locked (bal s k) - x, available := available (bal s k) + x\<rparr>) s"

lemmas movement_defs = credit_def debit_def lock_def unlock_def

lemma movements_wf:
  assumes "wf s"
  shows "wf (credit k x s)" and "wf (debit k x s)" and "wf (lock k x s)" and "wf (unlock k x s)"
  using assms by (simp_all add: movement_defs wf_put)

lemma movements_bal:
  "available (bal (credit k x s) k') = available (bal s k') + (if k' = k then x else 0)"
  "locked (bal (credit k x s) k') = locked (bal s k')"
  "available (bal (debit k x s) k') = available (bal s k')"
  "locked (bal (debit k x s) k') = locked (bal s k') - (if k' = k then x else 0)"
  "available (bal (lock k x s) k') = available (bal s k') - (if k' = k then x else 0)"
  "locked (bal (lock k x s) k') = locked (bal s k') + (if k' = k then x else 0)"
  "available (bal (unlock k x s) k') = available (bal s k') + (if k' = k then x else 0)"
  "locked (bal (unlock k x s) k') = locked (bal s k') - (if k' = k then x else 0)"
  by (simp_all add: movement_defs bal_put)

lemma movements_total:
  assumes "wf s"
  shows "total (credit k x s) = total s + x"
    and "x \<le> locked (bal s k) \<Longrightarrow> total (debit k x s) = total s - x"
    and "x \<le> available (bal s k) \<Longrightarrow> total (lock k x s) = total s"
    and "x \<le> locked (bal s k) \<Longrightarrow> total (unlock k x s) = total s"
  using total_put [OF assms, of k "(bal s k)\<lparr>available := available (bal s k) + x\<rparr>"]
    total_put [OF assms, of k "(bal s k)\<lparr>locked := locked (bal s k) - x\<rparr>"]
    total_put [OF assms, of k "(bal s k)\<lparr>available := available (bal s k) - x, locked := locked (bal s k) + x\<rparr>"]
    total_put [OF assms, of k "(bal s k)\<lparr>locked := locked (bal s k) - x, available := available (bal s k) + x\<rparr>"]
    total_ge [OF assms, of k]
  by (simp_all add: movement_defs funds_def)

text \<open>What one account can spend and another can lock fit into the total together.\<close>

lemma total_ge_both:
  assumes "wf s"
  shows "available (bal s k) + locked (bal s k') \<le> total s"
  using movements_total(2) [OF assms order_refl, of k']
    total_ge [OF movements_wf(2) [OF assms, of k' "locked (bal s k')"], of k]
    total_ge [OF assms, of k']
  by (simp add: movements_bal funds_def split: if_splits)

text \<open>The accounts of any set of users are part of the total.\<close>

lemma total_ge_sum:
  assumes "finite U" and "wf s"
  shows "(\<Sum>u\<in>U. funds (bal s u)) \<le> total s"
  using assms
proof (induction U arbitrary: s)
  case (insert x F)
  let ?s = "put x balance_default s"
  have "(\<Sum>u\<in>F. funds (bal ?s u)) = (\<Sum>u\<in>F. funds (bal s u))"
    using insert.hyps by (intro sum.cong refl) (auto simp: bal_put)
  moreover have "(\<Sum>u\<in>F. funds (bal ?s u)) \<le> total ?s"
    by (rule insert.IH [OF wf_put [OF insert.prems]])
  moreover have "total ?s + funds (bal s x) = total s"
    using total_put [OF insert.prems, of x balance_default] by simp
  ultimately show ?case
    using insert.hyps by simp
qed simp

lemma locked_sum_le:
  assumes "finite U" and "wf s" and "\<And>u. f u \<le> locked (bal s u)"
  shows "(\<Sum>u\<in>U. f u) \<le> total s"
proof -
  have "(\<Sum>u\<in>U. f u) \<le> (\<Sum>u\<in>U. funds (bal s u))"
    using assms(3) by (intro sum_mono) (simp add: funds_def le_trans [OF _ le_add2])
  then show ?thesis
    using total_ge_sum [OF assms(1,2)] by simp
qed

text \<open>The checked assignments of the code are these movements whenever they are in range.\<close>

lemma assignments_ok:
  shows "available (bal s k) + x < u64_lim \<Longrightarrow>
      map_option (\<lambda>b. put k b s) (available_add oc x (bal s k)) = Some (credit k x s)"
    and "x \<le> locked (bal s k) \<Longrightarrow>
      map_option (\<lambda>b. put k b s) (locked_sub oc x (bal s k)) = Some (debit k x s)"
    and "wf s \<Longrightarrow> total s < u64_lim \<Longrightarrow> x \<le> available (bal s k) \<Longrightarrow>
      map_option (\<lambda>b. put k b s) (lock_funds oc x (bal s k)) = Some (lock k x s)"
    and "wf s \<Longrightarrow> total s < u64_lim \<Longrightarrow> x \<le> locked (bal s k) \<Longrightarrow>
      map_option (\<lambda>b. put k b s) (unlock_funds oc x (bal s k)) = Some (unlock k x s)"
  using total_ge [of s k]
  by (simp_all add: movement_defs available_add_def locked_sub_def lock_funds_def unlock_funds_def
      available_sub_def locked_add_def u64_simps funds_def)

end

section \<open>The two kinds of account\<close>

definition usd_put :: "nat \<Rightarrow> balance \<Rightarrow> engine_state \<Rightarrow> engine_state" where
  "usd_put u b st = st\<lparr>usd_balance := hm_insert u b (usd_balance st)\<rparr>"

definition stock_put :: "string \<Rightarrow> nat \<Rightarrow> balance \<Rightarrow> engine_state \<Rightarrow> engine_state" where
  "stock_put a u b st = st\<lparr>stock_balance := hm_insert u (hm_insert a b (assets_of st u)) (stock_balance st)\<rparr>"

definition usd_total :: "engine_state \<Rightarrow> nat" where
  "usd_total st = sum_of (\<lambda>(u, b). funds b) (usd_balance st)"

definition asset_total :: "string \<Rightarrow> engine_state \<Rightarrow> nat" where
  "asset_total a st = sum_of (\<lambda>(u, m). funds (hm_get_or balance_default m a)) (stock_balance st)"

definition ledger_wf :: "engine_state \<Rightarrow> bool" where
  "ledger_wf st \<longleftrightarrow> hm_wf (usd_balance st) \<and> hm_wf (stock_balance st) \<and>
     (\<forall>(u, m) \<in> set (stock_balance st). hm_wf m)"

lemma ledger_wf_assets: "ledger_wf st \<Longrightarrow> hm_wf (assets_of st u)"
  by (auto simp: ledger_wf_def hm_get_or_def split: option.splits dest!: map_of_SomeD)

lemma usd_modify_put: "usd_modify u f st = map_option (\<lambda>b. usd_put u b st) (f (usd_of st u))"
  by (cases "f (usd_of st u)") (simp_all add: usd_modify_def usd_put_def)

lemma stock_modify_put: "stock_modify u a f st = map_option (\<lambda>b. stock_put a u b st) (f (asset_of st u a))"
  by (cases "f (asset_of st u a)") (simp_all add: stock_modify_def stock_put_def)

lemma hm_get_or_nil [simp]: "hm_get_or d [] k = d"
  by (simp add: hm_get_or_def)

lemma stock_entries_wf:
  assumes "ledger_wf st" and "hm_wf m"
  shows "hm_wf (hm_insert u m (stock_balance st))"
    and "\<forall>(u, m) \<in> set (hm_insert u m (stock_balance st)). hm_wf m"
proof -
  have wf: "hm_wf (stock_balance st)" "\<forall>(u, m) \<in> set (stock_balance st). hm_wf m"
    using assms(1) by (auto simp: ledger_wf_def)
  then show *: "hm_wf (hm_insert u m (stock_balance st))" by (auto intro: AList.distinct_update)
  show "\<forall>(u, m) \<in> set (hm_insert u m (stock_balance st)). hm_wf m"
  proof clarify
    fix v n assume "(v, n) \<in> set (hm_insert u m (stock_balance st))"
    then have "(if v = u then Some m else hm_get (stock_balance st) v) = Some n"
      using * by (simp add: AList.update_conv' flip: map_of_eq_Some_iff)
    then show "hm_wf n" using wf(2) assms(2) by (auto split: if_splits dest: map_of_SomeD)
  qed
qed

lemma stock_put_wf: "ledger_wf st \<Longrightarrow> ledger_wf (stock_put a u b st)"
  using stock_entries_wf [of st "hm_insert a b (assets_of st u)" u] ledger_wf_assets [of st u]
  by (simp add: ledger_wf_def stock_put_def AList.distinct_update)

lemma asset_of_put [kv_simps]:
  "asset_of (stock_put a u b st) v a' = (if v = u \<and> a' = a then b else asset_of st v a')"
  by (simp add: stock_put_def kv_simps)

lemma asset_total_put:
  assumes "ledger_wf st"
  shows "asset_total a' (stock_put a u b st) + funds (asset_of st u a') =
    asset_total a' st + (if a' = a then funds b else funds (asset_of st u a'))"
  using hm_total_insert [of "stock_balance st" "\<lambda>(u, m). funds (hm_get_or balance_default m a')" "[]" u
      "hm_insert a b (assets_of st u)"] assms
  by (auto simp: asset_total_def stock_put_def ledger_wf_def kv_simps)

lemma asset_total_put_other [kv_simps]:
  "ledger_wf st \<Longrightarrow> a' \<noteq> a \<Longrightarrow> asset_total a' (stock_put a u b st) = asset_total a' st"
  using asset_total_put [of st a' a u b] by simp

interpretation usd: accounts usd_of usd_put usd_total ledger_wf
proof
  fix st u b v
  show "usd_of (usd_put u b st) v = (if v = u then b else usd_of st v)"
    by (simp add: usd_put_def kv_simps)
  assume wf: "ledger_wf st"
  then show "ledger_wf (usd_put u b st)"
    by (simp add: ledger_wf_def usd_put_def AList.distinct_update)
  show "usd_total (usd_put u b st) + funds (usd_of st u) = usd_total st + funds b"
    using hm_total_insert [of "usd_balance st" "\<lambda>(u, b). funds b" balance_default u b] wf
    by (simp add: usd_total_def usd_put_def ledger_wf_def)
  show "funds (usd_of st u) \<le> usd_total st"
    using hm_total_ge [of "usd_balance st" "\<lambda>(u, b). funds b" balance_default u] wf
    by (simp add: usd_total_def ledger_wf_def)
qed

interpretation asset: accounts "\<lambda>st u. asset_of st u a" "stock_put a" "asset_total a" ledger_wf for a
proof
  fix st u b v
  show "asset_of (stock_put a u b st) v a = (if v = u then b else asset_of st v a)"
    by (simp add: kv_simps)
  assume wf: "ledger_wf st"
  then show "ledger_wf (stock_put a u b st)" by (rule stock_put_wf)
  show "asset_total a (stock_put a u b st) + funds (asset_of st u a) = asset_total a st + funds b"
    using asset_total_put [OF wf, of a a u b] by simp
  show "funds (asset_of st u a) \<le> asset_total a st"
    using hm_total_ge [of "stock_balance st" "\<lambda>(u, m). funds (hm_get_or balance_default m a)" "[]" u] wf
    by (simp add: asset_total_def ledger_wf_def)
qed

section \<open>What an update leaves alone\<close>

definition same_market :: "engine_state \<Rightarrow> engine_state \<Rightarrow> bool" where
  "same_market st st' \<longleftrightarrow> sol_orderbook st' = sol_orderbook st \<and> btc_orderbook st' = btc_orderbook st \<and>
     eth_orderbook st' = eth_orderbook st \<and> next_order_id st' = next_order_id st \<and>
     es_fee_schedule st' = es_fee_schedule st"

lemma same_market_refl [simp]: "same_market st st"
  by (simp add: same_market_def)

lemma same_market_trans: "same_market st st' \<Longrightarrow> same_market st' st'' \<Longrightarrow> same_market st st''"
  by (simp add: same_market_def)

lemma same_market_book: "same_market st st' \<Longrightarrow> book_of st' a = book_of st a"
  by (simp add: same_market_def book_of_def)

lemma same_market_put [simp]: "same_market st (usd_put u b st)" "same_market st (stock_put a u b st)"
  by (simp_all add: same_market_def usd_put_def stock_put_def)

lemma put_frames [frame_simps]:
  "asset_of (usd_put u b st) v a = asset_of st v a"
  "asset_total a (usd_put u b st) = asset_total a st"
  "usd_of (stock_put a u b st) v = usd_of st v"
  "usd_total (stock_put a u b st) = usd_total st"
  by (simp_all add: usd_put_def stock_put_def asset_total_def usd_total_def)

lemma book_frames [frame_simps]:
  "usd_of (put_orderbook a b st) = usd_of st" "assets_of (put_orderbook a b st) = assets_of st"
  "usd_total (put_orderbook a b st) = usd_total st"
  "asset_total a' (put_orderbook a b st) = asset_total a' st"
  "ledger_wf (put_orderbook a b st) = ledger_wf st"
  by (simp_all add: fun_eq_iff frame_simps usd_total_def asset_total_def ledger_wf_def)

lemma id_frames [frame_simps]:
  "usd_of (st\<lparr>next_order_id := n\<rparr>) = usd_of st" "assets_of (st\<lparr>next_order_id := n\<rparr>) = assets_of st"
  "usd_total (st\<lparr>next_order_id := n\<rparr>) = usd_total st"
  "asset_total a' (st\<lparr>next_order_id := n\<rparr>) = asset_total a' st"
  "ledger_wf (st\<lparr>next_order_id := n\<rparr>) = ledger_wf st"
  "book_of (st\<lparr>next_order_id := n\<rparr>) = book_of st"
  by (simp_all add: fun_eq_iff usd_total_def asset_total_def ledger_wf_def book_of_def)

lemmas ledger_movement_defs = usd.movement_defs asset.movement_defs

lemma movement_frames [frame_simps]:
  "asset_of (usd.credit u x st) v a = asset_of st v a" "asset_of (usd.debit u x st) v a = asset_of st v a"
  "asset_of (usd.lock u x st) v a = asset_of st v a" "asset_of (usd.unlock u x st) v a = asset_of st v a"
  "asset_total a (usd.credit u x st) = asset_total a st" "asset_total a (usd.debit u x st) = asset_total a st"
  "asset_total a (usd.lock u x st) = asset_total a st" "asset_total a (usd.unlock u x st) = asset_total a st"
  "usd_of (asset.credit a u x st) v = usd_of st v" "usd_of (asset.debit a u x st) v = usd_of st v"
  "usd_of (asset.lock a u x st) v = usd_of st v" "usd_of (asset.unlock a u x st) v = usd_of st v"
  "usd_total (asset.credit a u x st) = usd_total st" "usd_total (asset.debit a u x st) = usd_total st"
  "usd_total (asset.lock a u x st) = usd_total st" "usd_total (asset.unlock a u x st) = usd_total st"
  by (simp_all add: ledger_movement_defs put_frames)

lemma movement_market [simp]:
  "same_market st (usd.credit u x st') = same_market st st'" "same_market st (usd.debit u x st') = same_market st st'"
  "same_market st (usd.lock u x st') = same_market st st'" "same_market st (usd.unlock u x st') = same_market st st'"
  "same_market st (asset.credit a u x st') = same_market st st'"
  "same_market st (asset.debit a u x st') = same_market st st'"
  "same_market st (asset.lock a u x st') = same_market st st'"
  "same_market st (asset.unlock a u x st') = same_market st st'"
  by (simp_all add: ledger_movement_defs same_market_def usd_put_def stock_put_def)

text \<open>The assignments of the code, in range.\<close>

lemma usd_assign_ok:
  shows "available (usd_of st u) + x < u64_lim \<Longrightarrow>
      usd_modify u (available_add oc x) st = Some (usd.credit u x st)"
    and "x \<le> locked (usd_of st u) \<Longrightarrow> usd_modify u (locked_sub oc x) st = Some (usd.debit u x st)"
    and "ledger_wf st \<Longrightarrow> usd_total st < u64_lim \<Longrightarrow> x \<le> available (usd_of st u) \<Longrightarrow>
      usd_modify u (lock_funds oc x) st = Some (usd.lock u x st)"
    and "ledger_wf st \<Longrightarrow> usd_total st < u64_lim \<Longrightarrow> x \<le> locked (usd_of st u) \<Longrightarrow>
      usd_modify u (unlock_funds oc x) st = Some (usd.unlock u x st)"
  by (simp_all only: usd_modify_put usd.assignments_ok)

lemma asset_assign_ok:
  assumes "supported a"
  shows "available (asset_of st u a) + x < u64_lim \<Longrightarrow>
      asset_modify u a (available_add oc x) st = Some (asset.credit a u x st)"
    and "x \<le> locked (asset_of st u a) \<Longrightarrow> asset_modify u a (locked_sub oc x) st = Some (asset.debit a u x st)"
    and "ledger_wf st \<Longrightarrow> asset_total a st < u64_lim \<Longrightarrow> x \<le> available (asset_of st u a) \<Longrightarrow>
      asset_modify u a (lock_funds oc x) st = Some (asset.lock a u x st)"
    and "ledger_wf st \<Longrightarrow> asset_total a st < u64_lim \<Longrightarrow> x \<le> locked (asset_of st u a) \<Longrightarrow>
      asset_modify u a (unlock_funds oc x) st = Some (asset.unlock a u x st)"
  by (simp_all only: asset_modify_def supported_lower [OF assms] stock_modify_put asset.assignments_ok)

lemma movement_other_asset [frame_simps]:
  "a' \<noteq> a \<Longrightarrow> asset_of (asset.credit a u x st) v a' = asset_of st v a'"
  "a' \<noteq> a \<Longrightarrow> asset_of (asset.debit a u x st) v a' = asset_of st v a'"
  "a' \<noteq> a \<Longrightarrow> asset_of (asset.lock a u x st) v a' = asset_of st v a'"
  "a' \<noteq> a \<Longrightarrow> asset_of (asset.unlock a u x st) v a' = asset_of st v a'"
  by (simp_all add: ledger_movement_defs asset_of_put)

lemma movement_other_total [frame_simps]:
  assumes "ledger_wf st" and "a' \<noteq> a"
  shows "asset_total a' (asset.credit a u x st) = asset_total a' st"
    and "asset_total a' (asset.debit a u x st) = asset_total a' st"
    and "asset_total a' (asset.lock a u x st) = asset_total a' st"
    and "asset_total a' (asset.unlock a u x st) = asset_total a' st"
  using assms by (simp_all add: ledger_movement_defs asset_total_put_other)

text \<open>Creating a missing entry is invisible to every query.\<close>

lemma touch_frames [frame_simps]:
  "usd_of (usd_touch u st) = usd_of st" "assets_of (usd_touch u st) = assets_of st"
  "usd_total (usd_touch u st) = usd_total st" "asset_total a (usd_touch u st) = asset_total a st"
  "same_market st (usd_touch u st)"
  by (simp_all add: fun_eq_iff usd_touch_def kv_simps usd_total_def asset_total_def same_market_def
      hm_entry_total)

lemma usd_touch_wf: "ledger_wf st \<Longrightarrow> ledger_wf (usd_touch u st)"
  by (simp add: ledger_wf_def usd_touch_def hm_wf_entry)

lemma stock_touch_frames [frame_simps]:
  "usd_of (stock_touch u a st) = usd_of st" "asset_of (stock_touch u a st) v a' = asset_of st v a'"
  "usd_total (stock_touch u a st) = usd_total st" "same_market st (stock_touch u a st)"
  by (simp_all add: fun_eq_iff stock_touch_def kv_simps usd_total_def same_market_def)

lemma stock_touch_total [frame_simps]:
  assumes "ledger_wf st"
  shows "asset_total a' (stock_touch u a st) = asset_total a' st"
  using hm_total_insert [of "stock_balance st" "\<lambda>(u, m). funds (hm_get_or balance_default m a')" "[]" u
      "hm_entry_or balance_default a (assets_of st u)"] assms
  by (simp add: asset_total_def stock_touch_def ledger_wf_def kv_simps)

lemma stock_touch_wf: "ledger_wf st \<Longrightarrow> ledger_wf (stock_touch u a st)"
  using stock_entries_wf [of st "hm_entry_or balance_default a (assets_of st u)" u]
    hm_wf_entry [OF ledger_wf_assets [of st u]]
  by (simp add: ledger_wf_def stock_touch_def)

end
