(* ===== verification/Settlement.thy ===== *)
theory Settlement
  imports Ledger Handlers
begin

text \<open>
  What the settlement loop does to the balances, exactly: every account is debited and credited by
  the trades it takes part in, nobody else is touched, no unit of USD or of an asset is created or
  lost, and no step under- or overflows as long as the locked funds cover the trades.
\<close>

section \<open>The effect of a list of trades\<close>

definition trade_value :: "trade \<Rightarrow> nat" where
  "trade_value t = tr_price t * tr_qty t"

definition buyer_fee :: "fee_schedule \<Rightarrow> trade \<Rightarrow> nat" where
  "buyer_fee fs t = (case tr_taker_side t of Bid \<Rightarrow> taker_fee fs (trade_value t) | Ask \<Rightarrow> maker_fee fs (trade_value t))"

definition seller_fee :: "fee_schedule \<Rightarrow> trade \<Rightarrow> nat" where
  "seller_fee fs t = (case tr_taker_side t of Bid \<Rightarrow> maker_fee fs (trade_value t) | Ask \<Rightarrow> taker_fee fs (trade_value t))"

definition usd_debit :: "fee_schedule \<Rightarrow> trade list \<Rightarrow> nat \<Rightarrow> nat" where
  "usd_debit fs ts u = sum_of (\<lambda>t. if tr_buyer t = u then trade_value t + buyer_fee fs t else 0) ts"

definition usd_credit :: "fee_schedule \<Rightarrow> trade list \<Rightarrow> nat \<Rightarrow> nat" where
  "usd_credit fs ts u = sum_of (\<lambda>t. (if tr_seller t = u then trade_value t - seller_fee fs t else 0) +
     (if u = 0 then buyer_fee fs t + seller_fee fs t else 0)) ts"

definition asset_debit :: "trade list \<Rightarrow> nat \<Rightarrow> nat" where
  "asset_debit ts u = sum_of (\<lambda>t. if tr_seller t = u then tr_qty t else 0) ts"

definition asset_credit :: "trade list \<Rightarrow> nat \<Rightarrow> nat" where
  "asset_credit ts u = sum_of (\<lambda>t. if tr_buyer t = u then tr_qty t else 0) ts"

lemmas effect_defs = usd_debit_def usd_credit_def asset_debit_def asset_credit_def

definition settled :: "string \<Rightarrow> trade list \<Rightarrow> engine_state \<Rightarrow> engine_state \<Rightarrow> bool" where
  "settled a ts st st' \<longleftrightarrow> ledger_wf st' \<and> same_market st st' \<and>
     (\<forall>u. available (usd_of st' u) = available (usd_of st u) + usd_credit (es_fee_schedule st) ts u) \<and>
     (\<forall>u. locked (usd_of st' u) = locked (usd_of st u) - usd_debit (es_fee_schedule st) ts u) \<and>
     (\<forall>u. available (asset_of st' u a) = available (asset_of st u a) + asset_credit ts u) \<and>
     (\<forall>u. locked (asset_of st' u a) = locked (asset_of st u a) - asset_debit ts u) \<and>
     (\<forall>u. usd_debit (es_fee_schedule st) ts u \<le> locked (usd_of st u)) \<and> (\<forall>u. asset_debit ts u \<le> locked (asset_of st u a)) \<and>
     (\<forall>u a'. a' \<noteq> a \<longrightarrow> asset_of st' u a' = asset_of st u a') \<and>
     usd_total st' = usd_total st \<and> (\<forall>a'. asset_total a' st' = asset_total a' st)"

lemma effect_cons:
  "usd_debit fs (t # ts) u = usd_debit fs [t] u + usd_debit fs ts u"
  "usd_credit fs (t # ts) u = usd_credit fs [t] u + usd_credit fs ts u"
  "asset_debit (t # ts) u = asset_debit [t] u + asset_debit ts u"
  "asset_credit (t # ts) u = asset_credit [t] u + asset_credit ts u"
  by (simp_all add: effect_defs)

lemma settled_nil: "ledger_wf st \<Longrightarrow> settled a [] st st"
  by (simp add: settled_def effect_defs)

lemma settled_cons:
  assumes "settled a [t] st st1" and "settled a ts st1 st2"
  shows "settled a (t # ts) st st2"
proof -
  have fees: "es_fee_schedule st1 = es_fee_schedule st" and market: "same_market st st2"
    using assms same_market_trans by (auto simp: settled_def same_market_def)
  note effects = effect_cons [where t = t and ts = ts]
  have "x + y \<le> l" if "y \<le> l - x" and "x \<le> l" for x y l :: nat using that by simp
  then show ?thesis
    using assms market unfolding settled_def fees by (simp add: effects add.assoc)
qed

section \<open>One fill\<close>

definition trade_fits :: "fee_schedule \<Rightarrow> trade \<Rightarrow> bool" where
  "trade_fits fs t \<longleftrightarrow> trade_value t < u64_lim \<and> trade_value t * max_bps fs < u64_lim"

lemma bps_fits:
  assumes "v * max_bps fs < u64_lim"
  shows "v * taker_fee_bps fs < u64_lim" "v * maker_fee_bps fs < u64_lim"
  using assms
  by (auto intro: le_less_trans [OF mult_le_mono2, rotated] simp: max_bps_def)

lemma fill_fees_ok:
  assumes "trade_fits fs t"
  shows "fill_fees oc fs (tr_taker_side t) (trade_value t) = Some (buyer_fee fs t, seller_fee fs t)"
  using bps_fits [of "trade_value t" fs] assms
  by (simp add: fill_fees_def buyer_fee_def seller_fee_def trade_fits_def u64_simps split: side.splits)

lemma seller_fee_le: "fees_ok fs \<Longrightarrow> seller_fee fs t \<le> trade_value t"
  by (simp add: seller_fee_def fees_ok_def fee_of_le split: side.splits)

lemma buyer_fee_le: "fees_ok fs \<Longrightarrow> buyer_fee fs t \<le> trade_value t"
  by (simp add: buyer_fee_def fees_ok_def fee_of_le split: side.splits)

text \<open>The five assignments of \<^verbatim>\<open>apply_fill\<close>, without their arithmetic checks.\<close>

definition filled :: "string \<Rightarrow> trade \<Rightarrow> engine_state \<Rightarrow> engine_state" where
  "filled a t st =
     (let fs = es_fee_schedule st; fee = buyer_fee fs t + seller_fee fs t;
          st4 = usd.credit (tr_seller t) (trade_value t - seller_fee fs t)
            (asset.debit a (tr_seller t) (tr_qty t)
              (asset.credit a (tr_buyer t) (tr_qty t)
                (usd.debit (tr_buyer t) (trade_value t + buyer_fee fs t) st)))
      in if fee > 0 then usd.credit 0 fee st4 else st4)"

lemmas ledger_wfs = usd.movements_wf asset.movements_wf
lemmas ledger_bals = usd.movements_bal asset.movements_bal

lemma filled_same_market: "same_market st (filled a t st)"
  unfolding filled_def Let_def by simp

lemma filled_balances:
  "available (usd_of (filled a t st) u) = available (usd_of st u) + usd_credit (es_fee_schedule st) [t] u"
  "locked (usd_of (filled a t st) u) = locked (usd_of st u) - usd_debit (es_fee_schedule st) [t] u"
  "available (asset_of (filled a t st) u a) = available (asset_of st u a) + asset_credit [t] u"
  "locked (asset_of (filled a t st) u a) = locked (asset_of st u a) - asset_debit [t] u"
  "a' \<noteq> a \<Longrightarrow> asset_of (filled a t st) u a' = asset_of st u a'"
  by (auto simp: filled_def Let_def ledger_bals frame_simps effect_defs)

lemma filled_totals:
  assumes wf: "ledger_wf st" and fee: "seller_fee (es_fee_schedule st) t \<le> trade_value t"
    and usd: "trade_value t + buyer_fee (es_fee_schedule st) t \<le> locked (usd_of st (tr_buyer t))"
    and asset: "tr_qty t \<le> locked (asset_of st (tr_seller t) a)"
  shows "ledger_wf (filled a t st)" and "usd_total (filled a t st) = usd_total st"
    and "asset_total a' (filled a t st) = asset_total a' st"
proof -
  show "ledger_wf (filled a t st)"
    using wf by (auto simp: filled_def Let_def ledger_wfs)
  have "trade_value t + buyer_fee (es_fee_schedule st) t \<le> usd_total st"
    using usd usd.total_ge [OF wf, of "tr_buyer t"] by (simp add: funds_def)
  then show "usd_total (filled a t st) = usd_total st"
    using usd fee wf by (auto simp: filled_def Let_def usd.movements_total ledger_wfs frame_simps)
  show "asset_total a' (filled a t st) = asset_total a' st"
    using asset wf
    by (cases "a' = a") (auto simp: filled_def Let_def asset.movements_total ledger_wfs ledger_bals frame_simps)
qed

lemma filled_settled:
  assumes wf: "ledger_wf st" and fees: "fees_ok (es_fee_schedule st)"
    and usd: "trade_value t + buyer_fee (es_fee_schedule st) t \<le> locked (usd_of st (tr_buyer t))"
    and asset: "tr_qty t \<le> locked (asset_of st (tr_seller t) a)"
  shows "settled a [t] st (filled a t st)"
proof -
  have "usd_debit (es_fee_schedule st) [t] u \<le> locked (usd_of st u)" "asset_debit [t] u \<le> locked (asset_of st u a)" for u
    using usd asset by (auto simp: effect_defs)
  then show ?thesis
    using filled_totals [OF wf _ usd asset] seller_fee_le [of "es_fee_schedule st" t] fees filled_balances filled_same_market
    by (simp add: settled_def)
qed

lemma apply_fill_settles:
  assumes wf: "ledger_wf st" and a: "supported a"
    and fits: "usd_total st < u64_lim" "asset_total a st < u64_lim" "trade_fits (es_fee_schedule st) t"
    and fees: "fees_ok (es_fee_schedule st)"
    and usd: "trade_value t + buyer_fee (es_fee_schedule st) t \<le> locked (usd_of st (tr_buyer t))"
    and asset: "tr_qty t \<le> locked (asset_of st (tr_seller t) a)"
  shows "apply_fill oc a t st =
      Some (filled a t st, buyer_fee (es_fee_schedule st) t, seller_fee (es_fee_schedule st) t)"
    and "settled a [t] st (filled a t st)"
proof -
  define fs where "fs = es_fee_schedule st"
  define bf sf v where "bf = buyer_fee fs t" and "sf = seller_fee fs t" and "v = trade_value t"
  note vals = bf_def sf_def v_def
  have sf: "sf \<le> v" using seller_fee_le [of fs t] fees by (simp add: fs_def vals)
  show "settled a [t] st (filled a t st)" by (rule filled_settled [OF wf fees usd asset])
  define st1 where "st1 = usd.debit (tr_buyer t) (v + bf) st"
  define st2 where "st2 = asset.credit a (tr_buyer t) (tr_qty t) st1"
  define st3 where "st3 = asset.debit a (tr_seller t) (tr_qty t) st2"
  define st4 where "st4 = usd.credit (tr_seller t) (v - sf) st3"
  note steps = st1_def st2_def st3_def st4_def
  have usd': "v + bf \<le> locked (usd_of st (tr_buyer t))" and "v + bf \<le> usd_total st"
    using usd usd.total_ge [OF wf, of "tr_buyer t"] by (simp_all add: fs_def vals funds_def)
  then have totals: "usd_total st3 = usd_total st - (v + bf)" "usd_total st4 = usd_total st - (bf + sf)"
    using sf wf by (simp_all add: steps usd.movements_total ledger_wfs frame_simps)
  have wfs: "ledger_wf st1" "ledger_wf st3" "ledger_wf st4"
    using wf by (simp_all add: steps ledger_wfs)
  have "available (asset_of st (tr_buyer t) a) + tr_qty t < u64_lim"
    using asset.total_ge_both [OF wf, of "tr_buyer t" a "tr_seller t"] asset fits(2) by simp
  then have m2: "asset_modify (tr_buyer t) a (available_add oc (tr_qty t)) st1 = Some st2"
    unfolding st2_def by (intro asset_assign_ok(1) [OF a]) (simp add: st1_def frame_simps)
  have m3: "asset_modify (tr_seller t) a (locked_sub oc (tr_qty t)) st2 = Some st3"
    unfolding st3_def by (intro asset_assign_ok(2) [OF a]) (use asset in \<open>simp add: st1_def st2_def ledger_bals frame_simps\<close>)
  have m4: "usd_modify (tr_seller t) (available_add oc (v - sf)) st3 = Some st4"
    unfolding st4_def by (intro usd_assign_ok(1))
      (use usd.total_ge [OF wfs(2), of "tr_seller t"] totals(1) fits(1) \<open>v + bf \<le> usd_total st\<close> in \<open>simp add: funds_def\<close>)
  have m5: "usd_modify 0 (available_add oc (bf + sf)) st4 = Some (usd.credit 0 (bf + sf) st4)"
    by (intro usd_assign_ok(1))
      (use usd.total_ge [OF wfs(3), of 0] totals(2) fits(1) sf \<open>v + bf \<le> usd_total st\<close> in \<open>simp add: funds_def\<close>)
  have "u64_mul oc (tr_price t) (tr_qty t) = Some v"
    using fits(3) by (simp add: trade_fits_def trade_value_def vals u64_simps)
  moreover have "fill_fees oc fs (tr_taker_side t) v = Some (bf, sf)"
    using fill_fees_ok [OF fits(3)] by (simp add: fs_def vals)
  moreover have "v + bf < u64_lim" "bf + sf < u64_lim"
    using \<open>v + bf \<le> usd_total st\<close> sf fits(1) by simp_all
  ultimately have "apply_fill oc a t st = Some (if 0 < bf + sf then usd.credit 0 (bf + sf) st4 else st4, bf, sf)"
    using usd' m2 m3 m4 m5
    by (simp add: apply_fill_def usd_assign_ok u64_simps saturating_sub_def flip: fs_def st1_def)
  then show "apply_fill oc a t st =
      Some (filled a t st, buyer_fee (es_fee_schedule st) t, seller_fee (es_fee_schedule st) t)"
    by (simp add: filled_def steps vals fs_def Let_def)
qed

section \<open>The loop\<close>

definition trade_event :: "fee_schedule \<Rightarrow> string \<Rightarrow> nat \<Rightarrow> trade \<Rightarrow> execution_event" where
  "trade_event fs market maker_rem t = TradeExecuted
     \<lparr>te_maker_order_id = tr_maker_order_id t, te_taker_order_id = tr_taker_order_id t,
      te_buyer_id = tr_buyer t, te_seller_id = tr_seller t, te_market = market,
      te_price = tr_price t, te_qty = tr_qty t, te_quote_amount = trade_value t,
      te_maker_remaining_qty = maker_rem, te_taker_remaining_qty = 0,
      te_buyer_fee = buyer_fee fs t, te_seller_fee = seller_fee fs t\<rparr>"

definition emit_all :: "publisher \<Rightarrow> execution_event list \<Rightarrow> publisher" where
  "emit_all pub evs = map_option (\<lambda>l. l @ map (Xadd STREAM_EXECUTIONS) evs) pub"

lemma emit_all_simps [simp]:
  "emit_all pub [] = pub" "emit_all (emit_execution pub e) evs = emit_all pub (e # evs)"
  "emit_execution (emit_all pub evs) e = emit_all pub (evs @ [e])"
  by (cases pub; simp add: emit_all_def emit_execution_def)+

abbreviation trade_cost :: "fee_schedule \<Rightarrow> trade \<Rightarrow> nat" where
  "trade_cost fs t \<equiv> trade_value t + buyer_fee fs t"

lemma settled_fees: "settled a ts st st' \<Longrightarrow> es_fee_schedule st' = es_fee_schedule st"
  by (simp add: settled_def same_market_def)

lemma settled_maker_remaining: "settled a ts st st' \<Longrightarrow> maker_remaining st' b = maker_remaining st b"
  by (simp add: fun_eq_iff settled_def same_market_def maker_remaining_def get_orderbook_def Let_def)

lemma settle_trade_ok:
  assumes "apply_fill oc a t st = Some (st1, buyer_fee fs t, seller_fee fs t)"
    and "settled a [t] st st1" and "es_fee_schedule st = fs"
    and "trade_fits fs t" and "filled_qty + tr_qty t < u64_lim" and "track \<Longrightarrow> spent + trade_cost fs t < u64_lim"
  shows "settle_trade oc track a market t (st, filled_qty, spent, pub) =
    Some (st1, filled_qty + tr_qty t, if track then spent + trade_cost fs t else spent,
      emit_execution pub (trade_event fs market (maker_remaining st a (tr_maker_order_id t)) t))"
proof -
  have "u64_mul oc (tr_price t) (tr_qty t) = Some (trade_value t)"
    using assms(4) by (simp add: trade_fits_def trade_value_def u64_simps)
  then show ?thesis
    using assms by (cases track) (simp_all add: settle_trade_def trade_event_def u64_simps settled_maker_remaining)
qed

text \<open>The standing conditions under which a list of trades can be settled from a state.\<close>

definition coverable :: "string \<Rightarrow> trade list \<Rightarrow> engine_state \<Rightarrow> bool" where
  "coverable a ts st \<longleftrightarrow> ledger_wf st \<and> supported a \<and> usd_total st < u64_lim \<and> asset_total a st < u64_lim \<and>
     fees_ok (es_fee_schedule st) \<and> (\<forall>t \<in> set ts. trade_fits (es_fee_schedule st) t) \<and>
     (\<forall>u. usd_debit (es_fee_schedule st) ts u \<le> locked (usd_of st u)) \<and>
     (\<forall>u. asset_debit ts u \<le> locked (asset_of st u a))"

lemma coverable_head:
  assumes "coverable a (t # ts) st"
  shows "apply_fill oc a t st =
      Some (filled a t st, buyer_fee (es_fee_schedule st) t, seller_fee (es_fee_schedule st) t)"
    and "settled a [t] st (filled a t st)" and "coverable a ts (filled a t st)"
proof -
  have debits: "usd_debit (es_fee_schedule st) (t # ts) (tr_buyer t) \<le> locked (usd_of st (tr_buyer t))"
    "asset_debit (t # ts) (tr_seller t) \<le> locked (asset_of st (tr_seller t) a)"
    using assms by (simp_all add: coverable_def)
  then have "trade_cost (es_fee_schedule st) t \<le> locked (usd_of st (tr_buyer t))"
    "tr_qty t \<le> locked (asset_of st (tr_seller t) a)"
    by (simp_all add: effect_defs)
  then show "apply_fill oc a t st =
      Some (filled a t st, buyer_fee (es_fee_schedule st) t, seller_fee (es_fee_schedule st) t)"
    and settled: "settled a [t] st (filled a t st)"
    using assms by (auto simp: coverable_def intro!: apply_fill_settles)
  have "usd_debit (es_fee_schedule st) ts u \<le> locked (usd_of st u) - usd_debit (es_fee_schedule st) [t] u"
    "asset_debit ts u \<le> locked (asset_of st u a) - asset_debit [t] u" for u
    using assms effect_cons(1) [of "es_fee_schedule st" t ts u] effect_cons(3) [of t ts u]
    by (auto simp: coverable_def le_diff_conv2 add.commute le_diff_conv2 dest!: spec [of _ u])
  then show "coverable a ts (filled a t st)"
    using assms settled by (auto simp: coverable_def settled_def settled_fees [OF settled])
qed

lemma settle_results_trades:
  assumes "coverable a ts st" and "es_fee_schedule st = fs"
    and "filled_qty + sum_of tr_qty ts < u64_lim" and "track \<Longrightarrow> spent + sum_of (trade_cost fs) ts < u64_lim"
  shows "\<exists>st'. settle_results oc track a market (map MR_Trade ts) ((st, filled_qty, spent, pub), r) =
      Some ((st', filled_qty + sum_of tr_qty ts, if track then spent + sum_of (trade_cost fs) ts else spent,
        emit_all pub (map (\<lambda>t. trade_event fs market (maker_remaining st a (tr_maker_order_id t)) t) ts)), r)
    \<and> settled a ts st st'"
  using assms
proof (induction ts arbitrary: st filled_qty spent pub)
  case Nil
  then show ?case by (simp add: coverable_def settled_nil)
next
  case (Cons t ts)
  let ?st = "filled a t st"
  note head = coverable_head [OF Cons.prems(1)]
  have fees: "es_fee_schedule ?st = fs" and rem: "maker_remaining ?st a = maker_remaining st a"
    using settled_fees [OF head(2)] settled_maker_remaining [OF head(2)] Cons.prems(2) by simp_all
  have step: "settle_trade oc track a market t (st, filled_qty, spent, pub) =
    Some (?st, filled_qty + tr_qty t, if track then spent + trade_cost fs t else spent,
      emit_execution pub (trade_event fs market (maker_remaining st a (tr_maker_order_id t)) t))"
    using Cons.prems by (intro settle_trade_ok head(2)) (auto simp: head(1) coverable_def)
  have "(if track then spent + trade_cost fs t else spent) + sum_of (trade_cost fs) ts < u64_lim" if track
    using Cons.prems(4) that by auto
  from Cons.IH [OF head(3) fees _ this, of "filled_qty + tr_qty t"
      "emit_execution pub (trade_event fs market (maker_remaining st a (tr_maker_order_id t)) t)"]
  show ?case
    using Cons.prems(3) step settled_cons [OF head(2)] by (auto simp: rem add.assoc)
qed

lemma settle_results_append:
  "settle_results oc track a market (xs @ ys) acc =
     settle_results oc track a market xs acc \<bind> settle_results oc track a market ys"
proof (induction xs arbitrary: acc)
  case (Cons x xs)
  then show ?case by (cases x) (auto simp: bind_assoc)
qed simp

end
