(* ===== verification/Engine_Inv.thy ===== *)
theory Engine_Inv
  imports Settlement
begin

text \<open>
  The invariant of the engine. \<open>engine_sound\<close> collects what holds of each part alone: well-formed
  balance maps whose totals fit into 64 bits, three good books, disjoint order ids. \<open>solvent\<close> ties
  the books to the balances: what is locked covers what the resting orders may have to pay. While
  an order is being executed its own funds are locked but not yet on the book, so \<open>solvent\<close> takes
  the amounts reserved beside the books as arguments; between commands these are zero.
\<close>

section \<open>Obligations of resting orders\<close>

text \<open>A resting bid must be able to pay its value and the maker fee, a resting ask its quantity.\<close>

definition order_value :: "order \<Rightarrow> nat" where
  "order_value x = ord_price x * ord_remaining_qty x"

definition order_due :: "fee_schedule \<Rightarrow> order \<Rightarrow> nat" where
  "order_due fs x = order_value x + maker_fee fs (order_value x)"

definition bid_due :: "fee_schedule \<Rightarrow> nat \<Rightarrow> orderbook \<Rightarrow> nat" where
  "bid_due fs u b = sum_of (\<lambda>x. if ord_user_id x = u then order_due fs x else 0) (depth Bid b)"

definition ask_due :: "nat \<Rightarrow> orderbook \<Rightarrow> nat" where
  "ask_due u b = sum_of (\<lambda>x. if ord_user_id x = u then ord_remaining_qty x else 0) (depth Ask b)"

definition usd_due :: "engine_state \<Rightarrow> nat \<Rightarrow> nat" where
  "usd_due st u = sum_of (bid_due (es_fee_schedule st) u) (books st)"

text \<open>
  Locked USD covers the obligation. It exceeds it when the maker fee rounds: the fees of two partial
  fills may add up to less than the fee reserved for both. Without a maker fee it is equal.
\<close>

definition covers :: "fee_schedule \<Rightarrow> nat \<Rightarrow> nat \<Rightarrow> bool" where
  "covers fs due have \<longleftrightarrow> due \<le> have \<and> (maker_fee_bps fs = 0 \<longrightarrow> due = have)"

lemma covers_refl [simp]: "covers fs x x"
  by (simp add: covers_def)

lemma covers_trans: "covers fs x y \<Longrightarrow> covers fs y z \<Longrightarrow> covers fs x z"
  by (auto simp: covers_def)

lemma covers_add: "covers fs a b \<Longrightarrow> covers fs c d \<Longrightarrow> covers fs (a + c) (b + d)"
  by (auto simp: covers_def)

lemma covers_cancel [simp]: "covers fs (a + c) (b + c) \<longleftrightarrow> covers fs a b"
  by (simp add: covers_def)

lemma covers_diff: "covers fs (a + c) b \<longleftrightarrow> c \<le> b \<and> covers fs a (b - c)"
  by (auto simp: covers_def)

section \<open>The invariant\<close>

definition order_fits :: "fee_schedule \<Rightarrow> order \<Rightarrow> bool" where
  "order_fits fs x \<longleftrightarrow> order_value x < u64_lim \<and> order_value x * max_bps fs < u64_lim"

definition book_good :: "fee_schedule \<Rightarrow> nat \<Rightarrow> orderbook \<Rightarrow> bool" where
  "book_good fs n b \<longleftrightarrow> book_inv b \<and> uncrossed b \<and> ob_next_order_id b \<le> n \<and>
     (\<forall>s. \<forall>x \<in> set (depth s b). order_fits fs x)"

definition book_ids :: "orderbook \<Rightarrow> nat set" where
  "book_ids b = ord_order_id ` (set (depth Bid b) \<union> set (depth Ask b))"

definition ids_disjoint :: "engine_state \<Rightarrow> bool" where
  "ids_disjoint st \<longleftrightarrow> (\<forall>a a'. supported a \<longrightarrow> supported a' \<longrightarrow> a \<noteq> a' \<longrightarrow>
     book_ids (book_of st a) \<inter> book_ids (book_of st a') = {})"

definition engine_sound :: "engine_state \<Rightarrow> bool" where
  "engine_sound st \<longleftrightarrow> ledger_wf st \<and> fees_ok (es_fee_schedule st) \<and>
     usd_total st < u64_lim \<and> (\<forall>a. asset_total a st < u64_lim) \<and> ids_disjoint st \<and>
     (\<forall>a. supported a \<longrightarrow> book_good (es_fee_schedule st) (next_order_id st) (book_of st a))"

definition solvent :: "string \<Rightarrow> (nat \<Rightarrow> nat) \<Rightarrow> (nat \<Rightarrow> nat) \<Rightarrow> engine_state \<Rightarrow> bool" where
  "solvent a ru ra st \<longleftrightarrow>
     (\<forall>u. covers (es_fee_schedule st) (usd_due st u + ru u) (locked (usd_of st u))) \<and>
     (\<forall>a' u. supported a' \<longrightarrow>
        locked (asset_of st u a') = ask_due u (book_of st a') + (if a' = a then ra u else 0))"

definition engine_inv :: "engine_state \<Rightarrow> bool" where
  "engine_inv st \<longleftrightarrow> engine_sound st \<and> solvent ''sol'' (\<lambda>_. 0) (\<lambda>_. 0) st"

text \<open>An amount reserved for one user.\<close>

abbreviation only :: "nat \<Rightarrow> nat \<Rightarrow> nat \<Rightarrow> nat" where
  "only uid x u \<equiv> (if u = uid then x else 0)"

abbreviation nobody :: "nat \<Rightarrow> nat" where
  "nobody \<equiv> \<lambda>_. 0"

lemma solvent_nobody: "solvent a ru nobody st \<longleftrightarrow> solvent a' ru nobody st"
  by (simp add: solvent_def)

lemma engine_inv_solvent: "engine_inv st \<longleftrightarrow> engine_sound st \<and> solvent a nobody nobody st"
  using solvent_nobody [of a nobody st "''sol''"] by (simp add: engine_inv_def)

section \<open>Steps that only move balances\<close>

lemma usd_due_market: "same_market st st' \<Longrightarrow> usd_due st' u = usd_due st u"
  by (simp add: same_market_def usd_due_def)

lemma sound_market:
  assumes "engine_sound st" and "same_market st st'" and "ledger_wf st'"
    and "usd_total st' < u64_lim" and "\<And>a. asset_total a st' < u64_lim"
  shows "engine_sound st'"
  using assms same_market_book [OF assms(2)] by (auto simp: engine_sound_def same_market_def ids_disjoint_def)

lemma sound_lock:
  assumes "engine_sound st"
  shows "x \<le> available (usd_of st u) \<Longrightarrow> engine_sound (usd.lock u x st)"
    and "x \<le> locked (usd_of st u) \<Longrightarrow> engine_sound (usd.unlock u x st)"
    and "x \<le> available (asset_of st u a) \<Longrightarrow> engine_sound (asset.lock a u x st)"
    and "x \<le> locked (asset_of st u a) \<Longrightarrow> engine_sound (asset.unlock a u x st)"
proof -
  have wf: "ledger_wf st" and fit: "usd_total st < u64_lim" "\<And>a. asset_total a st < u64_lim"
    using assms by (auto simp: engine_sound_def)
  have "asset_total a' (asset.lock a u x st) < u64_lim" if "x \<le> available (asset_of st u a)" for a'
    using that wf fit by (cases "a' = a") (simp_all add: asset.movements_total frame_simps)
  moreover have "asset_total a' (asset.unlock a u x st) < u64_lim" if "x \<le> locked (asset_of st u a)" for a'
    using that wf fit by (cases "a' = a") (simp_all add: asset.movements_total frame_simps)
  ultimately show
    "x \<le> available (usd_of st u) \<Longrightarrow> engine_sound (usd.lock u x st)"
    "x \<le> locked (usd_of st u) \<Longrightarrow> engine_sound (usd.unlock u x st)"
    "x \<le> available (asset_of st u a) \<Longrightarrow> engine_sound (asset.lock a u x st)"
    "x \<le> locked (asset_of st u a) \<Longrightarrow> engine_sound (asset.unlock a u x st)"
    using wf fit by (auto intro!: sound_market [OF assms] simp: usd.movements_total ledger_wfs frame_simps)
qed

lemma market_fees: "same_market st st' \<Longrightarrow> es_fee_schedule st' = es_fee_schedule st"
  by (simp add: same_market_def)

lemma solvent_lock_usd:
  "solvent a nobody nobody st \<Longrightarrow> solvent a (only u x) nobody (usd.lock u x st)"
  using market_fees [of st "usd.lock u x st"] usd_due_market [of st "usd.lock u x st"]
    same_market_book [of st "usd.lock u x st"]
  by (auto simp: solvent_def ledger_bals frame_simps)

lemma solvent_lock_asset:
  "solvent a nobody nobody st \<Longrightarrow> solvent a nobody (only u x) (asset.lock a u x st)"
  using market_fees [of st "asset.lock a u x st"] usd_due_market [of st "asset.lock a u x st"]
    same_market_book [of st "asset.lock a u x st"]
  by (auto simp: solvent_def ledger_bals frame_simps)

lemma solvent_unlock_usd:
  "solvent a (only u x) nobody st \<Longrightarrow> solvent a nobody nobody (usd.unlock u x st)"
  using market_fees [of st "usd.unlock u x st"] usd_due_market [of st "usd.unlock u x st"]
    same_market_book [of st "usd.unlock u x st"]
  by (auto simp: solvent_def ledger_bals frame_simps covers_diff dest: spec [of _ u])

lemma solvent_unlock_asset:
  assumes "solvent a nobody (only u x) st"
  shows "solvent a nobody nobody (asset.unlock a u x st)"
proof -
  let ?st = "asset.unlock a u x st"
  have "locked (asset_of ?st v a') = ask_due v (book_of st a')" if "supported a'" for v a'
    using assms that by (cases "a' = a") (auto simp: solvent_def ledger_bals frame_simps)
  then show ?thesis
    using assms market_fees [of st ?st] usd_due_market [of st ?st] same_market_book [of st ?st]
    by (simp add: solvent_def frame_simps)
qed

section \<open>Replacing a book\<close>

lemma book_ids_below: "book_inv b \<Longrightarrow> i \<in> book_ids b \<Longrightarrow> i < ob_next_order_id b"
  using get_order_key(3) by (fastforce simp: book_ids_def depth_iff)

lemma sound_put_book:
  assumes sound: "engine_sound st" and a: "supported a" and n: "next_order_id st \<le> n"
    and good: "book_good (es_fee_schedule st) n b"
    and ids: "book_ids b \<subseteq> book_ids (book_of st a) \<union> {i. next_order_id st \<le> i}"
  shows "engine_sound (put_orderbook a b (st\<lparr>next_order_id := n\<rparr>))"
proof -
  have old: "book_good (es_fee_schedule st) n (book_of st a')"
    "\<forall>i \<in> book_ids (book_of st a'). i < next_order_id st" if "supported a'" for a'
    using sound that n book_ids_below [of "book_of st a'"] by (fastforce simp: engine_sound_def book_good_def)+
  have "book_ids b \<inter> book_ids (book_of st a') = {}" if "supported a'" "a' \<noteq> a" for a'
    using sound a that ids old(2) [OF that(1)] by (fastforce simp: engine_sound_def ids_disjoint_def)
  then have "ids_disjoint (put_orderbook a b (st\<lparr>next_order_id := n\<rparr>))"
    using sound a by (auto simp: engine_sound_def ids_disjoint_def frame_simps)
  then show ?thesis
    using sound good old(1) a by (auto simp: engine_sound_def frame_simps)
qed

lemma usd_due_put:
  assumes "supported a"
  shows "usd_due (put_orderbook a b (st\<lparr>next_order_id := n\<rparr>)) u + bid_due (es_fee_schedule st) u (book_of st a) =
    usd_due st u + bid_due (es_fee_schedule st) u b"
  using books_put_sum [OF assms, of "bid_due (es_fee_schedule st) u" b "st\<lparr>next_order_id := n\<rparr>"]
  by (simp add: usd_due_def frame_simps)

text \<open>
  Matching replaces a book and settling pays for it: the funds reserved beside the book and the
  obligations of the old book together pay the trades, the obligations of the new book and what
  remains reserved.
\<close>

definition pays_for ::
  "engine_state \<Rightarrow> string \<Rightarrow> orderbook \<Rightarrow> trade list \<Rightarrow> (nat \<Rightarrow> nat) \<Rightarrow> (nat \<Rightarrow> nat) \<Rightarrow> (nat \<Rightarrow> nat) \<Rightarrow> (nat \<Rightarrow> nat) \<Rightarrow> bool"
  where
  "pays_for st a b' ts ru ra ru' ra' \<longleftrightarrow>
     (\<forall>u. covers (es_fee_schedule st)
        (bid_due (es_fee_schedule st) u b' + usd_debit (es_fee_schedule st) ts u + ru' u)
        (bid_due (es_fee_schedule st) u (book_of st a) + ru u)) \<and>
     (\<forall>u. ask_due u b' + asset_debit ts u + ra' u = ask_due u (book_of st a) + ra u)"

lemma usd_balance_sheet:
  assumes a: "supported a" and solvent: "solvent a ru ra st" and pays: "pays_for st a b' ts ru ra ru' ra'"
  shows "covers (es_fee_schedule st)
    (usd_due (put_orderbook a b' (st\<lparr>next_order_id := n\<rparr>)) u + ru' u + usd_debit (es_fee_schedule st) ts u)
    (locked (usd_of st u))"
proof -
  let ?B = "bid_due (es_fee_schedule st) u"
  have le: "?B (book_of st a) \<le> usd_due st u"
    using books_supported_sum [OF a, of ?B st] by (simp add: usd_due_def)
  have "covers (es_fee_schedule st) (?B b' + usd_debit (es_fee_schedule st) ts u + ru' u) (?B (book_of st a) + ru u)"
    using pays by (simp add: pays_for_def)
  then have "covers (es_fee_schedule st)
      (usd_due (put_orderbook a b' (st\<lparr>next_order_id := n\<rparr>)) u + ru' u + usd_debit (es_fee_schedule st) ts u)
      (usd_due st u + ru u)"
    using usd_due_put [OF a, of b' n st u] le by (auto simp: covers_def)
  moreover have "covers (es_fee_schedule st) (usd_due st u + ru u) (locked (usd_of st u))"
    using solvent by (simp add: solvent_def)
  ultimately show ?thesis by (rule covers_trans)
qed

lemma debits_covered:
  assumes "supported a" and "solvent a ru ra st" and "pays_for st a b' ts ru ra ru' ra'"
  shows "usd_debit (es_fee_schedule st) ts u \<le> locked (usd_of st u)"
    and "asset_debit ts u \<le> locked (asset_of st u a)"
proof -
  show "usd_debit (es_fee_schedule st) ts u \<le> locked (usd_of st u)"
    using usd_balance_sheet [OF assms, of 0 u] by (auto simp: covers_def)
  have "ask_due u b' + asset_debit ts u + ra' u = locked (asset_of st u a)"
    using assms by (simp add: pays_for_def solvent_def)
  then show "asset_debit ts u \<le> locked (asset_of st u a)" by linarith
qed

lemma settled_solvent:
  assumes a: "supported a" and solvent: "solvent a ru ra st" and pays: "pays_for st a b' ts ru ra ru' ra'"
    and settled: "settled a ts (put_orderbook a b' (st\<lparr>next_order_id := n\<rparr>)) st'"
  shows "solvent a ru' ra' st'"
proof -
  let ?st = "put_orderbook a b' (st\<lparr>next_order_id := n\<rparr>)"
  have fees: "es_fee_schedule st' = es_fee_schedule st" and market: "same_market ?st st'"
    using settled settled_fees [OF settled] by (simp_all add: settled_def frame_simps)
  have "covers (es_fee_schedule st) (usd_due st' u + ru' u) (locked (usd_of st' u))" for u
    using usd_balance_sheet [OF a solvent pays, of n u] settled usd_due_market [OF market, of u]
    by (simp add: settled_def covers_diff frame_simps)
  moreover have "locked (asset_of st' u a') =
      ask_due u (book_of st' a') + (if a' = a then ra' u else 0)" if "supported a'" for u a'
  proof (cases "a' = a")
    case True
    have "ask_due u b' + asset_debit ts u + ra' u = locked (asset_of st u a)"
      using pays solvent a by (simp add: pays_for_def solvent_def)
    then show ?thesis
      using settled same_market_book [OF market, of a] a by (simp add: True settled_def frame_simps)
  next
    case False
    then show ?thesis
      using solvent settled same_market_book [OF market, of a'] a that
      by (simp add: solvent_def settled_def frame_simps)
  qed
  ultimately show ?thesis
    by (simp add: solvent_def fees)
qed

section \<open>The books fit into 64 bits\<close>

text \<open>Every order on a book is backed by locked funds, so the quantities of a side cannot overflow.\<close>

lemma depth_fits:
  assumes sound: "engine_sound st" and solvent: "solvent a0 ru ra st" and a: "supported a"
  shows "sum_of ord_remaining_qty (depth s (book_of st a)) < u64_lim"
proof (cases s)
  case Ask
  let ?U = "ord_user_id ` set (depth Ask (book_of st a))"
  have "ask_due u (book_of st a) \<le> locked (asset_of st u a)" for u
    using solvent a by (simp add: solvent_def)
  then have "(\<Sum>u\<in>?U. ask_due u (book_of st a)) \<le> asset_total a st"
    using sound by (intro asset.locked_sum_le) (auto simp: engine_sound_def)
  moreover have "asset_total a st < u64_lim" using sound by (simp add: engine_sound_def)
  ultimately show ?thesis
    using sum_of_by_key [of ?U ord_user_id "depth Ask (book_of st a)" ord_remaining_qty]
    by (simp add: Ask ask_due_def)
next
  case Bid
  let ?U = "ord_user_id ` set (depth Bid (book_of st a))" and ?fs = "es_fee_schedule st"
  have "bid_due ?fs u (book_of st a) \<le> locked (usd_of st u)" for u
    using books_supported_sum [OF a, of "bid_due ?fs u" st] solvent
    by (fastforce simp: solvent_def covers_def usd_due_def dest: spec [of _ u])
  then have "(\<Sum>u\<in>?U. bid_due ?fs u (book_of st a)) \<le> usd_total st"
    using sound by (intro usd.locked_sum_le) (auto simp: engine_sound_def)
  then have "sum_of (order_due ?fs) (depth Bid (book_of st a)) \<le> usd_total st"
    using sum_of_by_key [of ?U ord_user_id "depth Bid (book_of st a)" "order_due ?fs"] by (simp add: bid_due_def)
  moreover have "ord_remaining_qty x \<le> order_due ?fs x" if "x \<in> set (depth Bid (book_of st a))" for x
    using depth_pos(2) [of "book_of st a" x Bid] that sound a
    by (simp add: order_due_def order_value_def engine_sound_def book_good_def le_trans [OF _ le_add1])
  then have "sum_of ord_remaining_qty (depth Bid (book_of st a)) \<le> sum_of (order_due ?fs) (depth Bid (book_of st a))"
    by (rule sum_of_mono)
  ultimately show ?thesis
    using sound by (simp add: Bid engine_sound_def)
qed

section \<open>Reserving funds and releasing the rest\<close>

definition conserves :: "engine_state \<Rightarrow> engine_state \<Rightarrow> bool" where
  "conserves st st' \<longleftrightarrow> usd_total st' = usd_total st \<and> (\<forall>a. asset_total a st' = asset_total a st)"

lemma conserves_trans: "conserves st st' \<Longrightarrow> conserves st' st'' \<Longrightarrow> conserves st st''"
  by (simp add: conserves_def)

lemma conserves_refl [simp]: "conserves st st"
  by (simp add: conserves_def)

text \<open>No user gains or loses anything: funds only move between available and locked.\<close>

definition same_funds :: "engine_state \<Rightarrow> engine_state \<Rightarrow> bool" where
  "same_funds st st' \<longleftrightarrow> (\<forall>u. funds (usd_of st' u) = funds (usd_of st u)) \<and>
     (\<forall>u a. funds (asset_of st' u a) = funds (asset_of st u a))"

lemma same_funds_refl [simp]: "same_funds st st"
  by (simp add: same_funds_def)

lemma same_funds_lock:
  "x \<le> available (usd_of st u) \<Longrightarrow> same_funds st (usd.lock u x st)"
  "x \<le> locked (usd_of st u) \<Longrightarrow> same_funds st (usd.unlock u x st)"
  "x \<le> available (asset_of st u a) \<Longrightarrow> same_funds st (asset.lock a u x st)"
  "x \<le> locked (asset_of st u a) \<Longrightarrow> same_funds st (asset.unlock a u x st)"
proof -
  have asset: "same_funds st st'" if "usd_of st' = usd_of st" "\<And>v. funds (asset_of st' v a) = funds (asset_of st v a)"
    "\<And>v a'. a' \<noteq> a \<Longrightarrow> asset_of st' v a' = asset_of st v a'" for st'
    using that unfolding same_funds_def by metis
  show "x \<le> available (usd_of st u) \<Longrightarrow> same_funds st (usd.lock u x st)"
    "x \<le> locked (usd_of st u) \<Longrightarrow> same_funds st (usd.unlock u x st)"
    by (simp_all add: same_funds_def funds_def ledger_bals frame_simps)
  show "x \<le> available (asset_of st u a) \<Longrightarrow> same_funds st (asset.lock a u x st)"
    "x \<le> locked (asset_of st u a) \<Longrightarrow> same_funds st (asset.unlock a u x st)"
    by (intro asset; simp add: funds_def ledger_bals frame_simps)+
qed

lemma reserve_usd:
  assumes inv: "engine_inv st" and enough: "x \<le> available (usd_of st uid)"
  obtains st' where "lock_usd oc uid x st = Some (st', True)" and "engine_sound st'"
    and "solvent a (only uid x) nobody st'" and "same_market st st'" and "conserves st st'"
    and "\<And>u. available (usd_of st' u) + only uid x u = available (usd_of st u)"
    and "\<And>u a'. asset_of st' u a' = asset_of st u a'" and "same_funds st st'"
proof (rule that)
  have sound: "engine_sound st" and solvent: "solvent a nobody nobody st"
    using inv engine_inv_solvent [of st a] by simp_all
  show "lock_usd oc uid x st = Some (usd.lock uid x st, True)"
    using enough sound by (simp add: lock_usd_def usd_assign_ok engine_sound_def)
  show "engine_sound (usd.lock uid x st)" "solvent a (only uid x) nobody (usd.lock uid x st)"
    using sound_lock(1) [OF sound enough] solvent_lock_usd [OF solvent] by simp_all
  show "conserves st (usd.lock uid x st)"
    using sound enough by (simp add: conserves_def usd.movements_total frame_simps engine_sound_def)
qed (use enough in \<open>auto simp: ledger_bals frame_simps same_funds_lock\<close>)

lemma reserve_asset:
  assumes inv: "engine_inv st" and a: "supported a" and enough: "x \<le> available (asset_of st uid a)"
  obtains st' where "lock_asset oc uid a x st = Some (st', True)" and "engine_sound st'"
    and "solvent a nobody (only uid x) st'" and "same_market st st'" and "conserves st st'"
    and "\<And>u. available (asset_of st' u a) + only uid x u = available (asset_of st u a)"
    and "\<And>u. usd_of st' u = usd_of st u" and "same_funds st st'"
proof (rule that)
  have sound: "engine_sound st" and solvent: "solvent a nobody nobody st"
    using inv engine_inv_solvent [of st a] by simp_all
  show "lock_asset oc uid a x st = Some (asset.lock a uid x st, True)"
    using enough sound by (simp add: lock_asset_def supported_lower [OF a] asset_assign_ok [OF a] engine_sound_def)
  show "engine_sound (asset.lock a uid x st)" "solvent a nobody (only uid x) (asset.lock a uid x st)"
    using sound_lock(3) [OF sound enough] solvent_lock_asset [OF solvent] by simp_all
  have "asset_total a' (asset.lock a uid x st) = asset_total a' st" for a'
    using sound enough by (cases "a' = a") (simp_all add: asset.movements_total frame_simps engine_sound_def)
  then show "conserves st (asset.lock a uid x st)"
    by (simp add: conserves_def frame_simps)
qed (use enough in \<open>auto simp: ledger_bals frame_simps same_funds_lock\<close>)

text \<open>When the balance is too small nothing changes but the presence of an entry.\<close>

lemma touch_inv:
  assumes inv: "engine_inv st" and "st' = usd_touch u st \<or> st' = stock_touch u a st"
  shows "engine_inv st'" and "conserves st st'" and "same_market st st'"
    and "usd_of st' v = usd_of st v" and "asset_of st' v a' = asset_of st v a'"
proof -
  have sound: "engine_sound st" and wf: "ledger_wf st" using inv by (simp_all add: engine_inv_def engine_sound_def)
  have eqs: "usd_of st' v = usd_of st v" "asset_of st' v a' = asset_of st v a'" for v a'
    using assms(2) by (auto simp: frame_simps)
  have cons: "conserves st st'" and market: "same_market st st'"
    using assms(2) wf by (auto simp: conserves_def frame_simps)
  have "ledger_wf st'"
    using assms(2) wf by (auto intro: usd_touch_wf stock_touch_wf)
  then have "engine_sound st'"
    using sound cons by (intro sound_market [OF sound market]) (auto simp: conserves_def engine_sound_def)
  moreover have "solvent ''sol'' nobody nobody st'"
    using inv usd_due_market [OF market] same_market_book [OF market] market_fees [OF market]
    by (simp add: engine_inv_def solvent_def eqs)
  ultimately show "engine_inv st'" by (simp add: engine_inv_def)
  show "conserves st st'" "same_market st st'" "usd_of st' v = usd_of st v" "asset_of st' v a' = asset_of st v a'"
    using cons market eqs by auto
qed

lemma release_usd:
  assumes sound: "engine_sound st" and solvent: "solvent a (only uid x) nobody st"
  obtains st' where "unlock_usd oc uid x st = Some st'" and "engine_inv st'" and "same_market st st'"
    and "conserves st st'" and "\<And>u. available (usd_of st' u) = available (usd_of st u) + only uid x u"
    and "\<And>u a'. asset_of st' u a' = asset_of st u a'" and "same_funds st st'"
proof (cases "x = 0")
  case True
  have "solvent a nobody nobody st"
    using solvent unfolding True by simp
  with sound that [of st] True show thesis
    by (simp add: unlock_usd_def engine_inv_solvent [of st a])
next
  case False
  have le: "x \<le> locked (usd_of st uid)"
    using solvent by (auto simp: solvent_def covers_def dest: spec [of _ uid])
  show thesis
  proof (rule that)
    show "unlock_usd oc uid x st = Some (usd.unlock uid x st)"
      using False sound le by (simp add: unlock_usd_def usd_assign_ok engine_sound_def)
    show "engine_inv (usd.unlock uid x st)"
      using sound_lock(2) [OF sound le] solvent_unlock_usd [OF solvent] by (simp add: engine_inv_solvent [of _ a])
    show "conserves st (usd.unlock uid x st)"
      using sound le by (simp add: conserves_def usd.movements_total frame_simps engine_sound_def)
  qed (use le in \<open>auto simp: ledger_bals frame_simps same_funds_lock\<close>)
qed

lemma release_asset:
  assumes sound: "engine_sound st" and solvent: "solvent a nobody (only uid x) st" and a: "supported a"
  obtains st' where "unlock_asset oc uid a x st = Some st'" and "engine_inv st'" and "same_market st st'"
    and "conserves st st'" and "\<And>u. available (asset_of st' u a) = available (asset_of st u a) + only uid x u"
    and "\<And>u. usd_of st' u = usd_of st u" and "same_funds st st'"
proof (cases "x = 0")
  case True
  have "solvent a nobody nobody st"
    using solvent unfolding True by simp
  with sound that [of st] True show thesis
    by (simp add: unlock_asset_def engine_inv_solvent [of st a])
next
  case False
  have le: "x \<le> locked (asset_of st uid a)"
    using solvent a by (simp add: solvent_def)
  show thesis
  proof (rule that)
    show "unlock_asset oc uid a x st = Some (asset.unlock a uid x st)"
      using False sound le by (simp add: unlock_asset_def asset_assign_ok [OF a] engine_sound_def)
    show "engine_inv (asset.unlock a uid x st)"
      using sound_lock(4) [OF sound le] solvent_unlock_asset [OF solvent] by (simp add: engine_inv_solvent [of _ a])
    have "asset_total a' (asset.unlock a uid x st) = asset_total a' st" for a'
      using sound le by (cases "a' = a") (simp_all add: asset.movements_total frame_simps engine_sound_def)
    then show "conserves st (asset.unlock a uid x st)"
      by (simp add: conserves_def frame_simps)
  qed (use le in \<open>auto simp: ledger_bals frame_simps same_funds_lock\<close>)
qed

end
