(* ===== verification/Order_Exec.thy ===== *)
theory Order_Exec
  imports Engine_Inv
begin

text \<open>
  Executing an order: the fills of a matching run as trades, who pays for them, and the step of the
  engine that matches, replaces the book and settles, for limit and market orders alike.
\<close>

section \<open>Fills as trades\<close>

lemma fill_trade_simps [simp]:
  "tr_price (fill_trade t f) = ord_price (fst f)" "tr_qty (fill_trade t f) = snd f"
  "tr_taker_side (fill_trade t f) = tk_side t"
  "tr_maker_order_id (fill_trade t f) = ord_order_id (fst f)"
  "tr_taker_order_id (fill_trade t f) = tk_order_id t"
  "tr_buyer (fill_trade t f) = (case tk_side t of Bid \<Rightarrow> tk_user_id t | Ask \<Rightarrow> ord_user_id (fst f))"
  "tr_seller (fill_trade t f) = (case tk_side t of Bid \<Rightarrow> ord_user_id (fst f) | Ask \<Rightarrow> tk_user_id t)"
  "trade_value (fill_trade t f) = ord_price (fst f) * snd f"
  by (simp_all add: fill_trade_def make_trade_def trade_value_def split: side.splits)

lemma sum_of_only: "sum_of (\<lambda>x. if c then f x else 0) xs = (if c then sum_of f xs else 0)"
  by (simp add: sum_of_zero)

lemma bid_debits:
  assumes "tk_side t = Bid"
  shows "usd_debit fs (map (fill_trade t) fl) u =
      only (tk_user_id t) (sum_of (trade_cost fs) (map (fill_trade t) fl)) u"
    and "asset_debit (map (fill_trade t) fl) u = sum_of (\<lambda>f. if ord_user_id (fst f) = u then snd f else 0) fl"
  using assms by (auto simp: usd_debit_def asset_debit_def comp_def sum_of_zero cong: if_cong)

lemma ask_debits:
  assumes "tk_side t = Ask"
  shows "usd_debit fs (map (fill_trade t) fl) u = sum_of (\<lambda>f. if ord_user_id (fst f) = u
        then ord_price (fst f) * snd f + maker_fee fs (ord_price (fst f) * snd f) else 0) fl"
    and "asset_debit (map (fill_trade t) fl) u = only (tk_user_id t) (sum_of snd fl) u"
  using assms by (auto simp: usd_debit_def asset_debit_def buyer_fee_def comp_def sum_of_zero cong: if_cong)

text \<open>What the fills take from the orders of one user is what those orders owed.\<close>

lemma ask_fills_split:
  assumes "take_fills stops n os = (fl, os', n')"
  shows "sum_of (\<lambda>x. if ord_user_id x = u then ord_remaining_qty x else 0) os' +
      sum_of (\<lambda>f. if ord_user_id (fst f) = u then snd f else 0) fl =
    sum_of (\<lambda>x. if ord_user_id x = u then ord_remaining_qty x else 0) os"
  by (rule take_fills_split_eq [OF assms]) auto

lemma order_due_all:
  "ord_price x * ord_remaining_qty x + maker_fee fs (ord_price x * ord_remaining_qty x) = order_due fs x"
  by (simp add: order_due_def order_value_def)

lemma order_due_part:
  assumes "q < ord_remaining_qty x"
  shows "covers fs (order_due fs (x\<lparr>ord_remaining_qty := ord_remaining_qty x - q\<rparr>) +
    (ord_price x * q + maker_fee fs (ord_price x * q))) (order_due fs x)"
proof -
  have "ord_price x * (ord_remaining_qty x - q) + ord_price x * q = order_value x"
    using assms by (simp add: order_value_def flip: add_mult_distrib2)
  then show ?thesis
    using fee_of_superadd [of "maker_fee_bps fs" "ord_price x * (ord_remaining_qty x - q)" "ord_price x * q"]
    by (auto simp: covers_def order_due_def order_value_def)
qed

lemma bid_fills_split:
  assumes "take_fills stops n os = (fl, os', n')"
  shows "covers fs (sum_of (\<lambda>x. if ord_user_id x = u then order_due fs x else 0) os' +
      sum_of (\<lambda>f. if ord_user_id (fst f) = u
        then ord_price (fst f) * snd f + maker_fee fs (ord_price (fst f) * snd f) else 0) fl)
    (sum_of (\<lambda>x. if ord_user_id x = u then order_due fs x else 0) os)"
  by (rule take_fills_split_rel [OF assms, where R = "covers fs"])
    (auto intro: covers_add order_due_part simp: order_due_all)

section \<open>Paying for the fills\<close>

text \<open>The taker's side of the book after the run: unchanged, or with the rest \<open>r\<close> of the order queued.\<close>

definition queued_rest :: "nat \<Rightarrow> nat \<Rightarrow> side \<Rightarrow> nat \<Rightarrow> nat \<Rightarrow> orderbook \<Rightarrow> order list" where
  "queued_rest oid uid s price r b =
     (if 0 < r then enqueue s (new_order oid uid s price r) (depth s b) else depth s b)"

definition rest_due :: "fee_schedule \<Rightarrow> nat \<Rightarrow> nat \<Rightarrow> nat" where
  "rest_due fs price r = price * r + maker_fee fs (price * r)"

lemma rest_due_zero [simp]: "rest_due fs price 0 = 0"
  by (simp add: rest_due_def)

lemma queued_rest_due:
  "sum_of (\<lambda>x. if ord_user_id x = u then order_due fs x else 0) (queued_rest oid uid s price r b) =
     sum_of (\<lambda>x. if ord_user_id x = u then order_due fs x else 0) (depth s b) + only uid (rest_due fs price r) u"
  "sum_of (\<lambda>x. if ord_user_id x = u then ord_remaining_qty x else 0) (queued_rest oid uid s price r b) =
     sum_of (\<lambda>x. if ord_user_id x = u then ord_remaining_qty x else 0) (depth s b) + only uid r u"
  by (simp_all add: queued_rest_def sum_of_enqueue new_order_def order_due_def order_value_def rest_due_def)

lemma pays_bid:
  assumes run: "take_fills stops qty (depth Ask b) = (fl, os', n')" and b: "b = book_of st a"
    and placed: "placed b oid Bid os' (queued_rest oid uid Bid price r b) b'"
    and t: "t = \<lparr>tk_order_id = oid, tk_user_id = uid, tk_side = Bid\<rparr>"
    and spent: "spent = sum_of (trade_cost (es_fee_schedule st)) (map (fill_trade t) fl)"
    and le: "spent + rest_due (es_fee_schedule st) price r \<le> L"
  shows "pays_for st a b' (map (fill_trade t) fl) (only uid L) nobody
    (only uid (L - spent - rest_due (es_fee_schedule st) price r)) nobody"
proof -
  have depths: "depth Ask b' = os'" "depth Bid b' = queued_rest oid uid Bid price r b"
    using placed by (simp_all add: placed_def)
  have "ask_due u b' + asset_debit (map (fill_trade t) fl) u = ask_due u b" for u
    using ask_fills_split [OF run, of u] bid_debits(2) [of t fl u] by (simp add: ask_due_def depths t)
  moreover have "bid_due fs u b' = bid_due fs u b + only uid (rest_due fs price r) u" for fs u
    by (simp only: bid_due_def depths queued_rest_due)
  moreover have "usd_debit (es_fee_schedule st) (map (fill_trade t) fl) u = only uid spent u" for u
    using bid_debits(1) [of t "es_fee_schedule st" fl u] by (simp add: t spent)
  ultimately show ?thesis
    using le by (simp add: pays_for_def b)
qed

lemma pays_ask:
  assumes run: "take_fills stops qty (depth Bid b) = (fl, os', n')" and b: "b = book_of st a"
    and placed: "placed b oid Ask os' (queued_rest oid uid Ask price r b) b'"
    and t: "t = \<lparr>tk_order_id = oid, tk_user_id = uid, tk_side = Ask\<rparr>"
    and le: "sum_of snd fl + r \<le> L"
  shows "pays_for st a b' (map (fill_trade t) fl) nobody (only uid L)
    nobody (only uid (L - sum_of snd fl - r))"
proof -
  have depths: "depth Bid b' = os'" "depth Ask b' = queued_rest oid uid Ask price r b"
    using placed by (simp_all add: placed_def)
  have "covers fs (bid_due fs u b' + usd_debit fs (map (fill_trade t) fl) u) (bid_due fs u b)" for fs u
    using bid_fills_split [OF run, of fs u] ask_debits(1) [of t fs fl u] by (simp add: bid_due_def depths t)
  moreover have "ask_due u b' = ask_due u b + only uid r u" for u
    by (simp only: ask_due_def depths queued_rest_due)
  moreover have "asset_debit (map (fill_trade t) fl) u = only uid (sum_of snd fl) u" for u
    using ask_debits(2) [of t fl u] by (simp add: t)
  ultimately show ?thesis
    using le by (simp add: pays_for_def b)
qed

section \<open>The execution step\<close>

lemma fills_fit:
  assumes "take_fills stops n os = (fl, os', n')" and "f \<in> set fl"
    and "\<forall>x \<in> set os. 0 < ord_remaining_qty x \<and> order_fits fs x"
  shows "trade_fits fs (fill_trade t f)"
proof -
  have f: "fst f \<in> set os" "snd f \<le> ord_remaining_qty (fst f)"
    using take_fills_members [OF assms(1,2)] assms(3) by auto
  then have "ord_price (fst f) * snd f \<le> order_value (fst f)"
    by (simp add: order_value_def)
  moreover have "order_fits fs (fst f)" using f assms(3) by blast
  ultimately show ?thesis
    using scaled_fits by (simp add: trade_fits_def order_fits_def)
qed

lemma rest_fit:
  assumes "take_fills stops n os = (fl, os', n')" and "x \<in> set os'" and "\<forall>x \<in> set os. order_fits fs x"
  shows "order_fits fs x"
proof -
  obtain y where y: "y \<in> set os" "ord_price x = ord_price y" "ord_remaining_qty x \<le> ord_remaining_qty y"
    using take_fills_rest [OF assms(1,2)] by blast
  then have "order_value x \<le> order_value y" by (simp add: order_value_def)
  moreover have "order_fits fs y" using y assms(3) by blast
  ultimately show ?thesis using scaled_fits by (simp add: order_fits_def)
qed

lemma set_queued_rest:
  "set (queued_rest oid uid s price r b) =
     (if 0 < r then insert (new_order oid uid s price r) (set (depth s b)) else set (depth s b))"
  by (simp add: queued_rest_def set_enqueue)

lemma placed_good:
  assumes good: "book_good fs n b" and run: "take_fills stops qty (depth (opposite s) b) = (fl, os', n')"
    and placed: "placed b n s os' (queued_rest n uid s price r b) b'" and uncrossed: "uncrossed b'"
    and new: "0 < r \<Longrightarrow> order_fits fs (new_order n uid s price r)"
  shows "book_good fs (n + 1) b'" and "book_ids b' \<subseteq> book_ids b \<union> {i. n \<le> i}"
proof -
  have opp: "depth (opposite s) b' = os'" and own: "depth s b' = queued_rest n uid s price r b"
    using placed by (simp_all add: placed_def)
  have fits: "\<forall>x \<in> set (depth s' b). order_fits fs x" for s'
    using good by (simp add: book_good_def)
  have "\<forall>x \<in> set (depth s' b'). order_fits fs x" for s'
  proof (cases "s' = s")
    case True
    then show ?thesis using fits [of s] new by (auto simp: own set_queued_rest)
  next
    case False
    then have "s' = opposite s" by (cases s; cases s') auto
    then show ?thesis using rest_fit [OF run _ fits] by (simp add: opp)
  qed
  then show "book_good fs (n + 1) b'"
    using good placed uncrossed by (auto simp: book_good_def placed_def)
  have ids: "book_ids c = ord_order_id ` set (depth s c) \<union> ord_order_id ` set (depth (opposite s) c)" for c
    by (cases s) (auto simp: book_ids_def)
  have "ord_order_id ` set os' \<subseteq> ord_order_id ` set (depth (opposite s) b)"
    using take_fills_rest [OF run] by blast
  moreover have "ord_order_id ` set (queued_rest n uid s price r b) \<subseteq> insert n (ord_order_id ` set (depth s b))"
    by (auto simp: set_queued_rest new_order_def)
  ultimately show "book_ids b' \<subseteq> book_ids b \<union> {i. n \<le> i}"
    unfolding ids opp own by auto
qed

text \<open>The events that report the trades of a run.\<close>

definition run_events :: "engine_state \<Rightarrow> string \<Rightarrow> string \<Rightarrow> trade list \<Rightarrow> execution_event list" where
  "run_events st a market ts =
     map (\<lambda>t. trade_event (es_fee_schedule st) market (maker_remaining st a (tr_maker_order_id t)) t) ts"

lemma execution_step:
  assumes sound: "engine_sound st" and solvent: "solvent a ru ra st" and a: "supported a"
    and run: "take_fills stops qty (depth (opposite s) (book_of st a)) = (fl, os', n')"
    and t: "t = \<lparr>tk_order_id = next_order_id st, tk_user_id = uid, tk_side = s\<rparr>"
    and ts: "ts = map (fill_trade t) fl"
    and placed: "placed (book_of st a) (next_order_id st) s os'
      (queued_rest (next_order_id st) uid s price r (book_of st a)) b'" and uncrossed: "uncrossed b'"
    and new: "0 < r \<Longrightarrow> order_fits (es_fee_schedule st) (new_order (next_order_id st) uid s price r)"
    and pays: "pays_for st a b' ts ru ra ru' ra'"
    and st1: "st1 = put_orderbook a b' (st\<lparr>next_order_id := next_order_id st + 1\<rparr>)"
    and fit: "qty < u64_lim" "track \<Longrightarrow> sum_of (trade_cost (es_fee_schedule st)) ts < u64_lim"
  obtains st' where "settle_results oc track a market (map (MR_Trade \<circ> fill_trade t) fl) ((st1, 0, 0, pub), res) =
      Some ((st', sum_of snd fl, if track then sum_of (trade_cost (es_fee_schedule st)) ts else 0,
        emit_all pub (run_events st1 a market ts)), res)"
    and "engine_sound st'" and "solvent a ru' ra' st'" and "settled a ts st1 st'"
proof -
  have good: "book_good (es_fee_schedule st) (next_order_id st) (book_of st a)"
    using sound a by (simp add: engine_sound_def)
  have sound1: "engine_sound st1"
    unfolding st1 by (rule sound_put_book [OF sound a _ placed_good [OF good run placed uncrossed new]]) simp_all
  have live: "\<forall>x \<in> set (depth s' (book_of st a)). 0 < ord_remaining_qty x \<and> order_fits (es_fee_schedule st) x" for s'
    using good depth_pos(1) by (auto simp: book_good_def)
  have fees: "es_fee_schedule st1 = es_fee_schedule st"
    by (simp add: st1 frame_simps)
  have "coverable a ts st1"
    using sound1 a debits_covered [OF a solvent pays] fills_fit [OF run _ live]
    by (auto simp: coverable_def engine_sound_def fees ts) (simp_all add: st1 frame_simps)
  moreover have qty: "sum_of tr_qty ts = sum_of snd fl" "0 + sum_of tr_qty ts < u64_lim"
    using take_fills_qty [OF run] fit(1) by (simp_all add: ts comp_def)
  ultimately obtain st' where run': "settle_results oc track a market (map MR_Trade ts) ((st1, 0, 0, pub), res) =
      Some ((st', sum_of snd fl, if track then sum_of (trade_cost (es_fee_schedule st)) ts else 0,
        emit_all pub (run_events st1 a market ts)), res)" and settled: "settled a ts st1 st'"
    using settle_results_trades [of a ts st1 _ 0 track 0 oc market pub res] fees fit(2)
    by (force simp: run_events_def)
  show thesis
  proof (rule that)
    show "engine_sound st'"
      using settled sound1 by (intro sound_market [OF sound1]) (auto simp: settled_def engine_sound_def)
    show "solvent a ru' ra' st'"
      using settled_solvent [OF a solvent pays] settled st1 by simp
  qed (use run' settled in \<open>simp_all add: ts\<close>)
qed

end
