(* ===== verification/Handler_Limit.thy ===== *)
theory Handler_Limit
  imports Order_Exec Orderbook_Snapshot
begin

text \<open>
  Limit orders from lock to reply: the lock is large enough for every way the order can trade and
  rest, the handler does not panic, and the invariant of the engine holds again afterwards.
\<close>

section \<open>The lock is large enough\<close>

definition lock_amount :: "fee_schedule \<Rightarrow> nat \<Rightarrow> nat \<Rightarrow> nat" where
  "lock_amount fs price qty = price * qty + fee_of (max_bps fs) (price * qty)"

definition limit_fits :: "fee_schedule \<Rightarrow> nat \<Rightarrow> nat \<Rightarrow> bool" where
  "limit_fits fs price qty \<longleftrightarrow> price * qty < u64_lim \<and> price * qty * max_bps fs < u64_lim \<and>
     lock_amount fs price qty < u64_lim"

lemma limit_lock_ok: "limit_fits fs price qty \<Longrightarrow> limit_lock oc fs price qty = Some (lock_amount fs price qty)"
  by (simp add: limit_lock_def limit_fits_def lock_amount_def fee_of_def u64_simps flip: max_bps_def)

text \<open>A limit order behaves like a run with some stop test, and it fills at its price or better.\<close>

lemma limit_fills_run:
  assumes "limit_fills tif s price qty os = (fl, os', n')" and "\<forall>x \<in> set os. 0 < ord_remaining_qty x"
  obtains stops where "take_fills stops qty os = (fl, os', n')"
    and "\<forall>f \<in> set fl. \<not> limit_stops s price (ord_price (fst f))"
proof (cases rule: limit_fills_cases [OF assms(1)])
  case 1
  then have "take_fills (\<lambda>_. True) qty os = (fl, os', n')" by (cases os) auto
  with 1 that show thesis by auto
next
  case 2
  with that take_fills_members [OF 2 _ assms(2)] show thesis by blast
qed

lemma fills_cost_le:
  assumes "\<forall>f \<in> set fl. ord_price (fst f) \<le> price" and "sum_of snd fl + n' = qty"
  shows "fills_cost fl + price * n' \<le> price * qty"
proof -
  have "fills_cost fl \<le> sum_of (\<lambda>f. price * snd f) fl"
    using assms(1) by (intro sum_of_mono) simp
  then show ?thesis
    using assms(2) by (auto simp: sum_list_const_mult algebra_simps simp flip: add_mult_distrib2)
qed

lemma spent_le:
  assumes "tk_side t = Bid"
  shows "sum_of (trade_cost fs) (map (fill_trade t) fl) \<le> fills_cost fl + fee_of (taker_fee_bps fs) (fills_cost fl)"
  using fee_of_sum [of "taker_fee_bps fs" "\<lambda>f. ord_price (fst f) * snd f" fl] assms
  by (simp add: sum_of_add comp_def buyer_fee_def)

lemma bps_le: "fee_of (taker_fee_bps fs) x \<le> fee_of (max_bps fs) x" "fee_of (maker_fee_bps fs) x \<le> fee_of (max_bps fs) x"
  by (simp_all add: fee_of_mono_bps max_bps_def)

lemma limit_bid_covered:
  assumes t: "tk_side t = Bid" and prices: "\<forall>f \<in> set fl. ord_price (fst f) \<le> price"
    and qty: "sum_of snd fl + n' = qty" and r: "r \<le> n'"
  shows "sum_of (trade_cost fs) (map (fill_trade t) fl) + rest_due fs price r \<le> lock_amount fs price qty"
proof -
  let ?C = "fills_cost fl" and ?m = "fee_of (max_bps fs)"
  have "price * r \<le> price * n'" using r by simp
  then have le: "?C + price * r \<le> price * qty"
    using fills_cost_le [OF prices qty] by linarith
  have "sum_of (trade_cost fs) (map (fill_trade t) fl) \<le> ?C + ?m ?C"
    using spent_le [OF t, of fs fl] bps_le(1) [of fs ?C] by linarith
  moreover have "rest_due fs price r \<le> price * r + ?m (price * r)"
    using bps_le(2) [of fs "price * r"] by (simp add: rest_due_def)
  moreover have "?m ?C + ?m (price * r) \<le> ?m (price * qty)"
    using fee_of_superadd [of "max_bps fs" ?C "price * r"] fee_of_mono [OF le, of "max_bps fs"] by linarith
  ultimately show ?thesis
    using le unfolding lock_amount_def by linarith
qed

section \<open>Placing the order\<close>

text \<open>
  From a state in which the taker's funds are reserved, the book part of the handler and the
  settlement loop go through and leave the rest of the reservation.
\<close>

definition rest_qty :: "time_in_force \<Rightarrow> nat \<Rightarrow> nat" where
  "rest_qty tif n' = (if tif = Gtc then n' else 0)"

definition resting_of :: "nat \<Rightarrow> nat \<Rightarrow> side \<Rightarrow> nat \<Rightarrow> nat \<Rightarrow> order_accepted option" where
  "resting_of oid uid s price r = (if 0 < r then Some (accepted_of (new_order oid uid s price r)) else None)"

lemma limit_rest_fits:
  assumes "limit_fits fs price qty" and "r \<le> qty"
  shows "order_fits fs (new_order oid uid s price r)"
  using scaled_fits [of "price * r" "price * qty" "max_bps fs"] assms
  by (simp add: order_fits_def order_value_def new_order_def limit_fits_def)

lemma place_limit:
  assumes sound: "engine_sound st" and solvent: "solvent a ru ra st" and a: "supported a"
    and pos: "0 < price" "0 < qty" "qty < u64_lim" and fits: "limit_fits (es_fee_schedule st) price qty"
    and ids: "next_order_id st + 1 < u64_lim"
    and fills: "limit_fills tif s price qty (depth (opposite s) (book_of st a)) = (fl, os', n')"
    and r: "r = rest_qty tif n'"
    and t: "t = \<lparr>tk_order_id = next_order_id st, tk_user_id = uid, tk_side = s\<rparr>"
    and pays: "\<And>b'. placed (book_of st a) (next_order_id st) s os'
        (queued_rest (next_order_id st) uid s price r (book_of st a)) b' \<Longrightarrow>
      pays_for st a b' (map (fill_trade t) fl) ru ra ru' ra'"
    and spent: "s = Bid \<Longrightarrow> sum_of (trade_cost (es_fee_schedule st)) (map (fill_trade t) fl) < u64_lim"
  obtains b' rs st' evs where
    "add_order_with_id oc (next_order_id st) uid s price qty tif (book_of st a) = Some (b', Inr rs)"
    and "settle_results oc (s = Bid) a market rs
        ((put_orderbook a b' (st\<lparr>next_order_id := next_order_id st + 1\<rparr>), 0, 0, pub), None) =
      Some ((st', sum_of snd fl,
        if s = Bid then sum_of (trade_cost (es_fee_schedule st)) (map (fill_trade t) fl) else 0,
        emit_all pub evs), resting_of (next_order_id st) uid s price r)"
    and "engine_sound st'" and "solvent a ru' ra' st'"
    and "settled a (map (fill_trade t) fl) (put_orderbook a b' (st\<lparr>next_order_id := next_order_id st + 1\<rparr>)) st'"
    and "placed (book_of st a) (next_order_id st) s os'
        (queued_rest (next_order_id st) uid s price r (book_of st a)) b'"
    and "evs = run_events (put_orderbook a b' (st\<lparr>next_order_id := next_order_id st + 1\<rparr>)) a market
        (map (fill_trade t) fl)"
proof -
  let ?b = "book_of st a" and ?n = "next_order_id st"
  have good: "book_good (es_fee_schedule st) ?n ?b"
    using sound a by (simp add: engine_sound_def)
  then have inv: "book_inv ?b" and next_id: "ob_next_order_id ?b \<le> ?n" and unc: "uncrossed ?b"
    by (simp_all add: book_good_def)
  have live: "\<forall>x \<in> set (depth (opposite s) ?b). 0 < ord_remaining_qty x"
    using depth_pos(1) [OF inv] by blast
  obtain stops where run: "take_fills stops qty (depth (opposite s) ?b) = (fl, os', n')"
    using limit_fills_run [OF fills live] .
  have rests: "(0 < r) \<longleftrightarrow> 0 < n' \<and> tif = Gtc" and rn: "0 < r \<Longrightarrow> n' = r" and "r \<le> qty"
    using take_fills_qty [OF run] by (auto simp: r rest_qty_def)
  obtain b' where add: "add_order_with_id oc ?n uid s price qty tif ?b =
      Some (b', Inr (map (MR_Trade \<circ> fill_trade t) fl @
        (if 0 < r then [MR_OrderAccepted (accepted_of (new_order ?n uid s price n'))] else [])))"
    and placed': "placed ?b ?n s os' (if 0 < r then enqueue s (new_order ?n uid s price n') (depth s ?b) else depth s ?b) b'"
    using add_order_with_id_refines [OF inv pos(1,2) next_id ids depth_fits [OF sound solvent a] fills rests]
    unfolding t by blast
  have placed: "placed ?b ?n s os' (queued_rest ?n uid s price r ?b) b'"
    using placed' rn by (auto simp: queued_rest_def split: if_splits)
  have "uncrossed b'"
    using limit_keeps_uncrossed [OF unc fills _ placed'] rests by blast
  from execution_step [OF sound solvent a run t refl placed this limit_rest_fits [OF fits \<open>r \<le> qty\<close>]
      pays [OF placed] refl pos(3) spent]
  obtain st' where st': "settle_results oc (s = Bid) a market (map (MR_Trade \<circ> fill_trade t) fl)
        ((put_orderbook a b' (st\<lparr>next_order_id := ?n + 1\<rparr>), 0, 0, pub), None) =
      Some ((st', sum_of snd fl,
        if s = Bid then sum_of (trade_cost (es_fee_schedule st)) (map (fill_trade t) fl) else 0,
        emit_all pub (run_events (put_orderbook a b' (st\<lparr>next_order_id := ?n + 1\<rparr>)) a market (map (fill_trade t) fl))), None)"
    and post: "engine_sound st'" "solvent a ru' ra' st'"
      "settled a (map (fill_trade t) fl) (put_orderbook a b' (st\<lparr>next_order_id := ?n + 1\<rparr>)) st'"
    by blast
  show thesis
  proof (rule that [OF add _ post placed refl])
  qed (use st' rn in \<open>auto simp: settle_results_append resting_of_def\<close>)
qed

section \<open>The handler\<close>

lemma take_order_id_ok:
  "next_order_id st + 1 < u64_lim \<Longrightarrow>
     take_order_id oc st = Some (next_order_id st, st\<lparr>next_order_id := next_order_id st + 1\<rparr>)"
  by (simp add: take_order_id_def u64_simps)

lemma needed_locked_ok:
  assumes "limit_fits fs price qty" and "r \<le> qty" and "rest_due fs price r < u64_lim"
  shows "needed_locked oc fs (resting_of oid uid s price r) = Some (rest_due fs price r)"
proof -
  have "price * r < u64_lim" "price * r * max_bps fs < u64_lim"
    using limit_rest_fits [OF assms(1,2), of oid uid s]
    by (simp_all add: order_fits_def order_value_def new_order_def)
  then show ?thesis
    using assms(3) bps_fits(2) [of "price * r" fs]
    by (simp add: needed_locked_def resting_of_def accepted_of_def new_order_def rest_due_def u64_simps)
qed

text \<open>The amounts a limit order moves, on either side.\<close>

definition paid_usd :: "fee_schedule \<Rightarrow> side \<Rightarrow> nat \<Rightarrow> trade list \<Rightarrow> nat \<Rightarrow> nat" where
  "paid_usd fs s price ts r = (case s of Bid \<Rightarrow> sum_of (trade_cost fs) ts + rest_due fs price r | Ask \<Rightarrow> 0)"

definition paid_asset :: "side \<Rightarrow> trade list \<Rightarrow> nat \<Rightarrow> nat" where
  "paid_asset s ts r = (case s of Bid \<Rightarrow> 0 | Ask \<Rightarrow> sum_of tr_qty ts + r)"

text \<open>By how much the trades change what each user owns, locked or not; the debits are covered.\<close>

definition funds_after :: "fee_schedule \<Rightarrow> string \<Rightarrow> trade list \<Rightarrow> engine_state \<Rightarrow> engine_state \<Rightarrow> bool" where
  "funds_after fs a ts st st' \<longleftrightarrow>
     (\<forall>u. funds (usd_of st' u) + usd_debit fs ts u = funds (usd_of st u) + usd_credit fs ts u) \<and>
     (\<forall>u. funds (asset_of st' u a) + asset_debit ts u = funds (asset_of st u a) + asset_credit ts u) \<and>
     (\<forall>u. usd_debit fs ts u \<le> funds (usd_of st u)) \<and> (\<forall>u. asset_debit ts u \<le> funds (asset_of st u a)) \<and>
     (\<forall>u a'. a' \<noteq> a \<longrightarrow> funds (asset_of st' u a') = funds (asset_of st u a'))"

definition balances_after ::
  "fee_schedule \<Rightarrow> string \<Rightarrow> nat \<Rightarrow> trade list \<Rightarrow> nat \<Rightarrow> nat \<Rightarrow> engine_state \<Rightarrow> engine_state \<Rightarrow> bool" where
  "balances_after fs a uid ts usd_paid asset_paid st st' \<longleftrightarrow>
     (\<forall>u. available (usd_of st' u) + only uid usd_paid u = available (usd_of st u) + usd_credit fs ts u) \<and>
     (\<forall>u. available (asset_of st' u a) + only uid asset_paid u = available (asset_of st u a) + asset_credit ts u) \<and>
     funds_after fs a ts st st'"

lemma settled_conserves:
  "settled a ts (put_orderbook a b' (st\<lparr>next_order_id := n\<rparr>)) st' \<Longrightarrow> conserves st st'"
  by (simp add: settled_def conserves_def frame_simps)

lemma settled_books:
  assumes "settled a ts (put_orderbook a b' (st\<lparr>next_order_id := n\<rparr>)) st'" and "supported a" and "supported a'"
  shows "book_of st' a' = (if a' = a then b' else book_of st a')" and "next_order_id st' = n"
  using assms same_market_book [of "put_orderbook a b' (st\<lparr>next_order_id := n\<rparr>)" st' a']
  by (simp_all add: settled_def same_market_def frame_simps)

text \<open>The handler with each of its steps given.\<close>

lemma handle_limit_eval:
  assumes "0 < om_price msg" and "price = nat (om_price msg)"
    and "limit_lock oc (es_fee_schedule st) price qty = Some L"
    and "(case s of Bid \<Rightarrow> lock_usd oc (om_user_id msg) L st | Ask \<Rightarrow> lock_asset oc (om_user_id msg) a qty st) = Some (st1, True)"
    and "same_market st st1" and "next_order_id st + 1 < u64_lim" and "supported a"
    and "add_order_with_id oc (next_order_id st) (om_user_id msg) s price qty (om_time_in_force msg) (book_of st a) = Some (b', Inr rs)"
    and "settle_results oc (s = Bid) a market rs
        ((put_orderbook a b' (st1\<lparr>next_order_id := next_order_id st + 1\<rparr>), 0, 0, pub), None) =
      Some ((st2, f, d, pub1), resting)"
    and "reconcile oc (om_user_id msg) a s (om_time_in_force msg) qty L f d resting st2 = Some st3"
  shows "handle_limit oc st pub msg a market s qty = Some (False, st3, limit_reply pub1 msg market qty f resting)"
proof -
  have eqs: "next_order_id st1 = next_order_id st" "book_of st1 a = book_of st a"
    using assms(5) same_market_book [OF assms(5), of a] by (simp_all add: same_market_def)
  have "take_order_id oc st1 = Some (next_order_id st, st1\<lparr>next_order_id := next_order_id st + 1\<rparr>)"
    using take_order_id_ok [of st1 oc] assms(6) by (simp add: eqs)
  then show ?thesis
    using assms(1-4,8-) get_orderbook_supported [OF assms(7)]
    by (simp add: handle_limit_def Let_def eqs frame_simps)
qed

text \<open>
  The state after an order of \<open>uid\<close> that was filled by \<open>fl\<close>, left \<open>os'\<close> on the other side of the book
  and rests with quantity \<open>r\<close>.
\<close>

definition order_post ::
  "engine_state \<Rightarrow> string \<Rightarrow> nat \<Rightarrow> side \<Rightarrow> nat \<Rightarrow> (order \<times> nat) list \<Rightarrow> order list \<Rightarrow> nat \<Rightarrow> engine_state \<Rightarrow> bool" where
  "order_post st a uid s price fl os' r st' \<longleftrightarrow>
     (let oid = next_order_id st; fs = es_fee_schedule st;
          ts = map (fill_trade \<lparr>tk_order_id = oid, tk_user_id = uid, tk_side = s\<rparr>) fl in
      engine_inv st' \<and> conserves st st' \<and> es_fee_schedule st' = fs \<and> next_order_id st' = oid + 1 \<and>
      placed (book_of st a) oid s os' (queued_rest oid uid s price r (book_of st a)) (book_of st' a) \<and>
      balances_after fs a uid ts (paid_usd fs s price ts r) (paid_asset s ts r) st st' \<and>
      (\<forall>a'. supported a' \<longrightarrow> a' \<noteq> a \<longrightarrow> book_of st' a' = book_of st a'))"

definition fill_events :: "engine_state \<Rightarrow> nat \<Rightarrow> engine_state \<Rightarrow> string \<Rightarrow> string \<Rightarrow> side \<Rightarrow> (order \<times> nat) list \<Rightarrow> execution_event list" where
  "fill_events st uid st' a market s fl =
     run_events st' a market (map (fill_trade \<lparr>tk_order_id = next_order_id st, tk_user_id = uid, tk_side = s\<rparr>) fl)"

definition limit_done ::
  "bool \<Rightarrow> engine_state \<Rightarrow> publisher \<Rightarrow> order_msg \<Rightarrow> string \<Rightarrow> string \<Rightarrow> side \<Rightarrow> nat \<Rightarrow>
     (order \<times> nat) list \<Rightarrow> order list \<Rightarrow> nat \<Rightarrow> engine_state \<Rightarrow> bool" where
  "limit_done oc st pub msg a market s qty fl os' r st' \<longleftrightarrow>
     handle_limit oc st pub msg a market s qty =
       Some (False, st', limit_reply (emit_all pub (fill_events st (om_user_id msg) st' a market s fl)) msg market qty
         (sum_of snd fl) (resting_of (next_order_id st) (om_user_id msg) s (nat (om_price msg)) r)) \<and>
     order_post st a (om_user_id msg) s (nat (om_price msg)) fl os' r st'"

text \<open>What the settled state and the state after the release of the excess have in common.\<close>

lemma limit_done_frame:
  assumes market: "same_market st st1" "same_market st2 st3" and a: "supported a"
    and cons: "conserves st st1" "conserves st2 st3"
    and settled: "settled a ts (put_orderbook a b' (st1\<lparr>next_order_id := n\<rparr>)) st2"
  shows "conserves st st3" and "es_fee_schedule st3 = es_fee_schedule st" and "next_order_id st3 = n"
    and "book_of st3 a = b'" and "supported a' \<Longrightarrow> a' \<noteq> a \<Longrightarrow> book_of st3 a' = book_of st a'"
    and "run_events (put_orderbook a b' (st1\<lparr>next_order_id := n\<rparr>)) a market ts = run_events st3 a market ts"
proof -
  note books = settled_books [OF settled a]
  have m: "same_market (put_orderbook a b' (st1\<lparr>next_order_id := n\<rparr>)) st3"
    using settled market(2) same_market_trans by (auto simp: settled_def)
  show "conserves st st3"
    using conserves_trans [OF conserves_trans [OF cons(1) settled_conserves [OF settled]] cons(2)] .
  show "es_fee_schedule st3 = es_fee_schedule st"
    using market_fees [OF m] market_fees [OF market(1)] by (simp add: frame_simps)
  show "next_order_id st3 = n" "book_of st3 a = b'"
    using market(2) books(2) [OF a] books(1) [OF a] same_market_book [OF market(2), of a] by (simp_all add: same_market_def)
  show "book_of st3 a' = book_of st a'" if "supported a'" "a' \<noteq> a"
    using books(1) [OF that(1)] that same_market_book [OF market(2), of a'] same_market_book [OF market(1), of a'] by simp
  have "maker_remaining (put_orderbook a b' (st1\<lparr>next_order_id := n\<rparr>)) a = maker_remaining st3 a"
    using m by (simp add: fun_eq_iff same_market_def maker_remaining_def get_orderbook_def Let_def)
  then show "run_events (put_orderbook a b' (st1\<lparr>next_order_id := n\<rparr>)) a market ts = run_events st3 a market ts"
    using market_fees [OF m] by (simp add: run_events_def)
qed

lemma settled_funds:
  assumes market: "same_market st st1" and funds: "same_funds st st1" "same_funds st2 st3"
    and settled: "settled a ts (put_orderbook a b' (st1\<lparr>next_order_id := n\<rparr>)) st2"
  shows "funds_after (es_fee_schedule st) a ts st st3"
proof -
  have fs: "es_fee_schedule st1 = es_fee_schedule st" using market by (simp add: same_market_def)
  have same: "funds (usd_of st1 u) = funds (usd_of st u)" "funds (usd_of st3 u) = funds (usd_of st2 u)"
    "funds (asset_of st1 u a') = funds (asset_of st u a')" "funds (asset_of st3 u a') = funds (asset_of st2 u a')" for u a'
    using funds by (simp_all add: same_funds_def)
  have moved: "usd_debit (es_fee_schedule st) ts u \<le> locked (usd_of st1 u)" "asset_debit ts u \<le> locked (asset_of st1 u a)"
    "available (usd_of st2 u) = available (usd_of st1 u) + usd_credit (es_fee_schedule st) ts u"
    "locked (usd_of st2 u) = locked (usd_of st1 u) - usd_debit (es_fee_schedule st) ts u"
    "available (asset_of st2 u a) = available (asset_of st1 u a) + asset_credit ts u"
    "locked (asset_of st2 u a) = locked (asset_of st1 u a) - asset_debit ts u" for u
    using settled by (simp_all add: settled_def frame_simps fs)
  have "asset_of st2 u a' = asset_of st1 u a'" if "a' \<noteq> a" for u a'
    using settled that by (simp add: settled_def frame_simps)
  moreover have "funds (usd_of st2 u) + usd_debit (es_fee_schedule st) ts u = funds (usd_of st1 u) + usd_credit (es_fee_schedule st) ts u"
    "funds (asset_of st2 u a) + asset_debit ts u = funds (asset_of st1 u a) + asset_credit ts u"
    "usd_debit (es_fee_schedule st) ts u \<le> funds (usd_of st1 u)" "asset_debit ts u \<le> funds (asset_of st1 u a)" for u
    using moved [of u] unfolding funds_def by linarith+
  ultimately show ?thesis
    unfolding funds_after_def using same by simp
qed

text \<open>
  From locking \<open>L\<close>, settling the trades and releasing what is not needed to the balances afterwards,
  for a buyer and for a seller.
\<close>

lemma bid_balances:
  assumes market: "same_market st st1" and funds: "same_funds st st1" "same_funds st2 st3"
    and bal1: "\<And>u. available (usd_of st1 u) + only uid L u = available (usd_of st u)"
      "\<And>u a'. asset_of st1 u a' = asset_of st u a'"
    and settled: "settled a ts (put_orderbook a b' (st1\<lparr>next_order_id := n\<rparr>)) st2"
    and bal3: "\<And>u. available (usd_of st3 u) = available (usd_of st2 u) + only uid (L - spent - rest_due fs price r) u"
      "\<And>u a'. asset_of st3 u a' = asset_of st2 u a'"
    and fs: "fs = es_fee_schedule st" and spent: "spent = sum_of (trade_cost fs) ts"
    and covered: "spent + rest_due fs price r \<le> L"
  shows "balances_after fs a uid ts (paid_usd fs Bid price ts r) (paid_asset Bid ts r) st st3"
proof -
  have "es_fee_schedule st1 = fs" using market by (simp add: same_market_def fs)
  then have "available (usd_of st3 u) + only uid (spent + rest_due fs price r) u =
      available (usd_of st u) + usd_credit fs ts u" for u
    using settled bal1(1) [of u] bal3(1) [of u] covered by (auto simp: settled_def frame_simps split: if_splits)
  then show ?thesis
    unfolding balances_after_def paid_usd_def paid_asset_def side.case spent
    using settled settled_funds [OF market funds settled]
    by (auto simp: settled_def frame_simps bal1(2) bal3(2) fs simp del: if_split)
qed

lemma ask_balances:
  assumes market: "same_market st st1" and funds: "same_funds st st1" "same_funds st2 st3"
    and bal1: "\<And>u. available (asset_of st1 u a) + only uid qty u = available (asset_of st u a)"
      "\<And>u. usd_of st1 u = usd_of st u"
    and settled: "settled a ts (put_orderbook a b' (st1\<lparr>next_order_id := n\<rparr>)) st2"
    and bal3: "\<And>u. available (asset_of st3 u a) = available (asset_of st2 u a) + only uid (qty - sum_of tr_qty ts - r) u"
      "\<And>u. usd_of st3 u = usd_of st2 u"
    and fs: "fs = es_fee_schedule st" and total: "sum_of tr_qty ts + r \<le> qty"
  shows "balances_after fs a uid ts (paid_usd fs Ask price ts r) (paid_asset Ask ts r) st st3"
proof -
  have "es_fee_schedule st1 = fs" using market by (simp add: same_market_def fs)
  moreover have "available (asset_of st3 u a) + only uid (sum_of tr_qty ts + r) u =
      available (asset_of st u a) + asset_credit ts u" for u
    using settled bal1(1) [of u] bal3(1) [of u] total by (auto simp: settled_def frame_simps split: if_splits)
  ultimately show ?thesis
    unfolding balances_after_def paid_usd_def paid_asset_def side.case
    using settled settled_funds [OF market funds settled]
    by (auto simp: settled_def frame_simps bal1(2) bal3(2) fs simp del: if_split)
qed

text \<open>A limit order runs like a sweep with some stop test; a bid spends, with its rest, at most its lock.\<close>

lemma limit_run:
  assumes inv: "engine_inv st" and a: "supported a"
    and fills: "limit_fills tif s price qty (depth (opposite s) (book_of st a)) = (fl, os', n')" and r: "r = rest_qty tif n'"
  obtains stops where "take_fills stops qty (depth (opposite s) (book_of st a)) = (fl, os', n')"
    and "\<forall>f \<in> set fl. \<not> limit_stops s price (ord_price (fst f))" and "sum_of snd fl + n' = qty" and "r \<le> n'"
proof -
  have "\<forall>x \<in> set (depth (opposite s) (book_of st a)). 0 < ord_remaining_qty x"
    using depth_pos(1) inv a by (fastforce simp: engine_inv_def engine_sound_def book_good_def)
  then obtain stops where run: "take_fills stops qty (depth (opposite s) (book_of st a)) = (fl, os', n')"
    and prices: "\<forall>f \<in> set fl. \<not> limit_stops s price (ord_price (fst f))"
    using limit_fills_run [OF fills] by blast
  then show thesis using that [OF run prices take_fills_qty [OF run]] by (simp add: r rest_qty_def)
qed

lemma limit_bid_budget:
  assumes prices: "\<forall>f \<in> set fl. \<not> limit_stops Bid price (ord_price (fst f))" and total: "sum_of snd fl + n' = qty" and "r \<le> n'"
    and fits: "limit_fits fs price qty" and spent: "spent = sum_of (trade_cost fs) (map (fill_trade \<lparr>tk_order_id = oid, tk_user_id = uid, tk_side = Bid\<rparr>) fl)"
  shows "spent + rest_due fs price r \<le> lock_amount fs price qty" and "spent < u64_lim" and "rest_due fs price r < u64_lim"
proof -
  show covered: "spent + rest_due fs price r \<le> lock_amount fs price qty"
    unfolding spent by (rule limit_bid_covered [OF _ _ total \<open>r \<le> n'\<close>]) (use prices in \<open>auto simp: limit_stops_simps\<close>)
  then show "spent < u64_lim" "rest_due fs price r < u64_lim" using fits by (auto simp: limit_fits_def)
qed

lemma limit_bid_done:
  assumes inv: "engine_inv st" and a: "supported a"
    and price: "0 < om_price msg" "price = nat (om_price msg)" and qty: "0 < qty" "qty < u64_lim"
    and fits: "limit_fits (es_fee_schedule st) price qty" and ids: "next_order_id st + 1 < u64_lim"
    and enough: "lock_amount (es_fee_schedule st) price qty \<le> available (usd_of st (om_user_id msg))"
    and fills: "limit_fills (om_time_in_force msg) Bid price qty (depth Ask (book_of st a)) = (fl, os', n')"
    and r: "r = rest_qty (om_time_in_force msg) n'"
  shows "\<exists>st'. limit_done oc st pub msg a market Bid qty fl os' r st'"
proof -
  define fs uid oid where "fs = es_fee_schedule st" and "uid = om_user_id msg" and "oid = next_order_id st"
  define L ts where "L = lock_amount fs price qty"
    and "ts = map (fill_trade \<lparr>tk_order_id = oid, tk_user_id = uid, tk_side = Bid\<rparr>) fl"
  define spent where "spent = sum_of (trade_cost fs) ts"
  note names = fs_def uid_def oid_def
  obtain st1 where lock: "lock_usd oc uid L st = Some (st1, True)" and sound1: "engine_sound st1"
    and solv1: "solvent a (only uid L) nobody st1" and m1: "same_market st st1" and c1: "conserves st st1"
    and bal1: "\<And>u. available (usd_of st1 u) + only uid L u = available (usd_of st u)"
      "\<And>u a'. asset_of st1 u a' = asset_of st u a'" and f1: "same_funds st st1"
    using reserve_usd [OF inv, of L uid] enough by (auto simp: L_def names)
  have eqs: "book_of st1 a = book_of st a" "next_order_id st1 = oid" "es_fee_schedule st1 = fs"
    using m1 same_market_book [OF m1, of a] by (simp_all add: names same_market_def)
  obtain stops where run: "take_fills stops qty (depth Ask (book_of st a)) = (fl, os', n')"
    and prices: "\<forall>f \<in> set fl. \<not> limit_stops Bid price (ord_price (fst f))"
    and total: "sum_of snd fl + n' = qty" and rn: "r \<le> n'"
    using limit_run [OF inv a, where s = Bid, unfolded opposite_simps, OF fills r] by blast
  note budget = limit_bid_budget [OF prices total rn fits [folded fs_def] spent_def [unfolded ts_def]]
  note covered = budget(1) [folded L_def] and fits' = budget(2,3)
  obtain b' rs st2 evs where
    add: "add_order_with_id oc oid uid Bid price qty (om_time_in_force msg) (book_of st a) = Some (b', Inr rs)"
    and settle: "settle_results oc (Bid = Bid) a market rs ((put_orderbook a b' (st1\<lparr>next_order_id := oid + 1\<rparr>), 0, 0, pub), None) =
      Some ((st2, sum_of snd fl, if Bid = Bid then spent else 0, emit_all pub evs), resting_of oid uid Bid price r)"
    and sound2: "engine_sound st2" and solv2: "solvent a (only uid (L - spent - rest_due fs price r)) nobody st2"
    and settled: "settled a ts (put_orderbook a b' (st1\<lparr>next_order_id := oid + 1\<rparr>)) st2"
    and placed: "placed (book_of st a) oid Bid os' (queued_rest oid uid Bid price r (book_of st a)) b'"
    and evs: "evs = run_events (put_orderbook a b' (st1\<lparr>next_order_id := oid + 1\<rparr>)) a market ts"
  proof (rule place_limit [OF sound1 solv1 a _ qty, unfolded eqs])
    show "pays_for st1 a b' (map (fill_trade \<lparr>tk_order_id = oid, tk_user_id = uid, tk_side = Bid\<rparr>) fl)
        (only uid L) nobody (only uid (L - spent - rest_due fs price r)) nobody"
      if "placed (book_of st a) oid Bid os' (queued_rest oid uid Bid price r (book_of st a)) b'" for b'
      using pays_bid [OF run _ that refl, of st1 a spent L, unfolded eqs] covered by (simp add: spent_def ts_def)
  qed (use price fits fills ids r fits' in \<open>auto simp: spent_def ts_def names\<close>)
  obtain st3 where rel: "unlock_usd oc uid (L - spent - rest_due fs price r) st2 = Some st3"
    and inv3: "engine_inv st3" and m3: "same_market st2 st3" and c3: "conserves st2 st3"
    and bal3: "\<And>u. available (usd_of st3 u) = available (usd_of st2 u) + only uid (L - spent - rest_due fs price r) u"
      "\<And>u a'. asset_of st3 u a' = asset_of st2 u a'" and f3: "same_funds st2 st3"
    using release_usd [OF sound2 solv2, of oc] by blast
  have "reconcile oc uid a Bid (om_time_in_force msg) qty L (sum_of snd fl) spent (resting_of oid uid Bid price r) st2 = Some st3"
    using rel needed_locked_ok [OF fits [folded fs_def], of r oc oid uid Bid] rn total fits'(2) settled_fees [OF settled]
    by (simp add: reconcile_def saturating_sub_def frame_simps eqs)
  then have "handle_limit oc st pub msg a market Bid qty =
      Some (False, st3, limit_reply (emit_all pub evs) msg market qty (sum_of snd fl) (resting_of oid uid Bid price r))"
    using lock add settle
    by (intro handle_limit_eval [OF price limit_lock_ok [OF fits] _ m1 ids a, folded names, folded L_def]) simp_all
  moreover have "balances_after fs a uid ts (paid_usd fs Bid price ts r) (paid_asset Bid ts r) st st3"
    by (rule bid_balances [OF m1 f1 f3 bal1 settled bal3 fs_def spent_def covered])
  ultimately show ?thesis
    using limit_done_frame [OF m1 m3 a c1 c3 settled] inv3 placed evs
    by (auto simp: limit_done_def order_post_def fill_events_def Let_def ts_def names price(2))
qed

lemma limit_ask_done:
  assumes inv: "engine_inv st" and a: "supported a"
    and price: "0 < om_price msg" "price = nat (om_price msg)" and qty: "0 < qty" "qty < u64_lim"
    and fits: "limit_fits (es_fee_schedule st) price qty" and ids: "next_order_id st + 1 < u64_lim"
    and enough: "qty \<le> available (asset_of st (om_user_id msg) a)"
    and fills: "limit_fills (om_time_in_force msg) Ask price qty (depth Bid (book_of st a)) = (fl, os', n')"
    and r: "r = rest_qty (om_time_in_force msg) n'"
  shows "\<exists>st'. limit_done oc st pub msg a market Ask qty fl os' r st'"
proof -
  define fs uid oid where "fs = es_fee_schedule st" and "uid = om_user_id msg" and "oid = next_order_id st"
  define ts where "ts = map (fill_trade \<lparr>tk_order_id = oid, tk_user_id = uid, tk_side = Ask\<rparr>) fl"
  note names = fs_def uid_def oid_def
  obtain st1 where lock: "lock_asset oc uid a qty st = Some (st1, True)" and sound1: "engine_sound st1"
    and solv1: "solvent a nobody (only uid qty) st1" and m1: "same_market st st1" and c1: "conserves st st1"
    and bal1: "\<And>u. available (asset_of st1 u a) + only uid qty u = available (asset_of st u a)"
      "\<And>u. usd_of st1 u = usd_of st u" and f1: "same_funds st st1"
    using reserve_asset [OF inv a, of qty uid] enough by (auto simp: names)
  have eqs: "book_of st1 a = book_of st a" "next_order_id st1 = oid" "es_fee_schedule st1 = fs"
    using m1 same_market_book [OF m1, of a] by (simp_all add: names same_market_def)
  obtain stops where run: "take_fills stops qty (depth Bid (book_of st a)) = (fl, os', n')"
    and total: "sum_of snd fl + n' = qty" and rn: "r \<le> n'"
    using limit_run [OF inv a, where s = Ask, unfolded opposite_simps, OF fills r] by blast
  obtain b' rs st2 evs where
    add: "add_order_with_id oc oid uid Ask price qty (om_time_in_force msg) (book_of st a) = Some (b', Inr rs)"
    and settle: "settle_results oc (Ask = Bid) a market rs ((put_orderbook a b' (st1\<lparr>next_order_id := oid + 1\<rparr>), 0, 0, pub), None) =
      Some ((st2, sum_of snd fl, if Ask = Bid then sum_of (trade_cost fs) ts else 0, emit_all pub evs), resting_of oid uid Ask price r)"
    and sound2: "engine_sound st2" and solv2: "solvent a nobody (only uid (qty - sum_of snd fl - r)) st2"
    and settled: "settled a ts (put_orderbook a b' (st1\<lparr>next_order_id := oid + 1\<rparr>)) st2"
    and placed: "placed (book_of st a) oid Ask os' (queued_rest oid uid Ask price r (book_of st a)) b'"
    and evs: "evs = run_events (put_orderbook a b' (st1\<lparr>next_order_id := oid + 1\<rparr>)) a market ts"
  proof (rule place_limit [OF sound1 solv1 a _ qty, unfolded eqs])
    show "pays_for st1 a b' (map (fill_trade \<lparr>tk_order_id = oid, tk_user_id = uid, tk_side = Ask\<rparr>) fl)
        nobody (only uid qty) nobody (only uid (qty - sum_of snd fl - r))"
      if "placed (book_of st a) oid Ask os' (queued_rest oid uid Ask price r (book_of st a)) b'" for b'
      using pays_ask [OF run _ that refl, of st1 a qty, unfolded eqs] total rn by simp
  qed (use price fits fills ids r in \<open>auto simp: ts_def names\<close>)
  obtain st3 where rel: "unlock_asset oc uid a (qty - sum_of snd fl - r) st2 = Some st3"
    and inv3: "engine_inv st3" and m3: "same_market st2 st3" and c3: "conserves st2 st3"
    and bal3: "\<And>u. available (asset_of st3 u a) = available (asset_of st2 u a) + only uid (qty - sum_of snd fl - r) u"
      "\<And>u. usd_of st3 u = usd_of st2 u" and f3: "same_funds st2 st3"
    using release_asset [OF sound2 solv2 a, of oc] by blast
  have "reconcile oc uid a Ask (om_time_in_force msg) qty L (sum_of snd fl) d resting st2 = Some st3" for L d resting
    using rel total by (auto simp: reconcile_def u64_simps unlock_asset_def r rest_qty_def)
  then have "handle_limit oc st pub msg a market Ask qty =
      Some (False, st3, limit_reply (emit_all pub evs) msg market qty (sum_of snd fl) (resting_of oid uid Ask price r))"
    using lock add settle
    by (intro handle_limit_eval [OF price limit_lock_ok [OF fits] _ m1 ids a, folded names]) simp_all
  moreover have "balances_after fs a uid ts (paid_usd fs Ask price ts r) (paid_asset Ask ts r) st st3"
    by (rule ask_balances [OF m1 f1 f3 bal1 settled _ bal3(2) fs_def]) (use bal3(1) total rn in \<open>simp_all add: ts_def comp_def\<close>)
  ultimately show ?thesis
    using limit_done_frame [OF m1 m3 a c1 c3 settled] inv3 placed evs
    by (auto simp: limit_done_def order_post_def fill_events_def Let_def ts_def names price(2))
qed

end
