(* ===== verification/Handler_Market.thy ===== *)
theory Handler_Market
  imports Handler_Limit
begin

text \<open>
  Market orders: what is quoted is what is traded, so the lock of a market buy is exact up to the
  rounding of fees; both branches keep the invariant of the engine.
\<close>

section \<open>Executing and settling\<close>

lemma queued_rest_none [simp]: "queued_rest oid uid s price 0 b = depth s b"
  by (simp add: queued_rest_def)

lemma execute_and_settle_ok:
  assumes sound: "engine_sound st" and solvent: "solvent a ru ra st" and a: "supported a"
    and qty: "0 < qty" "qty < u64_lim" and ids: "next_order_id st + 1 < u64_lim"
    and run: "take_fills (market_stops s worst) qty (depth (opposite s) (book_of st a)) = (fl, os', n')"
    and ts: "ts = map (fill_trade \<lparr>tk_order_id = next_order_id st, tk_user_id = om_user_id msg, tk_side = s\<rparr>) fl"
    and pays: "\<And>b'. placed (book_of st a) (next_order_id st) s os' (depth s (book_of st a)) b' \<Longrightarrow>
      pays_for st a b' ts ru ra ru' ra'"
    and spent: "s = Bid \<Longrightarrow> sum_of (trade_cost (es_fee_schedule st)) ts < u64_lim"
  obtains b' st' where "execute_and_settle oc msg a market s qty worst st pub =
      Some (st', sum_of snd fl, if s = Bid then sum_of (trade_cost (es_fee_schedule st)) ts else 0,
        emit_all pub (run_events (put_orderbook a b' (st\<lparr>next_order_id := next_order_id st + 1\<rparr>)) a market ts))"
    and "engine_sound st'" and "solvent a ru' ra' st'"
    and "settled a ts (put_orderbook a b' (st\<lparr>next_order_id := next_order_id st + 1\<rparr>)) st'"
    and "placed (book_of st a) (next_order_id st) s os' (depth s (book_of st a)) b'"
proof -
  let ?b = "book_of st a" and ?n = "next_order_id st"
  let ?t = "\<lparr>tk_order_id = ?n, tk_user_id = om_user_id msg, tk_side = s\<rparr>"
  have "book_good (es_fee_schedule st) ?n ?b"
    using sound a by (simp add: engine_sound_def)
  then have inv: "book_inv ?b" and next_id: "ob_next_order_id ?b \<le> ?n" and unc: "uncrossed ?b"
    by (simp_all add: book_good_def)
  obtain b' where exec: "execute_market_order_with_id oc ?n (om_user_id msg) s qty worst ?b =
      Some (b', Inr (map (MR_Trade \<circ> fill_trade ?t) fl))" and placed: "placed ?b ?n s os' (depth s ?b) b'"
    using execute_market_order_refines [OF inv qty(1) next_id ids run] by blast
  have unc': "uncrossed b'" by (rule market_keeps_uncrossed [OF unc run placed])
  have placed0: "placed ?b ?n s os' (queued_rest ?n (om_user_id msg) s 0 0 ?b) b'"
    using placed by simp
  obtain st' where settle: "settle_results oc (s = Bid) a market (map (MR_Trade \<circ> fill_trade ?t) fl)
        ((put_orderbook a b' (st\<lparr>next_order_id := ?n + 1\<rparr>), 0, 0, pub), None) =
      Some ((st', sum_of snd fl, if s = Bid then sum_of (trade_cost (es_fee_schedule st)) ts else 0,
        emit_all pub (run_events (put_orderbook a b' (st\<lparr>next_order_id := ?n + 1\<rparr>)) a market ts)), None)"
    and post: "engine_sound st'" "solvent a ru' ra' st'"
      "settled a ts (put_orderbook a b' (st\<lparr>next_order_id := ?n + 1\<rparr>)) st'"
    using execution_step [where track = "s = Bid" and res = None and oc = oc and market = market and pub = pub,
        OF sound solvent a run refl ts placed0 unc' _ pays [OF placed] refl qty(2) spent] by auto
  have "execute_and_settle oc msg a market s qty worst st pub =
      Some (st', sum_of snd fl, if s = Bid then sum_of (trade_cost (es_fee_schedule st)) ts else 0,
        emit_all pub (run_events (put_orderbook a b' (st\<lparr>next_order_id := ?n + 1\<rparr>)) a market ts))"
    using exec settle take_order_id_ok [OF ids, of oc] get_orderbook_supported [OF a]
    by (simp add: execute_and_settle_def frame_simps)
  then show thesis using post placed by (rule that)
qed

section \<open>Market sells\<close>

definition market_done ::
  "outcome option \<Rightarrow> engine_state \<Rightarrow> publisher \<Rightarrow> order_msg \<Rightarrow> string \<Rightarrow> string \<Rightarrow> side \<Rightarrow> nat \<Rightarrow>
     (order \<times> nat) list \<Rightarrow> order list \<Rightarrow> engine_state \<Rightarrow> bool" where
  "market_done result st pub msg a market s qty fl os' st' \<longleftrightarrow>
     result = Some (False, st', status_reply (emit_all pub (fill_events st (om_user_id msg) st' a market s fl)) msg
       (fill_status (sum_of snd fl) qty)) \<and>
     order_post st a (om_user_id msg) s 0 fl os' 0 st'"

lemma market_ask_done:
  assumes inv: "engine_inv st" and a: "supported a" and qty: "0 < qty" "qty < u64_lim"
    and ids: "next_order_id st + 1 < u64_lim"
    and run: "take_fills (market_stops Ask (sell_floor st msg a)) qty (depth Bid (book_of st a)) = (fl, os', n')"
    and fok: "om_time_in_force msg = Fok \<Longrightarrow> n' = 0"
    and enough: "qty \<le> available (asset_of st (om_user_id msg) a)"
  shows "\<exists>st'. market_done (handle_market_ask oc st pub msg a market qty) st pub msg a market Ask qty fl os' st'"
proof -
  define fs uid oid where "fs = es_fee_schedule st" and "uid = om_user_id msg" and "oid = next_order_id st"
  define ts where "ts = map (fill_trade \<lparr>tk_order_id = oid, tk_user_id = uid, tk_side = Ask\<rparr>) fl"
  note names = fs_def uid_def oid_def
  have binv: "book_inv (book_of st a)"
    using inv a by (simp add: engine_inv_def engine_sound_def book_good_def)
  have total: "sum_of snd fl + n' = qty" by (rule take_fills_qty [OF run])
  obtain st1 where lock: "lock_asset oc uid a qty st = Some (st1, True)" and sound1: "engine_sound st1"
    and solv1: "solvent a nobody (only uid qty) st1" and m1: "same_market st st1" and c1: "conserves st st1"
    and bal1: "\<And>u. available (asset_of st1 u a) + only uid qty u = available (asset_of st u a)"
      "\<And>u. usd_of st1 u = usd_of st u" and f1: "same_funds st st1"
    using reserve_asset [OF inv a, of qty uid] enough by (auto simp: names)
  have eqs: "book_of st1 a = book_of st a" "next_order_id st1 = oid" "es_fee_schedule st1 = fs"
    using m1 same_market_book [OF m1, of a] by (simp_all add: names same_market_def)
  obtain b' st2 where
    exec: "execute_and_settle oc msg a market Ask qty (sell_floor st msg a) st1 pub =
      Some (st2, sum_of snd fl, if Ask = Bid then sum_of (trade_cost fs) ts else 0,
        emit_all pub (run_events (put_orderbook a b' (st1\<lparr>next_order_id := oid + 1\<rparr>)) a market ts))"
    and sound2: "engine_sound st2" and solv2: "solvent a nobody (only uid (qty - sum_of snd fl - 0)) st2"
    and settled: "settled a ts (put_orderbook a b' (st1\<lparr>next_order_id := oid + 1\<rparr>)) st2"
    and placed: "placed (book_of st a) oid Ask os' (depth Ask (book_of st a)) b'"
  proof (rule execute_and_settle_ok [OF sound1 solv1 a qty, unfolded eqs])
    show "pays_for st1 a b' ts nobody (only uid qty) nobody (only uid (qty - sum_of snd fl - 0))"
      if "placed (book_of st a) oid Ask os' (depth Ask (book_of st a)) b'" for b'
      using pays_ask [OF run _ _ refl, of st1 a oid uid 0 0 b' qty, unfolded eqs] total that by (simp add: ts_def)
  qed (use run ids in \<open>auto simp: ts_def names\<close>)
  obtain st3 where rel: "unlock_asset oc uid a (qty - sum_of snd fl - 0) st2 = Some st3"
    and inv3: "engine_inv st3" and m3: "same_market st2 st3" and c3: "conserves st2 st3"
    and bal3: "\<And>u. available (asset_of st3 u a) = available (asset_of st2 u a) + only uid (qty - sum_of snd fl - 0) u"
      "\<And>u. usd_of st3 u = usd_of st2 u" and f3: "same_funds st2 st3"
    using release_asset [OF sound2 solv2 a, of oc] by blast
  have "fillable_qty_for_market_sell oc (book_of st a) qty (sell_floor st msg a) = Some (sum_of snd fl)"
    by (rule fillable_qty_eq [OF binv qty(1) run qty(2)])
  then have "handle_market_ask oc st pub msg a market qty = Some (False, st3, status_reply
      (emit_all pub (run_events (put_orderbook a b' (st1\<lparr>next_order_id := oid + 1\<rparr>)) a market ts)) msg
      (fill_status (sum_of snd fl) qty))"
    using lock exec rel total fok get_orderbook_supported [OF a, of st]
    by (cases "om_time_in_force msg = Fok") (simp_all add: handle_market_ask_def Let_def u64_simps flip: uid_def)
  moreover have "balances_after fs a uid ts (paid_usd fs Ask 0 ts 0) (paid_asset Ask ts 0) st st3"
    by (rule ask_balances [OF m1 f1 f3 bal1 settled _ bal3(2) fs_def]) (use bal3(1) total in \<open>simp_all add: ts_def comp_def\<close>)
  ultimately show ?thesis
    using limit_done_frame [OF m1 m3 a c1 c3 settled] inv3 placed
    by (auto simp: market_done_def order_post_def fill_events_def Let_def ts_def names)
qed

section \<open>Market buys\<close>

definition market_cost :: "fee_schedule \<Rightarrow> (order \<times> nat) list \<Rightarrow> nat" where
  "market_cost fs fl = fills_cost fl + taker_fee fs (fills_cost fl)"

definition market_fits :: "fee_schedule \<Rightarrow> (order \<times> nat) list \<Rightarrow> bool" where
  "market_fits fs fl \<longleftrightarrow> fills_cost fl * taker_fee_bps fs < u64_lim \<and> market_cost fs fl < u64_lim"

lemma market_quote:
  assumes inv: "engine_inv st" and a: "supported a" and qty: "0 < qty" "qty < u64_lim"
    and run: "take_fills (market_stops Bid worst) qty (depth Ask (book_of st a)) = (fl, os', n')"
    and fits: "market_fits (es_fee_schedule st) fl"
  shows "quote_cost_for_market_buy oc (book_of st a) qty worst = Some (fills_cost fl, sum_of snd fl)"
    and "calc_taker_fee oc (es_fee_schedule st) (fills_cost fl) = Some (taker_fee (es_fee_schedule st) (fills_cost fl))"
    and "u64_add oc (fills_cost fl) (taker_fee (es_fee_schedule st) (fills_cost fl)) = Some (market_cost (es_fee_schedule st) fl)"
proof -
  have "book_inv (book_of st a)" using inv a by (simp add: engine_inv_def engine_sound_def book_good_def)
  moreover have "fills_cost fl < u64_lim" using fits by (simp add: market_fits_def market_cost_def)
  ultimately show "quote_cost_for_market_buy oc (book_of st a) qty worst = Some (fills_cost fl, sum_of snd fl)"
    by (intro quote_cost_eq [OF _ qty(1) run _ qty(2)])
qed (use fits in \<open>simp_all add: market_fits_def market_cost_def u64_simps\<close>)

lemma market_bid_done:
  assumes inv: "engine_inv st" and a: "supported a" and qty: "0 < qty" "qty < u64_lim"
    and ids: "next_order_id st + 1 < u64_lim"
    and run: "take_fills (market_stops Bid (buy_cap st msg a)) qty (depth Ask (book_of st a)) = (fl, os', n')"
    and some: "fl \<noteq> []" and fok: "om_time_in_force msg = Fok \<Longrightarrow> n' = 0" and fits: "market_fits (es_fee_schedule st) fl"
    and enough: "market_cost (es_fee_schedule st) fl \<le> available (usd_of st (om_user_id msg))"
  shows "\<exists>st'. market_done (handle_market_bid oc st pub msg a market qty) st pub msg a market Bid qty fl os' st'"
proof -
  define fs uid oid where "fs = es_fee_schedule st" and "uid = om_user_id msg" and "oid = next_order_id st"
  define R ts where "R = market_cost fs fl"
    and "ts = map (fill_trade \<lparr>tk_order_id = oid, tk_user_id = uid, tk_side = Bid\<rparr>) fl"
  define spent where "spent = sum_of (trade_cost fs) ts"
  note names = fs_def uid_def oid_def
  have binv: "book_inv (book_of st a)"
    using inv a by (simp add: engine_inv_def engine_sound_def book_good_def)
  have total: "sum_of snd fl + n' = qty" by (rule take_fills_qty [OF run])
  have pos: "\<exists>f \<in> set fl. 0 < snd f"
    using take_fills_members [OF run hd_in_set [OF some]] depth_pos(1) [OF binv] hd_in_set [OF some] by blast
  have covered: "spent \<le> R" and "R < u64_lim"
    using spent_le [of _ fs fl] fits by (auto simp: spent_def ts_def R_def market_cost_def market_fits_def names)
  obtain st1 where lock: "lock_usd oc uid R st = Some (st1, True)" and sound1: "engine_sound st1"
    and solv1: "solvent a (only uid R) nobody st1" and m1: "same_market st st1" and c1: "conserves st st1"
    and bal1: "\<And>u. available (usd_of st1 u) + only uid R u = available (usd_of st u)"
      "\<And>u a'. asset_of st1 u a' = asset_of st u a'" and f1: "same_funds st st1"
    using reserve_usd [OF inv, of R uid] enough by (auto simp: R_def names)
  have eqs: "book_of st1 a = book_of st a" "next_order_id st1 = oid" "es_fee_schedule st1 = fs"
    using m1 same_market_book [OF m1, of a] by (simp_all add: names same_market_def)
  obtain b' st2 where
    exec: "execute_and_settle oc msg a market Bid qty (buy_cap st msg a) st1 pub =
      Some (st2, sum_of snd fl, if Bid = Bid then spent else 0,
        emit_all pub (run_events (put_orderbook a b' (st1\<lparr>next_order_id := oid + 1\<rparr>)) a market ts))"
    and sound2: "engine_sound st2" and solv2: "solvent a (only uid (R - spent - 0)) nobody st2"
    and settled: "settled a ts (put_orderbook a b' (st1\<lparr>next_order_id := oid + 1\<rparr>)) st2"
    and placed: "placed (book_of st a) oid Bid os' (depth Bid (book_of st a)) b'"
  proof (rule execute_and_settle_ok [OF sound1 solv1 a qty, unfolded eqs])
    show "pays_for st1 a b' ts (only uid R) nobody (only uid (R - spent - 0)) nobody"
      if "placed (book_of st a) oid Bid os' (depth Bid (book_of st a)) b'" for b'
      using pays_bid [OF run _ _ refl, of st1 a oid uid 0 0 b' spent R, unfolded eqs rest_due_zero] covered that
      by (simp add: ts_def spent_def)
  qed (use run ids covered \<open>R < u64_lim\<close> in \<open>auto simp: ts_def names spent_def\<close>)
  obtain st3 where rel: "unlock_usd oc uid (R - spent - 0) st2 = Some st3"
    and inv3: "engine_inv st3" and m3: "same_market st2 st3" and c3: "conserves st2 st3"
    and bal3: "\<And>u. available (usd_of st3 u) = available (usd_of st2 u) + only uid (R - spent - 0) u"
      "\<And>u a'. asset_of st3 u a' = asset_of st2 u a'" and f3: "same_funds st2 st3"
    using release_usd [OF sound2 solv2, of oc] by blast
  note quote = market_quote [OF inv a qty run fits, of oc, folded fs_def, folded R_def]
  have "handle_market_bid oc st pub msg a market qty = Some (False, st3, status_reply
      (emit_all pub (run_events (put_orderbook a b' (st1\<lparr>next_order_id := oid + 1\<rparr>)) a market ts)) msg
      (fill_status (sum_of snd fl) qty))"
    using quote lock exec rel total fok pos qty(1) get_orderbook_supported [OF a, of st]
    by (cases "om_time_in_force msg = Fok")
      (simp_all add: handle_market_bid_def Let_def u64_simps saturating_sub_def flip: fs_def uid_def)
  moreover have "balances_after fs a uid ts (paid_usd fs Bid 0 ts 0) (paid_asset Bid ts 0) st st3"
    by (rule bid_balances [OF m1 f1 f3 bal1 settled _ bal3(2) fs_def spent_def]) (use bal3(1) covered in simp_all)
  ultimately show ?thesis
    using limit_done_frame [OF m1 m3 a c1 c3 settled] inv3 placed
    by (auto simp: market_done_def order_post_def fill_events_def Let_def ts_def names)
qed

end
