(* ===== verification/Handler_Order.thy ===== *)
theory Handler_Order
  imports Handler_Market Publisher
begin

text \<open>
  The order handler as a whole: for every message whose amounts fit into 64 bits it returns, keeps
  the invariant and conserves every currency, on every branch.
\<close>

section \<open>Safe steps\<close>

definition safe_step :: "engine_state \<Rightarrow> engine_state \<Rightarrow> bool" where
  "safe_step st st' \<longleftrightarrow> engine_inv st' \<and> conserves st st' \<and> es_fee_schedule st' = es_fee_schedule st \<and>
     next_order_id st \<le> next_order_id st' \<and> next_order_id st' \<le> next_order_id st + 1"

lemma safe_step_refl: "engine_inv st \<Longrightarrow> safe_step st st"
  by (simp add: safe_step_def)

lemma safe_step_post: "order_post st a uid s price fl os' r st' \<Longrightarrow> safe_step st st'"
  by (simp add: order_post_def safe_step_def Let_def)

text \<open>A step that changes no balance.\<close>

definition idle_step :: "engine_state \<Rightarrow> engine_state \<Rightarrow> bool" where
  "idle_step st st' \<longleftrightarrow> safe_step st st' \<and> usd_of st' = usd_of st \<and> (\<forall>u a. asset_of st' u a = asset_of st u a)"

lemma idle_step_refl: "engine_inv st \<Longrightarrow> idle_step st st"
  by (simp add: idle_step_def safe_step_refl)

lemma idle_step_touch:
  assumes "engine_inv st"
  shows "idle_step st (usd_touch u st)" and "idle_step st (asset_touch u a st)"
  using touch_inv [OF assms, of "usd_touch u st" u] touch_inv [OF assms, of "asset_touch u a st" u "to_lowercase a"]
  by (simp_all add: idle_step_def safe_step_def asset_touch_def same_market_def frame_simps)

section \<open>What a handler sends\<close>

definition executions :: "out_msg list \<Rightarrow> execution_event list" where
  "executions out = List.map_filter (\<lambda>m. case m of Xadd _ ev \<Rightarrow> Some ev | _ \<Rightarrow> None) out"

lemma executions_simps [simp]:
  "executions [] = []" "executions (Lpush q x # out) = executions out" "executions (Xadd k ev # out) = ev # executions out"
  "executions (Del ks # out) = executions out" "executions (xs @ ys) = executions xs @ executions ys"
  "executions (map (Xadd k) evs) = evs"
  by (induction evs) (simp_all add: executions_def map_filter_def)

text \<open>The publisher extended by commands with the given execution events among them.\<close>

definition sends :: "publisher \<Rightarrow> execution_event list \<Rightarrow> publisher \<Rightarrow> bool" where
  "sends pub evs pub' \<longleftrightarrow> (\<exists>out. pub' = graft pub (Some out) \<and> executions out = evs)"

lemma sends_trans: "sends pub evs pub1 \<Longrightarrow> sends pub1 evs' pub2 \<Longrightarrow> sends pub (evs @ evs') pub2"
  unfolding sends_def
proof (elim exE conjE)
  fix out out' assume "pub1 = graft pub (Some out)" "executions out = evs" "pub2 = graft pub1 (Some out')" "executions out' = evs'"
  then show "\<exists>out. pub2 = graft pub (Some out) \<and> executions out = evs @ evs'"
    by (intro exI [of _ "out @ out'"]) (cases pub; simp add: graft_def)
qed

lemma sends_refl: "sends pub [] pub"
  by (auto simp: sends_def intro: exI [of _ "[]"])

lemma sends_reply: "sends pub evs pub1 \<Longrightarrow> sends pub evs (reply pub1 q x)"
proof -
  assume "sends pub evs pub1"
  moreover have "sends pub1 [] (reply pub1 q x)"
    by (auto simp: sends_def graft_def reply_def intro: exI [of _ "[Lpush (REPLY_PREFIX @ q) x]"])
  ultimately show ?thesis using sends_trans by fastforce
qed

lemma sends_emit: "sends pub evs (emit_all pub evs)" "sends pub evs pub1 \<Longrightarrow> sends pub (evs @ [e]) (emit_execution pub1 e)"
proof -
  show emit: "sends pub evs (emit_all pub evs)" for pub evs
    by (auto simp: sends_def graft_def emit_all_def intro!: exI [of _ "map (Xadd STREAM_EXECUTIONS) evs"])
  have "emit_execution pub1 e = emit_all pub1 [e]" using emit_all_simps(3) [of pub1 "[]" e] by simp
  then show "sends pub evs pub1 \<Longrightarrow> sends pub (evs @ [e]) (emit_execution pub1 e)"
    using emit [of pub1 "[e]"] sends_trans by simp
qed

lemma sends_error: "sends pub [] (reply_error pub q i e c)" "sends pub [] (status_reply pub msg x)"
  by (simp_all add: reply_error_def status_reply_def sends_reply sends_refl)

lemma sends_status: "sends pub evs (status_reply (emit_all pub evs) msg x)"
  by (simp add: status_reply_def sends_reply sends_emit(1))

lemma sends_limit: "\<exists>rest. sends pub (evs @ map OrderCreated rest) (limit_reply (emit_all pub evs) msg market qty f r)"
proof (cases r)
  case None
  then show ?thesis
    by (auto simp: limit_reply_def intro!: exI [of _ "[]"] sends_reply sends_emit(1))
next
  case (Some acc)
  then show ?thesis
    using sends_emit(2) [OF sends_emit(1) [of pub evs]]
    by (auto simp: limit_reply_def simp del: emit_all_simps intro!: sends_reply exI [of _ "[_]"])
qed

text \<open>Fills against the book of a sound engine have positive price and quantity.\<close>

definition fills_pos :: "(order \<times> nat) list \<Rightarrow> bool" where
  "fills_pos fl \<longleftrightarrow> (\<forall>f \<in> set fl. 0 < ord_price (fst f) \<and> 0 < snd f)"

lemma fills_pos_run:
  assumes "engine_inv st" and "supported a" and "take_fills stops qty (depth s (book_of st a)) = (fl, os', n')"
  shows "fills_pos fl"
proof -
  have inv: "book_inv (book_of st a)"
    using assms(1,2) by (simp add: engine_inv_def engine_sound_def book_good_def)
  then show ?thesis
    unfolding fills_pos_def using take_fills_members [OF assms(3)] depth_pos(1,2) [OF inv] by blast
qed

lemma fills_pos_limit:
  assumes "engine_inv st" and "supported a" and "limit_fills tif s' price qty (depth s (book_of st a)) = (fl, os', n')"
  shows "fills_pos fl"
proof -
  have inv: "book_inv (book_of st a)"
    using assms(1,2) by (simp add: engine_inv_def engine_sound_def book_good_def)
  have "\<forall>x \<in> set (depth s (book_of st a)). 0 < ord_remaining_qty x"
    using depth_pos(1) [OF inv] by auto
  then obtain stops where "take_fills stops qty (depth s (book_of st a)) = (fl, os', n')"
    by (rule limit_fills_run [OF assms(3)])
  then show ?thesis by (rule fills_pos_run [OF assms(1,2)])
qed

text \<open>
  The two kinds of outcome: the order is refused, nothing is executed and no balance changes, or it is
  executed with the fills \<open>fl\<close>, which are reported, followed by the order that rests, if one does.
\<close>

definition order_outcome ::
  "engine_state \<Rightarrow> publisher \<Rightarrow> nat \<Rightarrow> string \<Rightarrow> string \<Rightarrow> side \<Rightarrow> engine_state \<Rightarrow> publisher \<Rightarrow> bool" where
  "order_outcome st pub uid a market s st' pub' \<longleftrightarrow>
     (idle_step st st' \<and> sends pub [] pub') \<or>
     (\<exists>price fl os' r rest. order_post st a uid s price fl os' r st' \<and> fills_pos fl \<and>
        sends pub (fill_events st uid st' a market s fl @ map OrderCreated rest) pub')"

lemma order_outcome_safe: "order_outcome st pub uid a market s st' pub' \<Longrightarrow> safe_step st st'"
  by (auto simp: order_outcome_def idle_step_def intro: safe_step_post)

lemma outcome_refused:
  "idle_step st st' \<Longrightarrow> order_outcome st pub uid a market s st' (reply_error pub q i e c)"
  "idle_step st st' \<Longrightarrow> order_outcome st pub uid a market s st' (status_reply pub msg x)"
  by (simp_all add: order_outcome_def sends_error)

lemma outcome_limit:
  assumes "limit_done oc st pub msg a market s qty fl os' r st'" and "fills_pos fl"
  shows "\<exists>pub'. handle_limit oc st pub msg a market s qty = Some (False, st', pub') \<and>
    order_outcome st pub (om_user_id msg) a market s st' pub'"
  using assms sends_limit [of pub "fill_events st (om_user_id msg) st' a market s fl" msg market qty "sum_of snd fl"
      "resting_of (next_order_id st) (om_user_id msg) s (nat (om_price msg)) r"]
  unfolding limit_done_def order_outcome_def by blast

lemma outcome_market:
  assumes "market_done result st pub msg a market s qty fl os' st'" and "fills_pos fl"
  shows "\<exists>pub'. result = Some (False, st', pub') \<and> order_outcome st pub (om_user_id msg) a market s st' pub'"
  using assms sends_status [of pub "fill_events st (om_user_id msg) st' a market s fl" msg "fill_status (sum_of snd fl) qty"]
  unfolding market_done_def order_outcome_def by (metis append_Nil2 list.map(1))

lemma lock_insufficient:
  "available (usd_of st u) < x \<Longrightarrow> lock_usd oc u x st = Some (usd_touch u st, False)"
  "supported a \<Longrightarrow> available (asset_of st u a) < x \<Longrightarrow> lock_asset oc u a x st = Some (asset_touch u a st, False)"
  by (simp_all add: lock_usd_def lock_asset_def supported_lower)

section \<open>The branches\<close>

definition limit_funded :: "engine_state \<Rightarrow> order_msg \<Rightarrow> string \<Rightarrow> side \<Rightarrow> nat \<Rightarrow> bool" where
  "limit_funded st msg a s qty \<longleftrightarrow>
     (case s of Bid \<Rightarrow> lock_amount (es_fee_schedule st) (nat (om_price msg)) qty \<le> available (usd_of st (om_user_id msg))
      | Ask \<Rightarrow> qty \<le> available (asset_of st (om_user_id msg) a))"

lemma limit_order_done:
  assumes inv: "engine_inv st" and a: "supported a" and price: "0 < om_price msg"
    and qty: "0 < qty" "qty < u64_lim"
    and fits: "limit_fits (es_fee_schedule st) (nat (om_price msg)) qty" and ids: "next_order_id st + 1 < u64_lim"
    and funded: "limit_funded st msg a s qty"
    and fills: "limit_fills (om_time_in_force msg) s (nat (om_price msg)) qty (depth (opposite s) (book_of st a)) = (fl, os', n')"
  shows "\<exists>st'. limit_done oc st pub msg a market s qty fl os' (rest_qty (om_time_in_force msg) n') st'"
proof (cases s)
  case Bid
  then show ?thesis
    using limit_bid_done [OF inv a price refl qty fits ids _ _ refl] funded fills by (simp add: limit_funded_def)
next
  case Ask
  then show ?thesis
    using limit_ask_done [OF inv a price refl qty fits ids _ _ refl] funded fills by (simp add: limit_funded_def)
qed

lemma handle_limit_outcome:
  assumes inv: "engine_inv st" and a: "supported a" and qty: "0 < qty" "qty < u64_lim"
    and fits: "limit_fits (es_fee_schedule st) (nat (om_price msg)) qty" and ids: "next_order_id st + 1 < u64_lim"
  shows "\<exists>ret st' pub'. handle_limit oc st pub msg a market s qty = Some (ret, st', pub') \<and> order_outcome st pub (om_user_id msg) a market s st' pub'"
proof (cases "0 < om_price msg")
  case False
  then show ?thesis using outcome_refused [OF idle_step_refl [OF inv]] False by (auto simp: handle_limit_def)
next
  case True
  let ?uid = "om_user_id msg" and ?price = "nat (om_price msg)"
  show ?thesis
  proof (cases "limit_funded st msg a s qty")
    case False
    then show ?thesis
      using True limit_lock_ok [OF fits, of oc] outcome_refused [OF idle_step_touch(1) [OF inv, of ?uid]]
        outcome_refused [OF idle_step_touch(2) [OF inv, of ?uid]] lock_insufficient a
      by (cases s) (auto simp: handle_limit_def limit_funded_def Let_def)
  next
    case funded: True
    obtain fl os' n' where fills: "limit_fills (om_time_in_force msg) s ?price qty (depth (opposite s) (book_of st a)) = (fl, os', n')"
      by (metis prod_cases3)
    show ?thesis
      using limit_order_done [OF inv a True qty fits ids funded fills, of oc pub market]
        outcome_limit [OF _ fills_pos_limit [OF inv a fills]] by blast
  qed
qed

lemma handle_market_ask_outcome:
  assumes inv: "engine_inv st" and a: "supported a" and qty: "0 < qty" "qty < u64_lim"
    and ids: "next_order_id st + 1 < u64_lim"
  shows "\<exists>ret st' pub'. handle_market_ask oc st pub msg a market qty = Some (ret, st', pub') \<and> order_outcome st pub (om_user_id msg) a market Ask st' pub'"
proof -
  obtain fl os' n' where run: "take_fills (market_stops Ask (sell_floor st msg a)) qty (depth Bid (book_of st a)) = (fl, os', n')"
    by (metis prod_cases3)
  have total: "sum_of snd fl + n' = qty" by (rule take_fills_qty [OF run])
  have "book_inv (book_of st a)"
    using inv a by (simp add: engine_inv_def engine_sound_def book_good_def)
  then have fillable: "fillable_qty_for_market_sell oc (book_of st a) qty (sell_floor st msg a) = Some (sum_of snd fl)"
    by (rule fillable_qty_eq [OF _ qty(1) run qty(2)])
  note ob = get_orderbook_supported [OF a, of st]
  consider (killed) "om_time_in_force msg = Fok" "0 < n'"
    | (poor) "om_time_in_force msg = Fok \<longrightarrow> n' = 0" "available (asset_of st (om_user_id msg) a) < qty"
    | (filled) "om_time_in_force msg = Fok \<longrightarrow> n' = 0" "qty \<le> available (asset_of st (om_user_id msg) a)"
    by linarith
  then show ?thesis
  proof cases
    case killed
    with total fillable show ?thesis
      using outcome_refused [OF idle_step_refl [OF inv]] by (auto simp: handle_market_ask_def Let_def ob)
  next
    case poor
    with total fillable show ?thesis
      using outcome_refused [OF idle_step_touch(2) [OF inv]] lock_insufficient(2) [OF a poor(2)]
      by (cases "om_time_in_force msg = Fok") (auto simp: handle_market_ask_def Let_def ob)
  next
    case filled
    then show ?thesis
      using market_ask_done [OF inv a qty ids run, of oc pub market] outcome_market fills_pos_run [OF inv a run] by blast
  qed
qed

lemma handle_market_bid_outcome:
  assumes inv: "engine_inv st" and a: "supported a" and qty: "0 < qty" "qty < u64_lim"
    and ids: "next_order_id st + 1 < u64_lim"
    and fits: "market_fits (es_fee_schedule st)
      (fst (take_fills (market_stops Bid (buy_cap st msg a)) qty (depth Ask (book_of st a))))"
  shows "\<exists>ret st' pub'. handle_market_bid oc st pub msg a market qty = Some (ret, st', pub') \<and> order_outcome st pub (om_user_id msg) a market Bid st' pub'"
proof -
  obtain fl os' n' where run: "take_fills (market_stops Bid (buy_cap st msg a)) qty (depth Ask (book_of st a)) = (fl, os', n')"
    by (metis prod_cases3)
  with fits have fits': "market_fits (es_fee_schedule st) fl" by simp
  define q where "q = sum_of snd fl"
  have total: "q + n' = qty" unfolding q_def by (rule take_fills_qty [OF run])
  note quote = market_quote(1) [OF inv a qty run fits', of oc, folded q_def]
    and fee = market_quote(2,3) [OF inv a qty run fits', of oc]
  note ob = get_orderbook_supported [OF a, of st]
  consider (empty) "q = 0" | (killed) "om_time_in_force msg = Fok" "0 < n'"
    | (poor) "0 < q" "om_time_in_force msg = Fok \<longrightarrow> n' = 0"
        "available (usd_of st (om_user_id msg)) < market_cost (es_fee_schedule st) fl"
    | (filled) "0 < q" "om_time_in_force msg = Fok \<longrightarrow> n' = 0"
        "market_cost (es_fee_schedule st) fl \<le> available (usd_of st (om_user_id msg))"
    by linarith
  then show ?thesis
  proof cases
    case empty
    then show ?thesis
      using quote outcome_refused [OF idle_step_refl [OF inv]] by (auto simp: handle_market_bid_def Let_def ob)
  next
    case killed
    with total quote show ?thesis
      using outcome_refused [OF idle_step_refl [OF inv]] by (auto simp: handle_market_bid_def Let_def ob)
  next
    case poor
    then show ?thesis
      using quote fee total outcome_refused [OF idle_step_touch(1) [OF inv]] lock_insufficient(1) [OF poor(3)]
      by (cases "om_time_in_force msg = Fok") (auto simp: handle_market_bid_def Let_def ob)
  next
    case filled
    then have "fl \<noteq> []" by (auto simp: q_def)
    with filled show ?thesis
      using market_bid_done [OF inv a qty ids run _ _ fits', of oc pub market] outcome_market fills_pos_run [OF inv a run] by blast
  qed
qed

section \<open>The handler\<close>

lemma emit_depth_ok:
  assumes inv: "engine_inv st" and a: "supported a"
  shows "emit_depth oc st pub a market = Some (emit_execution pub (DepthUpdated market
    (map (\<lambda>l. (ls_price l, ls_qty l)) (take 25 (depth_rows (depth Bid (book_of st a)))))
    (map (\<lambda>l. (ls_price l, ls_qty l)) (take 25 (depth_rows (depth Ask (book_of st a)))))))"
proof -
  have sound: "engine_sound st" and solvent: "solvent a nobody nobody st"
    using inv engine_inv_solvent [of st a] by simp_all
  then have "book_inv (book_of st a)" using a by (simp add: engine_sound_def book_good_def)
  then show ?thesis
    using get_state_eq [OF _ depth_fits [OF sound solvent a], of oc] get_orderbook_supported [OF a, of st]
    by (simp add: emit_depth_def Let_def)
qed

text \<open>The amounts of a message stay within 64 bits where the handler computes with them.\<close>

definition msg_fits :: "engine_state \<Rightarrow> order_msg \<Rightarrow> bool" where
  "msg_fits st msg \<longleftrightarrow>
     (let a = to_lowercase (om_asset msg); fs = es_fee_schedule st; qty = nat (om_qty msg) in
      next_order_id st + 1 < u64_lim \<and> qty < u64_lim \<and>
      (case om_order_type msg of
         Limit \<Rightarrow> limit_fits fs (nat (om_price msg)) qty
       | Market \<Rightarrow> parse_side (om_side msg) = Some Bid \<longrightarrow>
           market_fits fs (fst (take_fills (market_stops Bid (buy_cap st msg a)) qty (depth Ask (book_of st a))))))"

text \<open>Events that carry no money: everything but trades and funding.\<close>

definition no_money :: "execution_event list \<Rightarrow> bool" where
  "no_money evs \<longleftrightarrow> (\<forall>ev \<in> set evs. case ev of TradeExecuted _ \<Rightarrow> False | FundingExecuted _ _ _ _ \<Rightarrow> False | _ \<Rightarrow> True)"

lemma no_money_simps [simp]:
  "no_money []" "no_money (xs @ ys) \<longleftrightarrow> no_money xs \<and> no_money ys" "no_money (map OrderCreated rest)"
  "no_money [DepthUpdated m bs as]" "no_money [OrderCancelled i u q]"
  by (auto simp: no_money_def)

definition order_handled :: "engine_state \<Rightarrow> publisher \<Rightarrow> nat \<Rightarrow> string \<Rightarrow> engine_state \<Rightarrow> publisher \<Rightarrow> bool" where
  "order_handled st pub uid a st' pub' \<longleftrightarrow> (\<exists>evs. sends pub evs pub' \<and>
     (idle_step st st' \<and> no_money evs \<or>
      (\<exists>s price fl os' r more. supported a \<and> order_post st a uid s price fl os' r st' \<and> fills_pos fl \<and>
         evs = fill_events st uid st' a (market_of a) s fl @ more \<and> no_money more)))"

lemma order_handled_outcome:
  assumes "order_outcome st pub uid a (market_of a) s st' pub'" and "supported a"
  shows "order_handled st pub uid a st' pub'" and "order_handled st pub uid a st' (emit_execution pub' (DepthUpdated m bs as))"
proof -
  from assms(1) obtain evs where evs: "sends pub evs pub'" and step: "idle_step st st' \<and> evs = [] \<or>
      (\<exists>price fl os' r rest. order_post st a uid s price fl os' r st' \<and> fills_pos fl \<and>
        evs = fill_events st uid st' a (market_of a) s fl @ map OrderCreated rest)"
    unfolding order_outcome_def by blast
  show "order_handled st pub uid a st' pub'"
    unfolding order_handled_def using evs step assms(2) no_money_simps by blast
  have "sends pub (evs @ [DepthUpdated m bs as]) (emit_execution pub' (DepthUpdated m bs as))"
    by (rule sends_emit(2) [OF evs])
  moreover have "idle_step st st' \<and> no_money (evs @ [DepthUpdated m bs as]) \<or>
      (\<exists>s price fl os' r more. supported a \<and> order_post st a uid s price fl os' r st' \<and> fills_pos fl \<and>
         evs @ [DepthUpdated m bs as] = fill_events st uid st' a (market_of a) s fl @ more \<and> no_money more)"
    using step
  proof (elim disjE exE conjE)
    fix price fl os' r rest
    assume post: "order_post st a uid s price fl os' r st'" "fills_pos fl"
      and "evs = fill_events st uid st' a (market_of a) s fl @ map OrderCreated rest"
    then have "evs @ [DepthUpdated m bs as] =
        fill_events st uid st' a (market_of a) s fl @ map OrderCreated rest @ [DepthUpdated m bs as]" by simp
    moreover have "no_money (map OrderCreated rest @ [DepthUpdated m bs as])" by simp
    ultimately show ?thesis using post assms(2) by blast
  qed simp
  ultimately show "order_handled st pub uid a st' (emit_execution pub' (DepthUpdated m bs as))"
    unfolding order_handled_def by blast
qed

lemma order_handled_error: "engine_inv st \<Longrightarrow> order_handled st pub uid a st (reply_error pub q i e c)"
  unfolding order_handled_def using sends_error(1) idle_step_refl no_money_simps(1) by blast

lemma handle_order_handled:
  assumes inv: "engine_inv st" and fits: "msg_fits st msg"
  shows "\<exists>st' pub'. handle_order oc st pub msg = Some (st', pub') \<and>
    order_handled st pub (om_user_id msg) (to_lowercase (om_asset msg)) st' pub' \<and> safe_step st st'"
proof -
  let ?a = "to_lowercase (om_asset msg)" and ?qty = "nat (om_qty msg)"
  show ?thesis
  proof (cases "supported ?a \<and> parse_side (om_side msg) \<noteq> None \<and> 0 < om_qty msg")
    case False
    then show ?thesis
      using safe_step_refl [OF inv] order_handled_error [OF inv]
      by (auto simp: handle_order_def Let_def split: option.splits)
  next
    case True
    then obtain s where s: "parse_side (om_side msg) = Some s" by blast
    have "\<exists>ret st' pub'. (case om_order_type msg of
          Limit \<Rightarrow> handle_limit oc st pub msg ?a (market_of ?a) s ?qty
        | Market \<Rightarrow> (case s of
            Ask \<Rightarrow> handle_market_ask oc st pub msg ?a (market_of ?a) ?qty
          | Bid \<Rightarrow> handle_market_bid oc st pub msg ?a (market_of ?a) ?qty)) = Some (ret, st', pub') \<and>
        order_outcome st pub (om_user_id msg) ?a (market_of ?a) s st' pub'"
      using True s fits handle_limit_outcome [OF inv, of ?a ?qty msg oc pub "market_of ?a" s]
        handle_market_ask_outcome [OF inv, of ?a ?qty oc pub msg "market_of ?a"]
        handle_market_bid_outcome [OF inv, of ?a ?qty msg oc pub "market_of ?a"]
      by (cases "om_order_type msg"; cases s) (simp_all add: msg_fits_def Let_def)
    then obtain ret st' pub' where run: "(case om_order_type msg of
          Limit \<Rightarrow> handle_limit oc st pub msg ?a (market_of ?a) s ?qty
        | Market \<Rightarrow> (case s of
            Ask \<Rightarrow> handle_market_ask oc st pub msg ?a (market_of ?a) ?qty
          | Bid \<Rightarrow> handle_market_bid oc st pub msg ?a (market_of ?a) ?qty)) = Some (ret, st', pub')"
      and out: "order_outcome st pub (om_user_id msg) ?a (market_of ?a) s st' pub'" by blast
    have safe: "safe_step st st'" by (rule order_outcome_safe [OF out])
    then have "engine_inv st'" by (simp add: safe_step_def)
    from emit_depth_ok [OF this, of ?a oc pub' "market_of ?a"] show ?thesis
      using True s run safe order_handled_outcome [OF out] by (cases ret) (simp_all add: handle_order_def Let_def)
  qed
qed

lemma handle_order_safe:
  assumes "engine_inv st" and "msg_fits st msg"
  shows "\<exists>st' pub'. handle_order oc st pub msg = Some (st', pub') \<and> safe_step st st'"
  using handle_order_handled [OF assms] by blast

end
