(* ===== verification/Handler_Cancel.thy ===== *)
theory Handler_Cancel
  imports Handler_Order
begin

text \<open>
  Cancelling: the order leaves exactly the book it rests on, its owner gets back what the order
  would still have had to pay, and an order of somebody else or an unknown id changes nothing.
\<close>

section \<open>Trying the books in turn\<close>

definition own_order :: "engine_state \<Rightarrow> cancel_msg \<Rightarrow> string \<Rightarrow> order option" where
  "own_order st msg a =
     (case get_order (book_of st a) (cm_order_id msg) of
        Some x \<Rightarrow> if ord_user_id x = cm_user_id msg then Some x else None
      | None \<Rightarrow> None)"

lemma put_orderbook_same: "supported a \<Longrightarrow> put_orderbook a (book_of st a) st = st"
  by (erule supported_cases) (simp_all add: book_of_def)

lemma try_cancel_miss:
  assumes "supported a" and "own_order st msg a = None"
  shows "try_cancel msg a st = Some (st, None)"
  using assms get_orderbook_supported [OF assms(1), of st] put_orderbook_same [OF assms(1), of st]
  by (auto simp: own_order_def try_cancel_def get_order_def cancel_order_def split: option.splits if_splits)

lemma cancel_in_miss:
  "\<forall>a \<in> set as. supported a \<and> own_order st msg a = None \<Longrightarrow> cancel_in msg as st = Some (st, None)"
  by (induction as) (auto simp: try_cancel_miss)

lemma cancel_in_hit:
  assumes "try_cancel msg a st = Some (st1, Some c)" and "a \<in> set as"
    and "\<forall>a' \<in> set as. supported a' \<and> (a' \<noteq> a \<longrightarrow> own_order st msg a' = None)"
  shows "cancel_in msg as st = Some (st1, Some (c, a))"
  using assms
proof (induction as)
  case (Cons a' as)
  then show ?case by (cases "a' = a") (auto simp: try_cancel_miss)
qed simp

lemma ids_disjoint_own:
  assumes inv: "engine_inv st" and a: "supported a" and x: "own_order st msg a = Some x"
    and a': "supported a'" "a' \<noteq> a"
  shows "own_order st msg a' = None"
proof (rule ccontr)
  have books: "book_inv (book_of st a)" "book_inv (book_of st a')"
    using inv a a'(1) by (simp_all add: engine_inv_def engine_sound_def book_good_def)
  have mem: "cm_order_id msg \<in> book_ids b" if "book_inv b" "get_order b (cm_order_id msg) = Some z" for b z
    using that get_order_key(1) [OF that(1), of "cm_order_id msg" z] depth_iff [OF that(1), of z "ord_side z"]
    by (cases "ord_side z") (force simp: book_ids_def get_order_def)+
  assume "own_order st msg a' \<noteq> None"
  then have "cm_order_id msg \<in> book_ids (book_of st a')"
    using mem [OF books(2)] by (auto simp: own_order_def split: option.splits)
  moreover have "cm_order_id msg \<in> book_ids (book_of st a)"
    using x mem [OF books(1)] by (auto simp: own_order_def split: option.splits)
  ultimately show False
    using inv a a' by (auto simp: engine_inv_def engine_sound_def ids_disjoint_def)
qed

section \<open>Removing the order\<close>

lemma sum_of_removed:
  assumes "distinct (map key xs)" and "x \<in> set xs"
  shows "sum_of g (filter (\<lambda>y. key y \<noteq> key x) xs) + g x = sum_of g xs"
  using assms
proof (induction xs)
  case (Cons y xs)
  show ?case
  proof (cases "y = x")
    case True
    with Cons.prems have "filter (\<lambda>y. key y \<noteq> key x) xs = xs" by (auto simp: filter_id_conv image_iff)
    with True show ?thesis by simp
  next
    case False
    with Cons have "x \<in> set xs" "key y \<noteq> key x" by (auto simp: image_iff)
    with Cons show ?thesis by simp
  qed
qed simp

definition cancel_release :: "fee_schedule \<Rightarrow> order \<Rightarrow> nat" where
  "cancel_release fs x = (case ord_side x of Bid \<Rightarrow> order_due fs x | Ask \<Rightarrow> ord_remaining_qty x)"

lemma removed_sums:
  assumes inv: "book_inv b" and get: "get_order b oid = Some x"
    and depths: "\<And>s. depth s b' = filter (\<lambda>y. ord_order_id y \<noteq> oid) (depth s b)"
  shows "sum_of g (depth s b') + (if ord_side x = s then g x else 0) = sum_of g (depth s b)"
proof -
  have id: "ord_order_id x = oid" using get_order_key(1) [OF inv] get by (simp add: get_order_def)
  show ?thesis
  proof (cases "ord_side x = s")
    case True
    then have "x \<in> set (depth s b)" using depth_iff [OF inv, of x s] get id by (simp add: get_order_def)
    then show ?thesis
      using sum_of_removed [OF depth_distinct [OF inv], of x s g] True by (simp add: depths id)
  next
    case False
    have "ord_order_id y \<noteq> oid" if "y \<in> set (depth s b)" for y
      using that get False by (auto simp: depth_iff [OF inv] get_order_def)
    then have "filter (\<lambda>y. ord_order_id y \<noteq> oid) (depth s b) = depth s b" by (simp add: filter_id_conv)
    with False show ?thesis by (simp add: depths)
  qed
qed

lemma cancel_pays:
  assumes inv: "book_inv (book_of st a)" and get: "get_order (book_of st a) oid = Some x"
    and depths: "\<And>s. depth s b' = filter (\<lambda>y. ord_order_id y \<noteq> oid) (depth s (book_of st a))"
    and amount: "r = cancel_release (es_fee_schedule st) x"
  shows "ord_side x = Bid \<Longrightarrow> pays_for st a b' [] nobody nobody (only (ord_user_id x) r) nobody"
    and "ord_side x = Ask \<Longrightarrow> pays_for st a b' [] nobody nobody nobody (only (ord_user_id x) r)"
proof -
  note sums = removed_sums [OF inv get depths]
  have bids: "bid_due (es_fee_schedule st) u (book_of st a) =
      bid_due (es_fee_schedule st) u b' + (if ord_side x = Bid then only (ord_user_id x) (order_due (es_fee_schedule st) x) u else 0)" for u
    using sums [of "\<lambda>y. if ord_user_id y = u then order_due (es_fee_schedule st) y else 0" Bid]
    by (auto simp: bid_due_def split: if_splits)
  have asks: "ask_due u (book_of st a) =
      ask_due u b' + (if ord_side x = Ask then only (ord_user_id x) (ord_remaining_qty x) u else 0)" for u
    using sums [of "\<lambda>y. if ord_user_id y = u then ord_remaining_qty y else 0" Ask]
    by (auto simp: ask_due_def split: if_splits)
  show "pays_for st a b' [] nobody nobody (only (ord_user_id x) r) nobody" if "ord_side x = Bid"
    using that by (simp add: pays_for_def amount cancel_release_def effect_defs bids asks)
  show "pays_for st a b' [] nobody nobody nobody (only (ord_user_id x) r)" if "ord_side x = Ask"
    using that by (simp add: pays_for_def amount cancel_release_def effect_defs bids asks)
qed

section \<open>The handler\<close>

lemma put_same_id: "st\<lparr>next_order_id := next_order_id st\<rparr> = st"
  by simp

definition cancel_reply :: "publisher \<Rightarrow> cancel_msg \<Rightarrow> string \<Rightarrow> order \<Rightarrow> orderbook \<Rightarrow> publisher" where
  "cancel_reply pub msg a x b' =
     reply (emit_all pub
       [OrderCancelled (ord_order_id x) (ord_user_id x) (ord_remaining_qty x),
        DepthUpdated (market_of a)
          (map (\<lambda>l. (ls_price l, ls_qty l)) (take 25 (depth_rows (depth Bid b'))))
          (map (\<lambda>l. (ls_price l, ls_qty l)) (take 25 (depth_rows (depth Ask b'))))])
       (cm_queue_id msg)
       (CancelReply (cm_identifier msg) (Some (ord_order_id x)) (Some (ord_remaining_qty x)) (Some ''Order cancelled'') None)"

text \<open>The state after removing \<open>x\<close> from the book of \<open>a\<close>, with its funds still reserved.\<close>

lemma cancel_remove:
  assumes inv: "engine_inv st" and a: "supported a" and own: "own_order st msg a = Some x"
    and r: "r = cancel_release (es_fee_schedule st) x"
  obtains st1 b' where "try_cancel msg a st = Some (st1, Some (cancelled_of x))" and "st1 = put_orderbook a b' st"
    and "\<And>s. depth s b' = filter (\<lambda>y. ord_order_id y \<noteq> cm_order_id msg) (depth s (book_of st a))"
    and "engine_sound st1"
    and "ord_side x = Bid \<Longrightarrow> solvent a (only (ord_user_id x) r) nobody st1"
    and "ord_side x = Ask \<Longrightarrow> solvent a nobody (only (ord_user_id x) r) st1"
proof -
  have sound: "engine_sound st" and solvent: "solvent a nobody nobody st"
    using inv engine_inv_solvent [of st a] by simp_all
  have good: "book_good (es_fee_schedule st) (next_order_id st) (book_of st a)"
    using sound a by (simp add: engine_sound_def)
  then have binv: "book_inv (book_of st a)" by (simp add: book_good_def)
  have get: "get_order (book_of st a) (cm_order_id msg) = Some x" and owner: "ord_user_id x = cm_user_id msg"
    using own by (auto simp: own_order_def split: option.splits if_splits)
  obtain b' where cancel: "cancel_order (cm_order_id msg) (cm_user_id msg) (book_of st a) = Some (b', Inr (cancelled_of x))"
    and b': "book_inv b'" "ob_next_order_id b' = ob_next_order_id (book_of st a)"
    and depths: "\<And>s. depth s b' = filter (\<lambda>y. ord_order_id y \<noteq> cm_order_id msg) (depth s (book_of st a))"
    using cancel_order_refines [OF binv get owner] by blast
  have subset: "set (depth s b') \<subseteq> set (depth s (book_of st a))" for s by (auto simp: depths)
  have "book_good (es_fee_schedule st) (next_order_id st) b'"
    using good b' subset filter_keeps_uncrossed [OF _ subset] by (auto simp: book_good_def)
  moreover have "book_ids b' \<subseteq> book_ids (book_of st a)" using subset by (auto simp: book_ids_def)
  ultimately have sound1: "engine_sound (put_orderbook a b' st)"
    using sound_put_book [OF sound a order_refl, of b', unfolded put_same_id] by blast
  then have "settled a [] (put_orderbook a b' (st\<lparr>next_order_id := next_order_id st\<rparr>)) (put_orderbook a b' st)"
    using settled_nil [of "put_orderbook a b' st" a] by (simp add: engine_sound_def)
  note solv = settled_solvent [OF a solvent _ this]
  show thesis
  proof (rule that [OF _ refl depths sound1])
    show "try_cancel msg a st = Some (put_orderbook a b' st, Some (cancelled_of x))"
      using cancel get_orderbook_supported [OF a, of st] by (simp add: try_cancel_def)
  qed (use solv cancel_pays [OF binv get depths r] in simp_all)
qed

lemma cancel_refund:
  assumes sound: "engine_sound st1" and a: "supported a" and fits: "order_fits (es_fee_schedule st1) x"
    and live: "0 < ord_price x" "0 < ord_remaining_qty x" and r: "r = cancel_release (es_fee_schedule st1) x"
    and solvent: "ord_side x = Bid \<Longrightarrow> solvent a (only (ord_user_id x) r) nobody st1"
      "ord_side x = Ask \<Longrightarrow> solvent a nobody (only (ord_user_id x) r) st1"
  obtains st' where "refund_cancelled oc (cancelled_of x) a st1 = Some st'" and "engine_inv st'"
    and "same_market st1 st'" and "conserves st1 st'" and "same_funds st1 st'"
    and "\<And>u. available (usd_of st' u) = available (usd_of st1 u) + (if ord_side x = Bid then only (ord_user_id x) r u else 0)"
    and "\<And>u. available (asset_of st' u a) = available (asset_of st1 u a) + (if ord_side x = Ask then only (ord_user_id x) r u else 0)"
proof (cases "ord_side x")
  case Bid
  obtain st' where st': "unlock_usd oc (ord_user_id x) r st1 = Some st'" "engine_inv st'" "same_market st1 st'" "conserves st1 st'"
    "\<And>u. available (usd_of st' u) = available (usd_of st1 u) + only (ord_user_id x) r u" "\<And>u a'. asset_of st' u a' = asset_of st1 u a'"
    "same_funds st1 st'"
    using release_usd [OF sound solvent(1) [OF Bid], of oc] by blast
  have due: "r = order_value x + maker_fee (es_fee_schedule st1) (order_value x)" and "0 < r"
    using r Bid live by (auto simp: cancel_release_def order_due_def order_value_def)
  have "r \<le> locked (usd_of st1 (ord_user_id x))"
    using solvent(1) [OF Bid] by (auto simp: solvent_def covers_def dest: spec [of _ "ord_user_id x"])
  then have "r < u64_lim"
    using usd.total_ge [of st1 "ord_user_id x"] sound by (auto simp: engine_sound_def funds_def)
  then have "refund_cancelled oc (cancelled_of x) a st1 = Some st'"
    using st'(1) \<open>0 < r\<close> Bid fits bps_fits(2) [of "order_value x" "es_fee_schedule st1"] due
    by (simp add: refund_cancelled_def cancelled_of_def order_fits_def unlock_usd_def u64_simps order_value_def)
  with st' Bid show thesis by (intro that [of st']) auto
next
  case Ask
  obtain st' where st': "unlock_asset oc (ord_user_id x) a r st1 = Some st'" "engine_inv st'" "same_market st1 st'" "conserves st1 st'"
    "\<And>u. available (asset_of st' u a) = available (asset_of st1 u a) + only (ord_user_id x) r u" "\<And>u. usd_of st' u = usd_of st1 u"
    "same_funds st1 st'"
    using release_asset [OF sound solvent(2) [OF Ask] a, of oc] by blast
  have "refund_cancelled oc (cancelled_of x) a st1 = Some st'"
    using st'(1) Ask live r by (simp add: refund_cancelled_def cancelled_of_def unlock_asset_def cancel_release_def)
  with st' Ask show thesis by (intro that [of st']) auto
qed

definition cancel_post :: "engine_state \<Rightarrow> string \<Rightarrow> order \<Rightarrow> engine_state \<Rightarrow> bool" where
  "cancel_post st a x st' \<longleftrightarrow> safe_step st st' \<and> same_funds st st' \<and> next_order_id st' = next_order_id st \<and>
     (\<forall>s. depth s (book_of st' a) = filter (\<lambda>y. ord_order_id y \<noteq> ord_order_id x) (depth s (book_of st a))) \<and>
     (\<forall>a'. supported a' \<longrightarrow> a' \<noteq> a \<longrightarrow> book_of st' a' = book_of st a') \<and>
     (\<forall>u. available (usd_of st' u) = available (usd_of st u) +
        (if ord_side x = Bid \<and> u = ord_user_id x then cancel_release (es_fee_schedule st) x else 0)) \<and>
     (\<forall>u. available (asset_of st' u a) = available (asset_of st u a) +
        (if ord_side x = Ask \<and> u = ord_user_id x then cancel_release (es_fee_schedule st) x else 0))"

lemma supported_list: "a \<in> set [''sol'', ''btc'', ''eth''] \<longleftrightarrow> supported a"
  by (auto simp: supported_def)

lemma handle_cancel_own:
  assumes inv: "engine_inv st" and a: "supported a" and own: "own_order st msg a = Some x"
  shows "\<exists>st'. handle_cancel oc st pub msg = Some (st', cancel_reply pub msg a x (book_of st' a)) \<and> cancel_post st a x st'"
proof -
  define r where "r = cancel_release (es_fee_schedule st) x"
  obtain st1 b' where hit: "try_cancel msg a st = Some (st1, Some (cancelled_of x))" and st1: "st1 = put_orderbook a b' st"
    and depths: "\<And>s. depth s b' = filter (\<lambda>y. ord_order_id y \<noteq> cm_order_id msg) (depth s (book_of st a))"
    and sound1: "engine_sound st1" and solv: "ord_side x = Bid \<Longrightarrow> solvent a (only (ord_user_id x) r) nobody st1"
      "ord_side x = Ask \<Longrightarrow> solvent a nobody (only (ord_user_id x) r) st1"
    using cancel_remove [OF inv a own r_def] by blast
  have good: "book_good (es_fee_schedule st) (next_order_id st) (book_of st a)"
    using inv a by (simp add: engine_inv_def engine_sound_def)
  have get: "get_order (book_of st a) (cm_order_id msg) = Some x"
    using own by (auto simp: own_order_def split: option.splits if_splits)
  have id: "ord_order_id x = cm_order_id msg"
    using get_order_key(1) [of "book_of st a" "cm_order_id msg" x] good get by (simp add: book_good_def get_order_def)
  have mem: "x \<in> set (depth (ord_side x) (book_of st a))"
    using get id good by (simp add: depth_iff get_order_def book_good_def)
  obtain st' where ref: "refund_cancelled oc (cancelled_of x) a st1 = Some st'" and inv': "engine_inv st'"
    and m: "same_market st1 st'" and c: "conserves st1 st'" and f: "same_funds st1 st'"
    and bal: "\<And>u. available (usd_of st' u) = available (usd_of st1 u) + (if ord_side x = Bid then only (ord_user_id x) r u else 0)"
      "\<And>u. available (asset_of st' u a) = available (asset_of st1 u a) + (if ord_side x = Ask then only (ord_user_id x) r u else 0)"
    using cancel_refund [OF sound1 a _ _ _ _ solv, of oc] good mem depth_pos(1,2) [of "book_of st a" x]
    by (auto simp: book_good_def st1 frame_simps r_def)
  have books: "book_of st' a' = (if a' = a then b' else book_of st a')" if "supported a'" for a'
    using same_market_book [OF m, of a'] a that by (simp add: st1 frame_simps)
  have "cancel_in msg [''sol'', ''btc'', ''eth''] st = Some (st1, Some (cancelled_of x, a))"
    using cancel_in_hit [OF hit] ids_disjoint_own [OF inv a own] a supported_list by blast
  then have "handle_cancel oc st pub msg = Some (st', cancel_reply pub msg a x (book_of st' a))"
    using ref emit_depth_ok [OF inv' a, of oc _ "market_of a"]
    by (simp add: handle_cancel_def cancel_reply_def cancelled_of_def del: cancel_in.simps) (simp add: emit_all_def emit_execution_def option.map_comp comp_def)
  moreover have "cancel_post st a x st'"
    using inv' c m f bal books a depths
    by (auto simp: cancel_post_def safe_step_def same_funds_def st1 conserves_def same_market_def frame_simps id r_def)
  ultimately show ?thesis by blast
qed

lemma handle_cancel_none:
  assumes "\<And>a. supported a \<Longrightarrow> own_order st msg a = None"
  shows "handle_cancel oc st pub msg = Some (st, reply_cancel_error pub (cm_queue_id msg) (cm_identifier msg)
    (if \<exists>a. supported a \<and> get_order (book_of st a) (cm_order_id msg) \<noteq> None
     then ''Not order owner'' else ''Open order not found''))"
proof -
  have "cancel_in msg [''sol'', ''btc'', ''eth''] st = Some (st, None)"
    using assms supported_list by (intro cancel_in_miss) blast
  moreover have "order_exists st (cm_order_id msg) \<noteq> None \<longleftrightarrow>
      (\<exists>a. supported a \<and> get_order (book_of st a) (cm_order_id msg) \<noteq> None)"
    unfolding supported_ex by (simp add: order_exists_def or_else_def split: option.splits)
  ultimately show ?thesis
    by (auto simp: handle_cancel_def simp del: cancel_in.simps split: option.splits)
qed

lemma handle_cancel_safe:
  assumes inv: "engine_inv st"
  shows "\<exists>st' pub'. handle_cancel oc st pub msg = Some (st', pub') \<and> safe_step st st' \<and>
    next_order_id st' = next_order_id st"
proof (cases "\<exists>a x. supported a \<and> own_order st msg a = Some x")
  case True
  then show ?thesis using handle_cancel_own [OF inv] unfolding cancel_post_def by blast
next
  case False
  then show ?thesis using handle_cancel_none [of st msg oc pub] safe_step_refl [OF inv] by fastforce
qed

end
