(* ===== verification/Handler_Account.thy ===== *)
theory Handler_Account
  imports Handler_Cancel
begin

text \<open>
  Sign-up, funding and reset. Funding is the only way the totals grow, by exactly the amount of the
  message; sign-up never touches an existing balance; reset gives the empty exchange.
\<close>

section \<open>Funding\<close>

lemma solvent_locked:
  assumes "solvent a ru ra st" and "same_market st st'"
    and "\<And>u. locked (usd_of st' u) = locked (usd_of st u)" and "\<And>u a'. locked (asset_of st' u a') = locked (asset_of st u a')"
  shows "solvent a ru ra st'"
  using assms(1,3,4) usd_due_market [OF assms(2)] same_market_book [OF assms(2)] market_fees [OF assms(2)]
  by (simp add: solvent_def)

lemma credit_inv:
  assumes inv: "engine_inv st"
  shows "usd_total st + x < u64_lim \<Longrightarrow> engine_inv (usd.credit u x st)"
    and "asset_total a st + x < u64_lim \<Longrightarrow> engine_inv (asset.credit a u x st)"
proof -
  have sound: "engine_sound st" and wf: "ledger_wf st" using inv by (simp_all add: engine_inv_def engine_sound_def)
  have solv: "solvent ''sol'' nobody nobody st" using inv by (simp add: engine_inv_def)
  have locked: "locked (asset_of (asset.credit a u x st) v a') = locked (asset_of st v a')" for v a'
    by (cases "a' = a") (simp_all add: ledger_bals frame_simps)
  have "asset_total a' (asset.credit a u x st) < u64_lim" if "asset_total a st + x < u64_lim" for a'
    using that wf sound by (cases "a' = a") (simp_all add: asset.movements_total frame_simps engine_sound_def)
  then have "engine_sound (asset.credit a u x st)" if "asset_total a st + x < u64_lim"
    using that sound wf by (intro sound_market [OF sound]) (auto simp: frame_simps ledger_wfs engine_sound_def)
  then show "engine_inv (asset.credit a u x st)" if "asset_total a st + x < u64_lim"
    using that solvent_locked [OF solv, of "asset.credit a u x st"] locked by (auto simp: engine_inv_def frame_simps)
  have "engine_sound (usd.credit u x st)" if "usd_total st + x < u64_lim"
    using that sound wf by (intro sound_market [OF sound])
      (auto simp: frame_simps ledger_wfs usd.movements_total engine_sound_def)
  then show "engine_inv (usd.credit u x st)" if "usd_total st + x < u64_lim"
    using that solvent_locked [OF solv, of "usd.credit u x st"]
    by (auto simp: engine_inv_def frame_simps ledger_bals)
qed

lemma handle_onramp_ok:
  assumes inv: "engine_inv st" and fits: "usd_total st + on_qty msg < u64_lim"
    and st': "st' = usd.credit (on_user_id msg) (on_qty msg) st"
  shows "handle_onramp oc st pub msg = Some (st', reply (emit_execution pub
      (FundingExecuted (on_user_id msg) ''USD'' (on_qty msg) ''onramp'')) (on_queue_id msg)
      (BalanceReply (on_identifier msg) (usd_of st' (on_user_id msg)) (assets_of st' (on_user_id msg))))"
    and "engine_inv st'" and "usd_total st' = usd_total st + on_qty msg"
    and "asset_total a st' = asset_total a st"
proof -
  have wf: "ledger_wf st" using inv by (simp add: engine_inv_def engine_sound_def)
  have "available (usd_of st (on_user_id msg)) + on_qty msg < u64_lim"
    using usd.total_ge [OF wf, of "on_user_id msg"] fits by (simp add: funds_def)
  then show "handle_onramp oc st pub msg = Some (st', reply (emit_execution pub
      (FundingExecuted (on_user_id msg) ''USD'' (on_qty msg) ''onramp'')) (on_queue_id msg)
      (BalanceReply (on_identifier msg) (usd_of st' (on_user_id msg)) (assets_of st' (on_user_id msg))))"
    by (simp add: handle_onramp_def usd_assign_ok st' Let_def)
  show "engine_inv st'" "usd_total st' = usd_total st + on_qty msg" "asset_total a st' = asset_total a st"
    using credit_inv(1) [OF inv fits] wf by (simp_all add: st' usd.movements_total frame_simps)
qed

lemma handle_deposit_ok:
  assumes inv: "engine_inv st" and fits: "asset_total (dp_symbol msg) st + dp_qty msg < u64_lim"
    and st': "st' = asset.credit (dp_symbol msg) (dp_user_id msg) (dp_qty msg) st"
  shows "handle_deposit oc st pub msg = Some (st', reply (emit_execution pub
      (FundingExecuted (dp_user_id msg) (to_uppercase (dp_symbol msg)) (dp_qty msg) ''deposit'')) (dp_queue_id msg)
      (BalanceReply (dp_identifier msg) (usd_of st' (dp_user_id msg)) (assets_of st' (dp_user_id msg))))"
    and "engine_inv st'" and "asset_total (dp_symbol msg) st' = asset_total (dp_symbol msg) st + dp_qty msg"
    and "usd_total st' = usd_total st"
proof -
  have wf: "ledger_wf st" using inv by (simp add: engine_inv_def engine_sound_def)
  have "available (asset_of st (dp_user_id msg) (dp_symbol msg)) + dp_qty msg < u64_lim"
    using asset.total_ge [OF wf, of "dp_user_id msg" "dp_symbol msg"] fits by (simp add: funds_def)
  then have "stock_modify (dp_user_id msg) (dp_symbol msg) (available_add oc (dp_qty msg)) st = Some st'"
    unfolding stock_modify_put st' by (rule asset.assignments_ok(1))
  then show "handle_deposit oc st pub msg = Some (st', reply (emit_execution pub
      (FundingExecuted (dp_user_id msg) (to_uppercase (dp_symbol msg)) (dp_qty msg) ''deposit'')) (dp_queue_id msg)
      (BalanceReply (dp_identifier msg) (usd_of st' (dp_user_id msg)) (assets_of st' (dp_user_id msg))))"
    by (simp add: handle_deposit_def Let_def)
  show "engine_inv st'" "asset_total (dp_symbol msg) st' = asset_total (dp_symbol msg) st + dp_qty msg"
    "usd_total st' = usd_total st"
    using credit_inv(2) [OF inv fits] wf by (simp_all add: st' asset.movements_total frame_simps)
qed

section \<open>Sign-up\<close>

lemma hm_get_entry: "hm_get (hm_entry_or d k m) k = Some (hm_get_or d m k)"
  by (auto simp: hm_entry_or_def hm_get_or_def AList.update_conv' split: option.splits)

lemma hm_entry_members: "kv \<in> set (hm_entry_or d k m) \<Longrightarrow> kv \<in> set m \<or> kv = (k, d)"
  by (auto simp: hm_entry_or_def hm_insert_fresh split: option.splits)

definition signed_up :: "nat \<Rightarrow> engine_state \<Rightarrow> engine_state" where
  "signed_up uid st = st\<lparr>usd_balance := hm_entry_or balance_default uid (usd_balance st),
     stock_balance := hm_entry_or [] uid (stock_balance st)\<rparr>"

lemma signed_up_frames [frame_simps]:
  "usd_of (signed_up uid st) = usd_of st" "assets_of (signed_up uid st) = assets_of st"
  "usd_total (signed_up uid st) = usd_total st" "asset_total a (signed_up uid st) = asset_total a st"
  "same_market st (signed_up uid st)"
  by (simp_all add: fun_eq_iff signed_up_def kv_simps usd_total_def asset_total_def same_market_def hm_entry_total)

lemma signed_up_wf: "ledger_wf st \<Longrightarrow> ledger_wf (signed_up uid st)"
  by (auto simp: ledger_wf_def signed_up_def hm_wf_entry dest!: hm_entry_members)

lemma handle_signup_ok:
  assumes inv: "engine_inv st"
  shows "handle_signup st pub msg = Some (signed_up (sg_user_id msg) st, reply pub (sg_queue_id msg)
      (BalanceReply (sg_identifier msg) (usd_of st (sg_user_id msg)) (assets_of st (sg_user_id msg))))"
    and "safe_step st (signed_up (sg_user_id msg) st)"
proof -
  let ?st = "signed_up (sg_user_id msg) st"
  show "handle_signup st pub msg = Some (?st, reply pub (sg_queue_id msg)
      (BalanceReply (sg_identifier msg) (usd_of st (sg_user_id msg)) (assets_of st (sg_user_id msg))))"
    by (simp add: handle_signup_def signed_up_def hm_get_entry Let_def)
  have sound: "engine_sound st" and solv: "solvent ''sol'' nobody nobody st"
    using inv by (simp_all add: engine_inv_def)
  have "engine_sound ?st"
    using sound by (intro sound_market [OF sound]) (auto simp: frame_simps engine_sound_def intro: signed_up_wf)
  moreover have "solvent ''sol'' nobody nobody ?st"
    by (rule solvent_locked [OF solv]) (simp_all add: frame_simps)
  ultimately show "safe_step st ?st"
    using signed_up_frames(5) [of st "sg_user_id msg"]
    by (simp add: safe_step_def engine_inv_def conserves_def frame_simps same_market_def)
qed

section \<open>Start and reset\<close>

lemma empty_book: "bids b = [] \<Longrightarrow> asks b = [] \<Longrightarrow> orders b = [] \<Longrightarrow> book_inv b"
  by (simp add: book_inv_def side_inv_def side_levels_def best_levels_def queued_def bt_wf_def split: side.splits)

lemma empty_depth: "bids b = [] \<Longrightarrow> asks b = [] \<Longrightarrow> depth s b = []"
  by (cases s) (simp_all add: depth_def best_levels_def level_orders_def)

lemma locked_default: "locked balance_default = 0"
  by (simp add: balance_default_def)

definition empty_exchange :: "engine_state \<Rightarrow> bool" where
  "empty_exchange st \<longleftrightarrow> usd_balance st = [] \<and> stock_balance st = [] \<and> next_order_id st = 1 \<and>
     (\<forall>a. supported a \<longrightarrow> bids (book_of st a) = [] \<and> asks (book_of st a) = [] \<and> orders (book_of st a) = [] \<and>
        ob_next_order_id (book_of st a) = 1)"

lemma empty_exchange_inv:
  assumes "empty_exchange st" and "fees_ok (es_fee_schedule st)"
  shows "engine_inv st" and "usd_total st = 0" and "asset_total a st = 0"
proof -
  have depths: "depth s (book_of st a) = []" if "supported a" for s a
    using assms(1) that by (intro empty_depth) (auto simp: empty_exchange_def)
  have books: "book_inv (book_of st a)" if "supported a" for a
    using assms(1) that by (intro empty_book) (auto simp: empty_exchange_def)
  have due: "usd_due st u = 0" for u
    using depths [of "''sol''" Bid] depths [of "''btc''" Bid] depths [of "''eth''" Bid]
    by (simp add: usd_due_def bid_due_def supported_def)
  have bal: "usd_of st u = balance_default" "asset_of st u a = balance_default" for u a
    using assms(1) by (simp_all add: empty_exchange_def hm_get_or_def)
  show totals: "usd_total st = 0" "asset_total a st = 0" for a
    using assms(1) by (simp_all add: empty_exchange_def usd_total_def asset_total_def)
  have "engine_sound st"
    using assms depths books totals
    by (auto simp: engine_sound_def empty_exchange_def ledger_wf_def ids_disjoint_def book_ids_def book_good_def uncrossed_def)
  moreover have "solvent ''sol'' nobody nobody st"
    by (simp add: solvent_def due bal ask_due_def depths locked_default)
  ultimately show "engine_inv st" by (simp add: engine_inv_def)
qed

lemma engine_state_new_empty: "empty_exchange (engine_state_new mk tk)"
  unfolding empty_exchange_def supported_all by (simp add: engine_state_new_def orderbook_new_def)

lemma engine_reset_empty: "empty_exchange (engine_reset st)"
  unfolding empty_exchange_def supported_all by (simp add: engine_reset_def orderbook_reset_def)

lemma handle_reset_ok:
  assumes "engine_inv st" and "handle_reset st pub msg = (st', pub')"
  shows "engine_inv st'" and "empty_exchange st'" and "es_fee_schedule st' = es_fee_schedule st"
    and "pub' = reply pub (rs_queue_id msg) (GenericReply (rs_identifier msg) ''Reset successful'')"
  using assms empty_exchange_inv(1) [OF engine_reset_empty, of st] engine_reset_empty [of st]
  by (auto simp: handle_reset_def engine_inv_def engine_sound_def engine_reset_def)

end
