(* ===== verification/Engine_Safety.thy ===== *)
theory Engine_Safety
  imports Engine Publisher Handler_Account
begin

text \<open>
  The event loop, replay and snapshots: replay computes the states of the live run, the snapshot table
  keeps its invariant, and a crashed engine recovers from its latest snapshot and the rest of the stream.
\<close>

section \<open>Replay and the live run\<close>

lemma dispatch_graft:
  "dispatch_event oc dec st (graft pub p) channel data =
     map_option (graft_out pub) (dispatch_event oc dec st p channel data)"
  unfolding dispatch_event_def if_distrib [of "map_option (graft_out pub)"]
  by (intro if_cong refl)
    (simp_all add: on_msg_def handle_order_graft handle_cancel_graft account_graft query_graft
      option.map_comp comp_def split: option.split)

lemma dispatch_replay:
  assumes "dispatch_event oc dec st pub channel data = Some (st', pub')"
  shows "dispatch_event oc dec st None channel data = Some (st', None)"
proof -
  have "map_option (graft_out pub) (dispatch_event oc dec st (Some []) channel data) = Some (st', pub')"
    using assms dispatch_graft [of oc dec st pub "Some []" channel data] by (simp only: graft_empty)
  then obtain p' where "dispatch_event oc dec st (Some []) channel data = Some (st', p')"
    by (cases "dispatch_event oc dec st (Some []) channel data") auto
  moreover have "graft None q = None" for q by (cases q) (simp_all add: graft_def)
  ultimately show ?thesis
    using dispatch_graft [of oc dec st None "Some []" channel data] by simp
qed

lemma process_record_replay:
  assumes "process_record oc dec to_value r p = Some p'"
  shows "\<exists>i. replay_records oc dec [r] (ep_state p, j) = Some (ep_state p', i) \<and>
    (map_option fst (record_event r) \<noteq> Some CH_RESET \<longrightarrow> i = ep_last_id p')"
proof (cases "record_event r")
  case None
  with assms show ?thesis by (auto simp: process_record_def Let_def)
next
  case (Some ev)
  then obtain channel data where ev: "record_event r = Some (channel, data)" by (cases ev) auto
  with assms obtain st' pub' where "dispatch_event oc dec (ep_state p) (ep_pub p) channel data = Some (st', pub')"
    by (auto simp: process_record_def Let_def bind_Some_iff)
  with assms ev show ?thesis
    by (auto simp: process_record_def Let_def dispatch_replay snapshot_now_def split: if_splits)
qed

lemma replay_append:
  "replay_records oc dec (xs @ ys) acc = replay_records oc dec xs acc \<bind> replay_records oc dec ys"
proof (induction xs arbitrary: acc)
  case (Cons x xs)
  then show ?case by (auto simp: bind_assoc split_def split: option.splits)
qed simp

lemma replay_id_irrelevant:
  "rs \<noteq> [] \<Longrightarrow> replay_records oc dec rs (st, i) = replay_records oc dec rs (st, j)"
  by (cases rs) (simp_all only: replay_records.simps fst_conv, simp)

text \<open>Replaying the records of a live run, with or without resets among them, gives its state.\<close>

lemma process_batch_replay:
  assumes "process_batch oc dec to_value rs p = Some p'"
  shows "\<exists>i. replay_records oc dec rs (ep_state p, j) = Some (ep_state p', i)"
  using assms
proof (induction rs arbitrary: p j)
  case (Cons r rs)
  then obtain p1 where p1: "process_record oc dec to_value r p = Some p1"
      "process_batch oc dec to_value rs p1 = Some p'" by (auto simp: bind_Some_iff)
  obtain i where "replay_records oc dec [r] (ep_state p, j) = Some (ep_state p1, i)"
    using process_record_replay [OF p1(1)] by blast
  then show ?case
    using Cons.IH [OF p1(2), of i] replay_append [of oc dec "[r]" rs] by simp
qed simp

definition reset_free :: "stream_record list \<Rightarrow> bool" where
  "reset_free rs \<longleftrightarrow> (\<forall>r \<in> set rs. map_option fst (record_event r) \<noteq> Some CH_RESET)"

section \<open>The snapshot table\<close>

definition table_ok :: "'j snapshot_table \<Rightarrow> bool" where
  "table_ok t \<longleftrightarrow> sorted_wrt (<) (map fst (snapshot_rows t)) \<and> (\<forall>i \<in> fst ` set (snapshot_rows t). i < next_serial t)"

lemma table_ok_empty: "table_ok empty_table"
  by (simp add: table_ok_def empty_table_def)

lemma latest_row_last:
  assumes "table_ok t"
  shows "latest_row t = (case rev (snapshot_rows t) of [] \<Rightarrow> None | row # _ \<Rightarrow> Some row)"
proof -
  have "sorted (map fst (snapshot_rows t))"
    using assms by (simp add: table_ok_def strict_sorted_iff)
  then have "sort_key fst (snapshot_rows t) = snapshot_rows t" by (rule sort_key_id_if_sorted)
  then show ?thesis by (simp add: latest_row_def)
qed

lemma save_snapshot_ok:
  assumes ok: "table_ok t" and save: "save_snapshot to_value i st t = Some t'"
  shows "table_ok t'" and "length (snapshot_rows t') \<le> 3"
    and "\<exists>json. to_value st = Some json \<and> latest_row t' = Some (next_serial t, i, json)"
proof -
  obtain json where json: "to_value st = Some json" using save by (auto simp: save_snapshot_def bind_Some_iff)
  define rows where "rows = snapshot_rows t @ [(next_serial t, i, json)]"
  define keep where "keep = set (take 3 (rev (map fst rows)))"
  have sorted: "sorted_wrt (<) (map fst rows)"
    using ok by (auto simp: table_ok_def rows_def sorted_wrt_append)
  have t': "t' = t\<lparr>next_serial := next_serial t + 1, snapshot_rows := filter (\<lambda>(i, _). i \<in> keep) rows\<rparr>"
    using save json sorted_sort_id [of "map fst rows"] sorted
    by (simp add: save_snapshot_def latest_ids_def rows_def keep_def strict_sorted_iff)
  have sub: "sorted_wrt (<) (map fst (snapshot_rows t'))"
    using sorted by (simp add: t' sorted_wrt_map sorted_wrt_filter)
  then show ok': "table_ok t'"
    using ok by (auto simp: table_ok_def t' rows_def)
  have "length (snapshot_rows t') = card (fst ` set (snapshot_rows t'))"
    using sub by (metis strict_sorted_iff distinct_card length_map set_map)
  also have "\<dots> \<le> card keep" by (intro card_mono) (auto simp: t' keep_def)
  also have "\<dots> \<le> 3" unfolding keep_def by (metis card_length length_take min.cobounded2 order_trans)
  finally show "length (snapshot_rows t') \<le> 3" .
  have "next_serial t \<in> keep" by (simp add: keep_def rows_def)
  then show "\<exists>json. to_value st = Some json \<and> latest_row t' = Some (next_serial t, i, json)"
    using json latest_row_last [OF ok'] by (simp add: t' rows_def)
qed

section \<open>Crash recovery\<close>

text \<open>
  The latest row of the table holds the state after some prefix of the records, under the id of the
  last record of that prefix.
\<close>

definition snapshot_of ::
  "bool \<Rightarrow> decoders \<Rightarrow> (engine_state \<Rightarrow> 'j option) \<Rightarrow> engine_state \<Rightarrow> stream_record list \<Rightarrow> 'j snapshot_table \<Rightarrow> bool" where
  "snapshot_of oc dec to_value st0 rs t \<longleftrightarrow> table_ok t \<and>
     (case latest_row t of
        None \<Rightarrow> True
      | Some (_, i, json) \<Rightarrow>
          \<exists>pre r suf s j. rs = pre @ r # suf \<and> i = sr_id r \<and> to_value s = Some json \<and>
            replay_records oc dec (pre @ [r]) (st0, ''0-0'') = Some (s, j))"

lemma snapshot_of_more: "snapshot_of oc dec to_value st0 rs t \<Longrightarrow> snapshot_of oc dec to_value st0 (rs @ rs') t"
  by (fastforce simp: snapshot_of_def split: option.splits)

lemma process_record_snapshot:
  assumes run: "process_record oc dec to_value r p = Some p'" and no_reset: "reset_free [r]"
    and before: "replay_records oc dec rs (st0, ''0-0'') = Some (ep_state p, i)"
    and db: "ep_db p = Some t" and snap: "snapshot_of oc dec to_value st0 rs t"
  shows "\<exists>t'. ep_db p' = Some t' \<and> snapshot_of oc dec to_value st0 (rs @ [r]) t'"
    and "replay_records oc dec (rs @ [r]) (st0, ''0-0'') = Some (ep_state p', ep_last_id p')"
proof -
  show after: "replay_records oc dec (rs @ [r]) (st0, ''0-0'') = Some (ep_state p', ep_last_id p')"
    using process_record_replay [OF run, of i] before no_reset by (auto simp: replay_append reset_free_def)
  have last: "ep_last_id p' = sr_id r" and
    cases: "ep_db p' = Some t \<or> (\<exists>t'. save_snapshot to_value (sr_id r) (ep_state p') t = Some t' \<and> ep_db p' = Some t')"
    using run no_reset db
    by (auto simp: process_record_def Let_def reset_free_def snapshot_now_def bind_Some_iff split: option.splits if_splits)
  then show "\<exists>t'. ep_db p' = Some t' \<and> snapshot_of oc dec to_value st0 (rs @ [r]) t'"
  proof (elim disjE exE conjE)
    fix t' assume save: "save_snapshot to_value (sr_id r) (ep_state p') t = Some t'" and "ep_db p' = Some t'"
    have "table_ok t" using snap by (simp add: snapshot_of_def)
    note saved = save_snapshot_ok [OF this save]
    then have "snapshot_of oc dec to_value st0 (rs @ [r]) t'"
      using after by (fastforce simp: snapshot_of_def)
    with \<open>ep_db p' = Some t'\<close> show ?thesis by blast
  qed (use snap snapshot_of_more in blast)
qed

lemma process_batch_snapshot:
  assumes "process_batch oc dec to_value rs' p = Some p'" and "reset_free rs'"
    and "replay_records oc dec rs (st0, ''0-0'') = Some (ep_state p, ep_last_id p)"
    and "ep_db p = Some t" and "snapshot_of oc dec to_value st0 rs t"
  shows "(\<exists>t'. ep_db p' = Some t' \<and> snapshot_of oc dec to_value st0 (rs @ rs') t') \<and>
    replay_records oc dec (rs @ rs') (st0, ''0-0'') = Some (ep_state p', ep_last_id p')"
  using assms
proof (induction rs' arbitrary: p rs t)
  case (Cons r rs')
  then obtain p1 where p1: "process_record oc dec to_value r p = Some p1"
      "process_batch oc dec to_value rs' p1 = Some p'" by (auto simp: bind_Some_iff)
  have free: "reset_free [r]" "reset_free rs'" using Cons.prems(2) by (simp_all add: reset_free_def)
  note step = process_record_snapshot [OF p1(1) free(1) Cons.prems(3,4,5)]
  then obtain t1 where "ep_db p1 = Some t1" "snapshot_of oc dec to_value st0 (rs @ [r]) t1" by blast
  from Cons.IH [OF p1(2) free(2) step(2) this] show ?case by simp
qed simp

text \<open>What is relied on of Redis and of the JSON codec of the state.\<close>

definition xrange_spec :: "stream_record list \<Rightarrow> (string \<Rightarrow> stream_record list option) \<Rightarrow> bool" where
  "xrange_spec rs xrange \<longleftrightarrow> xrange ''-'' = Some rs \<and>
     (\<forall>pre r suf. rs = pre @ r # suf \<longrightarrow> xrange (''('' @ sr_id r) = Some suf)"

definition proper_ids :: "stream_record list \<Rightarrow> bool" where
  "proper_ids rs \<longleftrightarrow> (\<forall>r \<in> set rs. sr_id r \<noteq> ''0-0'' \<and> sr_id r \<noteq> '''')"

text \<open>Starting from the latest snapshot is replaying the whole stream, silently.\<close>

lemma start_engine_eq:
  assumes snap: "snapshot_of oc dec to_value st0 rs t" and ids: "proper_ids rs" and redis: "xrange_spec rs xrange"
    and codec: "\<And>s json. to_value s = Some json \<Longrightarrow> from_value json = Some s"
  shows "start_engine oc dec from_value xrange st0 pub (Some t) ''0-0'' =
    map_option (\<lambda>(s, i). \<lparr>ep_state = s, ep_pub = pub, ep_db = Some t, ep_last_id = i, ep_events = 0\<rparr>)
      (replay_records oc dec rs (st0, ''0-0''))"
proof (cases "latest_row t")
  case None
  then show ?thesis
    using redis
    by (cases "replay_records oc dec rs (st0, ''0-0'')")
      (auto simp: start_engine_def load_latest_snapshot_def replay_events_since_def xrange_start_def xrange_spec_def)
next
  case (Some row)
  then obtain k i json where row: "latest_row t = Some (k, i, json)" by (cases row) auto
  then obtain pre r suf s j where split: "rs = pre @ r # suf" "i = sr_id r" "to_value s = Some json"
    and pre: "replay_records oc dec (pre @ [r]) (st0, ''0-0'') = Some (s, j)"
    using snap by (auto simp: snapshot_of_def)
  have j: "j = sr_id r"
    using pre by (auto simp: replay_append bind_Some_iff split: option.splits prod.splits)
  have "replay_records oc dec rs (st0, ''0-0'') = replay_records oc dec suf (s, sr_id r)"
    using pre replay_append [of oc dec "pre @ [r]" suf] by (simp add: split(1) j)
  moreover have "xrange (xrange_start i) = Some suf"
    using redis ids split by (auto simp: xrange_start_def xrange_spec_def proper_ids_def)
  ultimately show ?thesis
    using row split(2,3) codec
    by (cases "replay_records oc dec suf (s, sr_id r)") (auto simp: start_engine_def load_latest_snapshot_def replay_events_since_def)
qed

lemma snapshot_of_empty: "snapshot_of oc dec to_value st0 [] empty_table"
  using table_ok_empty by (simp add: snapshot_of_def latest_row_def empty_table_def)

lemma recovery:
  assumes run: "process_batch oc dec to_value rs
      \<lparr>ep_state = st0, ep_pub = pub, ep_db = Some empty_table, ep_last_id = ''0-0'', ep_events = n\<rparr> = Some p"
    and free: "reset_free rs" and ids: "proper_ids rs" and redis: "xrange_spec rs xrange"
    and codec: "\<And>s json. to_value s = Some json \<Longrightarrow> from_value json = Some s"
  shows "\<exists>q. start_engine oc dec from_value xrange st0 pub' (ep_db p) ''0-0'' = Some q \<and>
    ep_state q = ep_state p \<and> ep_last_id q = ep_last_id p"
proof -
  obtain t where db: "ep_db p = Some t" and snap: "snapshot_of oc dec to_value st0 rs t"
    and all: "replay_records oc dec rs (st0, ''0-0'') = Some (ep_state p, ep_last_id p)"
    using process_batch_snapshot [OF run free, of "[]" st0 empty_table] snapshot_of_empty [of oc dec to_value st0] by auto
  show ?thesis using start_engine_eq [OF snap ids redis, of from_value pub'] codec by (simp add: db all)
qed

end
