(* ===== verification/Engine_Run.thy ===== *)
theory Engine_Run
  imports Engine_Safety
begin

text \<open>
  The engine as a state machine: the events whose amounts fit into 64 bits are its steps, every
  reachable state satisfies the invariant, and no such event stops the engine. The last section shows
  that a command is answered exactly once, on its queue and under its identifier.
\<close>

section \<open>Steps\<close>

definition event_fits :: "decoders \<Rightarrow> engine_state \<Rightarrow> string \<Rightarrow> string \<Rightarrow> bool" where
  "event_fits dec st channel data \<longleftrightarrow>
     (channel = CH_ONRAMP \<longrightarrow> (case dec_onramp dec data of None \<Rightarrow> True
        | Some m \<Rightarrow> usd_total st + on_qty m < u64_lim)) \<and>
     (channel = CH_DEPOSIT \<longrightarrow> (case dec_deposit dec data of None \<Rightarrow> True
        | Some m \<Rightarrow> asset_total (dp_symbol m) st + dp_qty m < u64_lim)) \<and>
     (channel = CH_ORDER \<longrightarrow> (case dec_order dec data of None \<Rightarrow> True | Some m \<Rightarrow> msg_fits st m))"

text \<open>A step ends in a sound state and does not run out of order ids.\<close>

definition lands_in_inv :: "engine_state \<Rightarrow> (engine_state \<times> publisher) option \<Rightarrow> bool" where
  "lands_in_inv st r \<longleftrightarrow> (\<exists>st' pub'. r = Some (st', pub') \<and> engine_inv st' \<and>
     (next_order_id st < u64_lim \<longrightarrow> next_order_id st' < u64_lim))"

lemma on_msg_lands:
  "engine_inv st \<Longrightarrow> (\<And>m. d = Some m \<Longrightarrow> lands_in_inv st (h m)) \<Longrightarrow> lands_in_inv st (on_msg d st pub h)"
  by (cases d) (simp_all add: on_msg_def lands_in_inv_def)

lemma lands_if: "(c \<Longrightarrow> lands_in_inv st x) \<Longrightarrow> (\<not> c \<Longrightarrow> lands_in_inv st y) \<Longrightarrow> lands_in_inv st (if c then x else y)"
  by simp

lemma get_orderbook_cases:
  "get_orderbook st x = (if supported (to_lowercase x) then Some (book_of st (to_lowercase x)) else None)"
  using get_orderbook_supported [of "to_lowercase x" st] get_orderbook_unsupported [of x st]
  by (auto simp: get_orderbook_def)

lemma handle_get_orderbook_ok:
  assumes inv: "engine_inv st"
  shows "handle_get_orderbook oc st pub msg = Some (reply pub (obq_queue_id msg) (OrderbookReply (obq_identifier msg)
    (let a = to_lowercase (obq_asset msg); row = (\<lambda>l. \<lparr>ol_price = ls_price l, ol_qty = ls_qty l\<rparr>) in
     if supported a
     then \<lparr>od_bids = map row (depth_rows (depth Bid (book_of st a))), od_asks = map row (depth_rows (depth Ask (book_of st a)))\<rparr>
     else \<lparr>od_bids = [], od_asks = []\<rparr>)))"
proof (cases "supported (to_lowercase (obq_asset msg))")
  case True
  have sound: "engine_sound st" and solvent: "solvent ''sol'' nobody nobody st"
    using inv by (simp_all add: engine_inv_def)
  then have "book_inv (book_of st (to_lowercase (obq_asset msg)))" using True by (simp add: engine_sound_def book_good_def)
  then show ?thesis
    using get_state_eq [OF _ depth_fits [OF sound solvent True], of oc] True
    by (simp add: handle_get_orderbook_def get_orderbook_cases Let_def)
qed (simp add: handle_get_orderbook_def get_orderbook_cases Let_def)

lemma dispatch_safe:
  assumes inv: "engine_inv st" and fits: "event_fits dec st channel data"
  shows "lands_in_inv st (dispatch_event oc dec st pub channel data)"
proof -
  note lands = on_msg_lands [OF inv]
  have ids: "next_order_id (signed_up u st) = next_order_id st" for u by (simp add: signed_up_def)
  have ledger_ids: "next_order_id (usd.credit u x st) = next_order_id st" "next_order_id (asset.credit a u x st) = next_order_id st" for u x a
    using movement_market(1,5) same_market_refl unfolding same_market_def by blast+
  have signup: "lands_in_inv st (handle_signup st pub m)" for m
    using handle_signup_ok(1) [OF inv, of pub m] handle_signup_ok(2) [OF inv, of m] by (simp add: lands_in_inv_def safe_step_def ids)
  have onramp: "lands_in_inv st (handle_onramp oc st pub m)" if "channel = CH_ONRAMP" "dec_onramp dec data = Some m" for m
  proof -
    have "usd_total st + on_qty m < u64_lim" using fits that by (simp add: event_fits_def)
    from handle_onramp_ok(1,2) [OF inv this refl] show ?thesis by (simp add: lands_in_inv_def ledger_ids)
  qed
  have deposit: "lands_in_inv st (handle_deposit oc st pub m)" if "channel = CH_DEPOSIT" "dec_deposit dec data = Some m" for m
  proof -
    have "asset_total (dp_symbol m) st + dp_qty m < u64_lim" using fits that by (simp add: event_fits_def)
    from handle_deposit_ok(1,2) [OF inv this refl] show ?thesis by (simp add: lands_in_inv_def ledger_ids)
  qed
  have order: "lands_in_inv st (handle_order oc st pub m)" if "channel = CH_ORDER" "dec_order dec data = Some m" for m
  proof -
    have "msg_fits st m" using fits that by (simp add: event_fits_def)
    moreover have "next_order_id st + 1 < u64_lim" using \<open>msg_fits st m\<close> by (simp add: msg_fits_def Let_def)
    ultimately show ?thesis
      using handle_order_safe [OF inv, of m oc pub] by (fastforce simp: lands_in_inv_def safe_step_def)
  qed
  have cancel: "lands_in_inv st (handle_cancel oc st pub m)" for m
    using handle_cancel_safe [OF inv, of oc pub m] by (auto simp: lands_in_inv_def safe_step_def)
  have query: "lands_in_inv st (Some (st, p))" for p
    using inv by (simp add: lands_in_inv_def)
  have book: "lands_in_inv st (map_option (Pair st) (handle_get_orderbook oc st pub m))" for m
    by (simp add: handle_get_orderbook_ok [OF inv] query)
  have reset: "lands_in_inv st (Some (handle_reset st pub m))" for m
    using handle_reset_ok(1,2) [OF inv] by (cases "handle_reset st pub m") (simp add: lands_in_inv_def empty_exchange_def u64_lim_def)
  show ?thesis
    unfolding dispatch_event_def
    by (intro lands_if lands signup cancel query book reset) (rule onramp deposit order; assumption)+
qed

inductive engine_reachable :: "bool \<Rightarrow> decoders \<Rightarrow> engine_state \<Rightarrow> bool" for oc dec where
  start: "fees_ok (fee_schedule_from_env mk tk) \<Longrightarrow> engine_reachable oc dec (engine_state_new mk tk)"
| step: "engine_reachable oc dec st \<Longrightarrow> event_fits dec st channel data \<Longrightarrow>
    dispatch_event oc dec st pub channel data = Some (st', pub') \<Longrightarrow> engine_reachable oc dec st'"

lemma engine_reachable_ids: "engine_reachable oc dec st \<Longrightarrow> engine_inv st \<and> next_order_id st < u64_lim"
proof (induction rule: engine_reachable.induct)
  case (start mk tk)
  then show ?case
    using empty_exchange_inv(1) [OF engine_state_new_empty] engine_state_new_empty
    by (simp add: engine_state_new_def empty_exchange_def u64_lim_def)
next
  case (step st channel data pub st' pub')
  then show ?case
    using dispatch_safe [of st dec channel data oc pub] by (simp add: lands_in_inv_def)
qed

lemma engine_reachable_inv: "engine_reachable oc dec st \<Longrightarrow> engine_inv st"
  by (simp add: engine_reachable_ids)

section \<open>Replies\<close>

definition is_lpush :: "out_msg \<Rightarrow> bool" where
  "is_lpush m = (case m of Lpush _ _ \<Rightarrow> True | _ \<Rightarrow> False)"

definition lpushes :: "publisher \<Rightarrow> out_msg list" where
  "lpushes pub = (case pub of None \<Rightarrow> [] | Some l \<Rightarrow> filter is_lpush l)"

definition answers :: "publisher \<Rightarrow> publisher \<Rightarrow> string \<Rightarrow> string \<Rightarrow> bool" where
  "answers pub pub' queue identifier \<longleftrightarrow>
     (case pub of
        None \<Rightarrow> pub' = None
      | Some _ \<Rightarrow> \<exists>payload. pub' \<noteq> None \<and> reply_identifier payload = identifier \<and>
          lpushes pub' = lpushes pub @ [Lpush (REPLY_PREFIX @ queue) payload])"

text \<open>Publishing events keeps the replies; sending one reply answers.\<close>

definition quiet :: "publisher \<Rightarrow> publisher \<Rightarrow> bool" where
  "quiet pub pub' \<longleftrightarrow> lpushes pub' = lpushes pub \<and> (pub' = None \<longleftrightarrow> pub = None)"

lemma quiet_refl [simp]: "quiet pub pub"
  by (simp add: quiet_def)

lemma quiet_trans: "quiet p q \<Longrightarrow> quiet q r \<Longrightarrow> quiet p r"
  by (simp add: quiet_def)

lemma quiet_emit [simp]: "quiet pub (emit_execution pub' e) \<longleftrightarrow> quiet pub pub'"
  by (cases pub') (simp_all add: quiet_def lpushes_def emit_execution_def is_lpush_def)

lemma reply_answers: "quiet pub pub' \<Longrightarrow> reply_identifier x = i \<Longrightarrow> answers pub (reply pub' q x) q i"
  by (cases pub; cases pub') (auto simp: quiet_def answers_def lpushes_def reply_def is_lpush_def)

lemma answers_quiet: "answers pub p q i \<Longrightarrow> quiet p p' \<Longrightarrow> answers pub p' q i"
  by (cases pub; cases p) (auto simp: answers_def quiet_def)

lemma error_answers:
  "quiet pub pub' \<Longrightarrow> answers pub (reply_error pub' q i e c) q i"
  "quiet pub pub' \<Longrightarrow> answers pub (reply_cancel_error pub' q i e) q i"
  "quiet pub pub' \<Longrightarrow> answers pub (status_reply pub' msg s) (om_queue_id msg) (om_identifier msg)"
  "quiet pub pub' \<Longrightarrow> answers pub (limit_reply pub' msg market qty f r) (om_queue_id msg) (om_identifier msg)"
  by (auto simp: reply_error_def reply_cancel_error_def status_reply_def limit_reply_def split: option.split
      intro!: reply_answers)

lemma settle_trade_quiet:
  "settle_trade oc track a market t (st, f, s, pub) = Some (st', f', s', pub') \<Longrightarrow> quiet pub pub'"
  by (auto simp: settle_trade_def bind_Some_iff)

lemma settle_results_quiet:
  "settle_results oc track a market rs ((st, f, s, pub), r) = Some ((st', f', s', pub'), r') \<Longrightarrow> quiet pub pub'"
proof (induction rs arbitrary: st f s pub r)
  case (Cons x rs)
  then show ?case
    by (cases x) (auto simp: bind_Some_iff dest: settle_trade_quiet intro: quiet_trans)
qed simp

lemma handle_limit_answers:
  "handle_limit oc st pub msg a market s qty = Some (ret, st', pub') \<Longrightarrow>
    answers pub pub' (om_queue_id msg) (om_identifier msg)"
  by (auto simp: handle_limit_def Let_def bind_Some_iff split: if_splits
      intro!: error_answers dest!: settle_results_quiet)

lemma execute_and_settle_quiet:
  "execute_and_settle oc msg a market s qty worst st pub = Some (st', f, sp, pub') \<Longrightarrow> quiet pub pub'"
  by (auto simp: execute_and_settle_def bind_Some_iff dest!: settle_results_quiet)

lemma handle_market_answers:
  "handle_market_ask oc st pub msg a market qty = Some (ret, st', pub') \<Longrightarrow>
    answers pub pub' (om_queue_id msg) (om_identifier msg)"
  "handle_market_bid oc st pub msg a market qty = Some (ret, st', pub') \<Longrightarrow>
    answers pub pub' (om_queue_id msg) (om_identifier msg)"
  by (auto simp: handle_market_ask_def handle_market_bid_def Let_def bind_Some_iff split: if_splits
      intro!: error_answers dest!: execute_and_settle_quiet)

lemma emit_depth_quiet: "emit_depth oc st pub a market = Some pub' \<Longrightarrow> quiet pub pub'"
  by (auto simp: emit_depth_def Let_def bind_Some_iff split: option.splits)

lemma handle_order_answers:
  assumes "handle_order oc st pub msg = Some (st', pub')"
  shows "answers pub pub' (om_queue_id msg) (om_identifier msg)"
proof (cases "supported (to_lowercase (om_asset msg)) \<and> parse_side (om_side msg) \<noteq> None \<and> 0 < om_qty msg")
  case False
  with assms show ?thesis
    by (auto simp: handle_order_def Let_def split: if_splits option.splits intro!: error_answers)
next
  case True
  let ?a = "to_lowercase (om_asset msg)" and ?qty = "nat (om_qty msg)"
  from True obtain s where s: "parse_side (om_side msg) = Some s" by blast
  with True assms obtain ret pub1 where run: "(case om_order_type msg of
          Limit \<Rightarrow> handle_limit oc st pub msg ?a (market_of ?a) s ?qty
        | Market \<Rightarrow> (case s of
            Ask \<Rightarrow> handle_market_ask oc st pub msg ?a (market_of ?a) ?qty
          | Bid \<Rightarrow> handle_market_bid oc st pub msg ?a (market_of ?a) ?qty)) = Some (ret, st', pub1)"
    and last: "if ret then pub' = pub1 else emit_depth oc st' pub1 ?a (market_of ?a) = Some pub'"
    by (auto simp: handle_order_def Let_def bind_Some_iff split: if_splits)
  have "answers pub pub1 (om_queue_id msg) (om_identifier msg)"
    using run handle_limit_answers handle_market_answers by (auto split: order_type.splits side.splits)
  then show ?thesis
    using last emit_depth_quiet answers_quiet by (cases ret) auto
qed

lemma handle_cancel_answers:
  assumes "handle_cancel oc st pub msg = Some (st', pub')"
  shows "answers pub pub' (cm_queue_id msg) (cm_identifier msg)"
proof -
  obtain st1 res where run: "cancel_in msg [''sol'', ''btc'', ''eth''] st = Some (st1, res)"
    using assms by (auto simp: handle_cancel_def bind_Some_iff simp del: cancel_in.simps)
  show ?thesis
  proof (cases res)
    case None
    with assms run show ?thesis
      by (auto simp: handle_cancel_def simp del: cancel_in.simps intro!: error_answers)
  next
    case (Some ca)
    obtain c a where "ca = (c, a)" by (cases ca)
    with Some assms run show ?thesis
      by (auto simp: handle_cancel_def Let_def bind_Some_iff simp del: cancel_in.simps
          dest!: emit_depth_quiet intro!: reply_answers elim: quiet_trans [rotated])
  qed
qed

text \<open>Every decoded command is answered.\<close>

lemma account_answers:
  "handle_signup st pub m1 = Some (st', pub') \<Longrightarrow> answers pub pub' (sg_queue_id m1) (sg_identifier m1)"
  "handle_onramp oc st pub m2 = Some (st', pub') \<Longrightarrow> answers pub pub' (on_queue_id m2) (on_identifier m2)"
  "handle_deposit oc st pub m3 = Some (st', pub') \<Longrightarrow> answers pub pub' (dp_queue_id m3) (dp_identifier m3)"
  "handle_reset st pub m4 = (st', pub') \<Longrightarrow> answers pub pub' (rs_queue_id m4) (rs_identifier m4)"
  by (auto simp: handle_signup_def handle_onramp_def handle_deposit_def handle_reset_def Let_def bind_Some_iff
      intro!: reply_answers)

lemma query_answers:
  "answers pub (handle_balance st pub m1) (bq_queue_id m1) (bq_identifier m1)"
  "handle_get_orderbook oc st pub m2 = Some pub' \<Longrightarrow> answers pub pub' (obq_queue_id m2) (obq_identifier m2)"
  "answers pub (handle_get_open_orders st pub m3) (ooq_queue_id m3) (ooq_identifier m3)"
  "answers pub (handle_get_order_status st pub m4) (osq_queue_id m4) (osq_identifier m4)"
  by (auto simp: handle_balance_def handle_get_orderbook_def handle_get_open_orders_def handle_get_order_status_def
      Let_def bind_Some_iff split: option.splits intro!: reply_answers)

text \<open>Where the answer to a command goes, if its payload decodes: the queue and the identifier of the message.\<close>

definition command_address :: "decoders \<Rightarrow> string \<Rightarrow> string \<Rightarrow> (string \<times> string) option" where
  "command_address dec channel data =
     (if channel = CH_SIGNUP then map_option (\<lambda>m. (sg_queue_id m, sg_identifier m)) (dec_signup dec data)
      else if channel = CH_ONRAMP then map_option (\<lambda>m. (on_queue_id m, on_identifier m)) (dec_onramp dec data)
      else if channel = CH_DEPOSIT then map_option (\<lambda>m. (dp_queue_id m, dp_identifier m)) (dec_deposit dec data)
      else if channel = CH_BALANCE then map_option (\<lambda>m. (bq_queue_id m, bq_identifier m)) (dec_balance dec data)
      else if channel = CH_ORDER then map_option (\<lambda>m. (om_queue_id m, om_identifier m)) (dec_order dec data)
      else if channel = CH_CANCEL then map_option (\<lambda>m. (cm_queue_id m, cm_identifier m)) (dec_cancel dec data)
      else if channel = CH_ORDERBOOK then map_option (\<lambda>m. (obq_queue_id m, obq_identifier m)) (dec_orderbook dec data)
      else if channel = CH_OPEN_ORDERS then map_option (\<lambda>m. (ooq_queue_id m, ooq_identifier m)) (dec_open_orders dec data)
      else if channel = CH_ORDER_STATUS then map_option (\<lambda>m. (osq_queue_id m, osq_identifier m)) (dec_order_status dec data)
      else if channel = CH_RESET then map_option (\<lambda>m. (rs_queue_id m, rs_identifier m)) (dec_reset dec data)
      else None)"

definition answered :: "engine_state \<Rightarrow> publisher \<Rightarrow> (string \<times> string) option \<Rightarrow> (engine_state \<times> publisher) option \<Rightarrow> bool" where
  "answered st pub address result \<longleftrightarrow>
     (\<forall>st' pub'. result = Some (st', pub') \<longrightarrow>
        (case address of None \<Rightarrow> st' = st \<and> pub' = pub | Some (q, i) \<Rightarrow> answers pub pub' q i))"

lemma answered_if:
  "(c \<Longrightarrow> answered st pub a x) \<Longrightarrow> (\<not> c \<Longrightarrow> answered st pub b y) \<Longrightarrow>
    answered st pub (if c then a else b) (if c then x else y)"
  by simp

lemma answered_msg:
  "(\<And>m st' pub'. h m = Some (st', pub') \<Longrightarrow> answers pub pub' (fst (addr m)) (snd (addr m))) \<Longrightarrow>
    answered st pub (map_option addr d) (on_msg d st pub h)"
  by (cases d) (auto simp: answered_def on_msg_def case_prod_unfold)

lemma dispatch_answers:
  assumes "dispatch_event oc dec st pub channel data = Some (st', pub')"
  shows "case command_address dec channel data of
      None \<Rightarrow> st' = st \<and> pub' = pub
    | Some (queue, identifier) \<Rightarrow> answers pub pub' queue identifier"
proof -
  have "answered st pub (command_address dec channel data) (dispatch_event oc dec st pub channel data)"
    unfolding command_address_def dispatch_event_def
    by (intro answered_if answered_msg)
      (auto simp: answered_def account_answers query_answers handle_order_answers handle_cancel_answers)
  with assms show ?thesis by (simp add: answered_def)
qed

end
