(* ===== verification/Scenario.thy ===== *)
theory Scenario
  imports Engine_Run
begin

text \<open>
  A concrete exchange, the one of the unit test \<^verbatim>\<open>test_maker_taker_fee_accounting_and_treasury\<close> in
  \<^verbatim>\<open>handlers/order.rs\<close>: 10 bps maker fee, 20 bps taker fee, user 1 with 10 SOL, user 2 with 1500 USD.
  User 1 rests an ask of 10 SOL at 100, user 2 buys. The states are computed by the model itself and
  serve as the inputs at which the general theorems are applied.
\<close>

definition scn_fees :: fee_schedule where
  "scn_fees = fee_schedule_new 10 20"

definition scn_empty :: engine_state where
  "scn_empty = with_fee_schedule scn_fees (engine_state_new None None)"

definition scn_funded :: engine_state where
  "scn_funded = scn_empty\<lparr>usd_balance := [(2, \<lparr>available = 1500, locked = 0\<rparr>)],
     stock_balance := [(1, [(''sol'', \<lparr>available = 10, locked = 0\<rparr>)])]\<rparr>"

definition scn_msg :: "nat \<Rightarrow> string \<Rightarrow> order_type \<Rightarrow> int \<Rightarrow> int \<Rightarrow> time_in_force \<Rightarrow> order_msg" where
  "scn_msg uid sd ty price qty tif = \<lparr>om_user_id = uid, om_asset = ''SOL'', om_side = sd, om_order_type = ty,
     om_price = price, om_qty = qty, om_slippage_pct = None, om_time_in_force = tif,
     om_queue_id = ''q'', om_identifier = ''id''\<rparr>"

definition scn_ask :: order_msg where
  "scn_ask = scn_msg 1 ''ask'' Limit 100 10 Gtc"

definition scn_resting :: order where
  "scn_resting = \<lparr>ord_order_id = 1, ord_user_id = 1, ord_side = Ask, ord_price = 100, ord_remaining_qty = 10\<rparr>"

text \<open>The book and the engine after the ask of user 1.\<close>

definition scn_book :: orderbook where
  "scn_book = \<lparr>symbol = ''SOL-USDT'', ob_next_order_id = 2, bids = [], asks = [(100, [1])], orders = [(1, scn_resting)]\<rparr>"

definition scn_open :: engine_state where
  "scn_open = scn_funded\<lparr>stock_balance := [(1, [(''sol'', \<lparr>available = 0, locked = 10\<rparr>)])],
     sol_orderbook := scn_book, next_order_id := 2\<rparr>"

lemmas scn_defs = scn_fees_def scn_empty_def scn_funded_def scn_msg_def scn_ask_def scn_resting_def scn_book_def scn_open_def

lemma scn_open_run: "map_option fst (handle_order True scn_funded None scn_ask) = Some scn_open"
  by code_simp

lemma scn_empty_inv: "engine_inv scn_empty" "usd_total scn_empty = 0" "asset_total a scn_empty = 0"
proof -
  have "empty_exchange scn_empty"
    unfolding empty_exchange_def supported_all
    by (simp add: scn_defs with_fee_schedule_def engine_state_new_def orderbook_new_def)
  moreover have "fees_ok (es_fee_schedule scn_empty)"
    by (simp add: scn_defs with_fee_schedule_def fees_ok_def fee_schedule_new_def)
  ultimately show "engine_inv scn_empty" "usd_total scn_empty = 0" "asset_total a scn_empty = 0"
    by (rule empty_exchange_inv)+
qed

lemma scn_funded_inv: "engine_inv scn_funded"
proof -
  let ?st = "usd.credit 2 1500 scn_empty"
  have "engine_inv ?st"
    by (rule credit_inv(1) [OF scn_empty_inv(1)]) (simp add: scn_empty_inv u64_lim_def)
  moreover have "asset_total ''sol'' ?st + 10 < u64_lim"
    by (simp add: frame_simps scn_empty_inv u64_lim_def)
  ultimately have "engine_inv (asset.credit ''sol'' 1 10 ?st)" by (rule credit_inv(2))
  moreover have "asset.credit ''sol'' 1 10 ?st = scn_funded"
    unfolding ledger_movement_defs
    by (simp add: usd_put_def stock_put_def scn_defs engine_state_new_def with_fee_schedule_def hm_get_or_def
        balance_default_def)
  ultimately show ?thesis by simp
qed

lemma scn_ask_fits: "msg_fits scn_funded scn_ask"
  by code_simp

lemma scn_open_inv: "engine_inv scn_open"
  using handle_order_safe [OF scn_funded_inv scn_ask_fits, of True None] scn_open_run
  by (auto simp: safe_step_def)

section \<open>Further inputs\<close>

lemma scn_book_inv: "book_inv scn_book" "uncrossed scn_book"
  using scn_open_inv
  by (auto simp: engine_inv_def engine_sound_def book_good_def supported_def scn_open_def dest!: spec [of _ "''sol''"])

definition scn_buy :: order_msg where
  "scn_buy = scn_msg 2 ''bid'' Limit 100 4 Gtc"

definition scn_market_buy :: order_msg where
  "scn_market_buy = scn_msg 2 ''bid'' Market 0 3 Ioc"

definition scn_cancel :: cancel_msg where
  "scn_cancel = \<lparr>cm_user_id = 1, cm_order_id = 1, cm_queue_id = ''q'', cm_identifier = ''id''\<rparr>"

lemma scn_buy_fits: "msg_fits scn_open scn_buy" "msg_fits scn_open scn_market_buy"
  by code_simp+

lemma scn_depth: "depth Ask scn_book = [scn_resting]" "depth Bid scn_book = []"
  by code_simp+

lemma scn_open_book: "book_of scn_open ''sol'' = scn_book"
  by (simp add: scn_open_def)

text \<open>A stream of two events: a sign-up and an on-ramp, with decoders for exactly these payloads.\<close>

definition scn_decoders :: decoders where
  "scn_decoders = \<lparr>
     dec_signup = (\<lambda>d. if d = ''s'' then Some \<lparr>sg_user_id = 7, sg_queue_id = ''q'', sg_identifier = ''a''\<rparr> else None),
     dec_onramp = (\<lambda>d. if d = ''o'' then Some \<lparr>on_user_id = 7, on_qty = 50, on_queue_id = ''q'', on_identifier = ''b''\<rparr> else None),
     dec_deposit = (\<lambda>_. None), dec_balance = (\<lambda>_. None), dec_order = (\<lambda>_. None), dec_cancel = (\<lambda>_. None),
     dec_orderbook = (\<lambda>_. None), dec_open_orders = (\<lambda>_. None), dec_order_status = (\<lambda>_. None),
     dec_reset = (\<lambda>_. None)\<rparr>"

definition scn_stream :: "stream_record list" where
  "scn_stream =
     [\<lparr>sr_id = ''1-1'', sr_map = [(''channel'', Utf8 CH_SIGNUP), (''data'', Utf8 ''s'')]\<rparr>,
      \<lparr>sr_id = ''1-2'', sr_map = [(''channel'', Utf8 CH_ONRAMP), (''data'', Utf8 ''o'')]\<rparr>]"

definition scn_xrange :: "string \<Rightarrow> stream_record list option" where
  "scn_xrange start = (if start = ''-'' then Some scn_stream
     else if start = ''(1-1'' then Some (tl scn_stream) else if start = ''(1-2'' then Some [] else None)"

definition scn_proc :: "engine_state engine_proc" where
  "scn_proc = \<lparr>ep_state = scn_empty, ep_pub = Some [], ep_db = Some empty_table, ep_last_id = ''0-0'', ep_events = 998\<rparr>"

lemma scn_xrange_spec: "xrange_spec scn_stream scn_xrange"
  unfolding xrange_spec_def scn_xrange_def scn_stream_def by (auto simp: Cons_eq_append_conv)

lemma scn_stream_ok: "reset_free scn_stream" "proper_ids scn_stream"
  by (simp_all add: reset_free_def proper_ids_def scn_stream_def record_event_def from_redis_value_def channel_defs)

text \<open>The engine after user 2 has bid for 5 SOL at 90.\<close>

definition scn_bid_msg :: order_msg where
  "scn_bid_msg = scn_msg 2 ''bid'' Limit 90 5 Gtc"

definition scn_bidding :: engine_state where
  "scn_bidding = (case handle_order True scn_funded None scn_bid_msg of Some (st, _) \<Rightarrow> st | None \<Rightarrow> scn_funded)"

definition scn_resting_bid :: order where
  "scn_resting_bid = \<lparr>ord_order_id = 1, ord_user_id = 2, ord_side = Bid, ord_price = 90, ord_remaining_qty = 5\<rparr>"

lemma scn_bidding_inv: "engine_inv scn_bidding"
proof -
  have "msg_fits scn_funded scn_bid_msg" by code_simp
  from handle_order_safe [OF scn_funded_inv this, of True None] show ?thesis
    by (auto simp: scn_bidding_def safe_step_def)
qed

end
