(* ===== verification/Book_Properties.thy ===== *)
theory Book_Properties
  imports Book_Api Scenario
begin

text \<open>
  The properties of the order book (\<^verbatim>\<open>rs-engine/src/orderbook/book.rs\<close>): the spread, price-time
  priority, the refinement of the matching loops to lists of fills, the agreement of the liquidity
  checks with the execution, and the error cases. Each is followed by its application at a concrete
  book.
\<close>

section \<open>A book with both sides\<close>

definition scn_bid :: order where
  "scn_bid = \<lparr>ord_order_id = 2, ord_user_id = 2, ord_side = Bid, ord_price = 90, ord_remaining_qty = 5\<rparr>"

definition scn_quoted :: orderbook where
  "scn_quoted = \<lparr>symbol = ''SOL-USDT'', ob_next_order_id = 3, bids = [(90, [2])], asks = [(100, [1])],
     orders = [(1, scn_resting), (2, scn_bid)]\<rparr>"

lemma scn_quoted_steps:
  "map_option fst (add_order True 1 Ask 100 10 Gtc (orderbook_new ''SOL-USDT'')) = Some scn_book"
  "map_option fst (add_order True 2 Bid 90 5 Gtc scn_book) = Some scn_quoted"
  "book_room (orderbook_new ''SOL-USDT'')" "book_room scn_book"
  by code_simp+

lemma scn_quoted_reachable: "book_reachable True scn_quoted"
proof -
  from scn_quoted_steps(1) obtain r where "add_order True 1 Ask 100 10 Gtc (orderbook_new ''SOL-USDT'') = Some (scn_book, r)"
    by auto
  then have "book_reachable True scn_book" using book_reachable.intros(1,3) scn_quoted_steps(3) by blast
  moreover from scn_quoted_steps(2) obtain r' where "add_order True 2 Bid 90 5 Gtc scn_book = Some (scn_quoted, r')" by auto
  ultimately show ?thesis using book_reachable.limit scn_quoted_steps(4) by blast
qed

lemma scn_quoted_facts:
  "book_inv scn_quoted" "depth Bid scn_quoted = [scn_bid]" "depth Ask scn_quoted = [scn_resting]"
  "best_bid scn_quoted = Some 90" "best_ask scn_quoted = Some 100" "ob_next_order_id scn_quoted = 3"
proof -
  show "book_inv scn_quoted" using book_reachable_inv [OF scn_quoted_reachable] by blast
  show "depth Bid scn_quoted = [scn_bid]" "depth Ask scn_quoted = [scn_resting]"
    "best_bid scn_quoted = Some 90" "best_ask scn_quoted = Some 100" "ob_next_order_id scn_quoted = 3"
    by code_simp+
qed

lemma scn_quoted_buy: "\<exists>b' rs. add_order_with_id True 3 7 Bid 100 12 Gtc scn_quoted = Some (b', Inr rs)"
proof -
  have "map_option (\<lambda>(b', r). isl r) (add_order_with_id True 3 7 Bid 100 12 Gtc scn_quoted) = Some False"
    by code_simp
  then show ?thesis by (auto simp: isl_def) (metis sum.exhaust)
qed

section \<open>Properties\<close>



text \<open>
  C7. The matching loops terminate without a panic on every well-formed book, for either side, any
  quantity and any stopping test, in both build profiles, and they compute \<open>take_fills\<close>: the orders of the
  opposite side in price-time order are consumed from the front until the quantity or the orders that
  qualify are exhausted.
\<close>

theorem match_loop_terminates:
  assumes "book_inv b"
  shows "\<exists>b' m fs os'. match_while oc t stops (b, n, []) = Some (b', m, map (MR_Trade \<circ> fill_trade t) fs) \<and>
    take_fills stops n (depth (opposite (tk_side t)) b) = (fs, os', m) \<and>
    book_inv b' \<and> depth (opposite (tk_side t)) b' = os' \<and> depth (tk_side t) b' = depth (tk_side t) b"
proof -
  obtain fs os' m where run: "take_fills stops n (depth (opposite (tk_side t)) b) = (fs, os', m)"
    by (cases "take_fills stops n (depth (opposite (tk_side t)) b)")
  from match_while_refines [OF assms, of oc t stops n "[]"] run show ?thesis
    by (auto simp: match_spec_def)
qed

theorem match_loop_terminates_witness:
  "\<exists>b' m fs os'. match_while True \<lparr>tk_order_id = 3, tk_user_id = 7, tk_side = Bid\<rparr> (limit_stops Bid 100) (scn_quoted, 4, []) =
      Some (b', m, map (MR_Trade \<circ> fill_trade \<lparr>tk_order_id = 3, tk_user_id = 7, tk_side = Bid\<rparr>) fs) \<and>
    take_fills (limit_stops Bid 100) 4 [scn_resting] = (fs, os', m) \<and> book_inv b' \<and> depth Ask b' = os' \<and>
    depth Bid b' = [scn_bid]"
  using match_loop_terminates [OF scn_quoted_facts(1), of True "\<lparr>tk_order_id = 3, tk_user_id = 7, tk_side = Bid\<rparr>" "limit_stops Bid 100" 4]
  by (simp add: scn_quoted_facts)

text \<open>
  C8. Placing a limit order, on every branch: the book returned is well-formed, the opposite side is
  what \<open>limit_fills\<close> leaves (nothing is taken for a fill-or-kill order that cannot be filled), the
  trades are the fills in that order, and what is left of a good-till-cancelled order is queued on its
  own side behind every order at least as good, and reported.
\<close>

theorem add_order_refines:
  assumes "book_inv b" and "0 < price" and "0 < qty" and "ob_next_order_id b \<le> oid" and "oid + 1 < u64_lim"
    and "sum_of ord_remaining_qty (depth (opposite s) b) < u64_lim"
    and "limit_fills tif s price qty (depth (opposite s) b) = (fs, os', n')"
  shows "\<exists>b'. add_order_with_id oc oid uid s price qty tif b = Some (b', Inr
      (map (MR_Trade \<circ> fill_trade \<lparr>tk_order_id = oid, tk_user_id = uid, tk_side = s\<rparr>) fs @
       (if 0 < n' \<and> tif = Gtc then [MR_OrderAccepted (accepted_of (new_order oid uid s price n'))] else []))) \<and>
    book_inv b' \<and> depth (opposite s) b' = os' \<and>
    depth s b' = (if 0 < n' \<and> tif = Gtc then enqueue s (new_order oid uid s price n') (depth s b) else depth s b)"
  by (rule add_order_law [OF assms refl])

theorem add_order_refines_witness:
  "\<exists>b'. add_order_with_id True 3 7 Bid 100 12 Gtc scn_quoted = Some (b', Inr
      [MR_Trade (fill_trade \<lparr>tk_order_id = 3, tk_user_id = 7, tk_side = Bid\<rparr> (scn_resting, 10)),
       MR_OrderAccepted (accepted_of (new_order 3 7 Bid 100 2))]) \<and>
    book_inv b' \<and> depth Ask b' = [] \<and> depth Bid b' = [new_order 3 7 Bid 100 2, scn_bid]"
proof -
  have "limit_fills Gtc Bid 100 12 (depth (opposite Bid) scn_quoted) = ([(scn_resting, 10)], [], 2)"
    "sum_of ord_remaining_qty (depth (opposite Bid) scn_quoted) < u64_lim"
    "enqueue Bid (new_order 3 7 Bid 100 2) [scn_bid] = [new_order 3 7 Bid 100 2, scn_bid]"
    by code_simp+
  then show ?thesis
    using add_order_refines [OF scn_quoted_facts(1), where price = 100 and qty = 12 and oid = 3 and uid = 7 and s = Bid
        and tif = Gtc and oc = True]
    by (simp add: scn_quoted_facts u64_lim_def)
qed

text \<open>
  C9. A market order takes \<open>take_fills\<close> of the opposite side up to the worst price, leaves its own
  side alone and never rests.
\<close>

theorem market_order_refines:
  assumes "book_inv b" and "0 < qty" and "ob_next_order_id b \<le> oid" and "oid + 1 < u64_lim"
    and "take_fills (market_stops s worst) qty (depth (opposite s) b) = (fs, os', n')"
  shows "\<exists>b'. execute_market_order_with_id oc oid uid s qty worst b = Some (b', Inr
      (map (MR_Trade \<circ> fill_trade \<lparr>tk_order_id = oid, tk_user_id = uid, tk_side = s\<rparr>) fs)) \<and>
    book_inv b' \<and> depth (opposite s) b' = os' \<and> depth s b' = depth s b"
  by (rule market_order_law [OF assms])

theorem market_order_refines_witness:
  "\<exists>b'. execute_market_order_with_id True 3 7 Ask 9 (Some 80) scn_quoted = Some (b', Inr
      [MR_Trade (fill_trade \<lparr>tk_order_id = 3, tk_user_id = 7, tk_side = Ask\<rparr> (scn_bid, 5))]) \<and>
    book_inv b' \<and> depth Bid b' = [] \<and> depth Ask b' = [scn_resting]"
proof -
  have "take_fills (market_stops Ask (Some 80)) 9 (depth (opposite Ask) scn_quoted) = ([(scn_bid, 5)], [], 4)"
    by code_simp
  then show ?thesis
    using market_order_refines [OF scn_quoted_facts(1), where qty = 9 and oid = 3 and uid = 7 and s = Ask
        and worst = "Some 80" and oc = True]
    by (simp add: scn_quoted_facts u64_lim_def)
qed

text \<open>
  C10. The account of an accepted limit order: the volume of the opposite side drops by exactly what was
  traded, the volume of the own side grows by exactly what is left of a good-till-cancelled order and
  by nothing otherwise, no more than the order's quantity is traded, every trade moves a positive
  quantity at a price that the limit allows, and a fill-or-kill order trades completely or not at all.
\<close>

theorem limit_order_account:
  assumes "book_inv b" and "0 < price" and "0 < qty" and "ob_next_order_id b \<le> oid" and "oid + 1 < u64_lim"
    and "sum_of ord_remaining_qty (depth (opposite s) b) < u64_lim"
    and "add_order_with_id oc oid uid s price qty tif b = Some (b', Inr rs)"
    and "ts = trades_of rs"
  shows "sum_of ord_remaining_qty (depth (opposite s) b) = sum_of ord_remaining_qty (depth (opposite s) b') + sum_of tr_qty ts \<and>
    sum_of ord_remaining_qty (depth s b') =
      sum_of ord_remaining_qty (depth s b) + (if tif = Gtc then qty - sum_of tr_qty ts else 0) \<and>
    sum_of tr_qty ts \<le> qty \<and>
    (\<forall>t \<in> set ts. 0 < tr_qty t \<and> (case s of Bid \<Rightarrow> tr_price t \<le> price | Ask \<Rightarrow> price \<le> tr_price t)) \<and>
    (tif = Fok \<longrightarrow> sum_of tr_qty ts = qty \<or> rs = [])"
  using pt.place_account [OF assms] by (auto simp: limit_stops_def split: side.splits)

theorem limit_order_account_witness:
  "\<exists>b' rs. add_order_with_id True 3 7 Bid 100 12 Gtc scn_quoted = Some (b', Inr rs) \<and>
     sum_of ord_remaining_qty (depth Ask scn_quoted) =
       sum_of ord_remaining_qty (depth Ask b') + sum_of tr_qty (trades_of rs) \<and>
     sum_of ord_remaining_qty (depth Bid b') = 5 + (12 - sum_of tr_qty (trades_of rs))"
proof -
  obtain b' rs where run: "add_order_with_id True 3 7 Bid 100 12 Gtc scn_quoted = Some (b', Inr rs)"
    using scn_quoted_buy by blast
  have "sum_of ord_remaining_qty (depth (opposite Bid) scn_quoted) < u64_lim" "sum_of ord_remaining_qty (depth Bid scn_quoted) = 5"
    by code_simp+
  then show ?thesis
    using limit_order_account [OF scn_quoted_facts(1), where price = 100 and qty = 12 and oid = 3 and uid = 7 and s = Bid
        and tif = Gtc and oc = True, OF _ _ _ _ _ run refl] run
    by (simp add: scn_quoted_facts u64_lim_def)
qed

section \<open>Priority\<close>




section \<open>Liquidity checks and execution\<close>

lemma fills_cost_le_value:
  assumes "take_fills stops n os = (fs, os', n')"
  shows "fills_cost fs \<le> sum_of (\<lambda>x. ord_price x * ord_remaining_qty x) os"
proof -
  have "sum_of (\<lambda>x. ord_price x * ord_remaining_qty x) os' + fills_cost fs =
      sum_of (\<lambda>x. ord_price x * ord_remaining_qty x) os"
    by (rule take_fills_split_rel [OF assms, where R = "(=)"]) (auto simp: algebra_simps simp flip: distrib_left)
  then show ?thesis by simp
qed

text \<open>
  C12. The quote of a market buy is what its execution costs: when the value of the asks fits into 64
  bits, \<^verbatim>\<open>quote_cost_for_market_buy\<close> returns exactly the total price and the total quantity of the
  trades that \<^verbatim>\<open>execute_market_order_with_id\<close> then makes with the same cap.
\<close>

theorem quote_matches_execution:
  assumes "book_inv b" and "0 < qty" and "qty < u64_lim" and "ob_next_order_id b \<le> oid" and "oid + 1 < u64_lim"
    and "sum_of (\<lambda>x. ord_price x * ord_remaining_qty x) (depth Ask b) < u64_lim"
  shows "\<exists>b' rs. execute_market_order_with_id oc oid uid Bid qty worst b = Some (b', Inr rs) \<and>
    quote_cost_for_market_buy oc b qty worst =
      Some (sum_of (\<lambda>t. tr_price t * tr_qty t) (trades_of rs), sum_of tr_qty (trades_of rs))"
proof -
  obtain fs os' n' where run: "take_fills (market_stops Bid worst) qty (depth Ask b) = (fs, os', n')"
    by (cases "take_fills (market_stops Bid worst) qty (depth Ask b)")
  have "quote_cost_for_market_buy oc b qty worst = Some (fills_cost fs, sum_of snd fs)"
    using quote_cost_eq [OF assms(1,2) run] fills_cost_le_value [OF run] assms(3,6) by simp
  then show ?thesis
    using market_order_law [OF assms(1,2,4,5), where s = Bid and worst = worst and oc = oc and uid = uid] run
    by (auto simp: fill_trade_sums)
qed

theorem quote_matches_execution_witness:
  "\<exists>b' rs. execute_market_order_with_id True 3 7 Bid 4 (Some 105) scn_quoted = Some (b', Inr rs) \<and>
    quote_cost_for_market_buy True scn_quoted 4 (Some 105) =
      Some (sum_of (\<lambda>t. tr_price t * tr_qty t) (trades_of rs), sum_of tr_qty (trades_of rs))"
proof -
  have "sum_of (\<lambda>x. ord_price x * ord_remaining_qty x) (depth Ask scn_quoted) < u64_lim" by code_simp
  then show ?thesis
    using quote_matches_execution [OF scn_quoted_facts(1), of 4 3 True 7 "Some 105"]
    by (simp add: scn_quoted_facts u64_lim_def)
qed

text \<open>
  C13. The two other liquidity checks agree with what the matching would do: \<^verbatim>\<open>can_fill_quantity\<close> says
  yes exactly when the fills of the limit order use up its quantity, and
  \<^verbatim>\<open>fillable_qty_for_market_sell\<close> returns exactly the quantity a market sell would trade.
\<close>

theorem liquidity_checks_exact:
  assumes "book_inv b" and "0 < qty" and "qty < u64_lim"
    and "sum_of ord_remaining_qty (depth (opposite s) b) < u64_lim"
    and "take_fills (limit_stops s price) qty (depth (opposite s) b) = (fs, os1, left)"
    and "take_fills (market_stops Ask worst) qty (depth Bid b) = (gs, os2, left')"
  shows "can_fill_quantity oc b s price qty = Some (left = 0) \<and>
    fillable_qty_for_market_sell oc b qty worst = Some (qty - left')"
  using can_fill_quantity_eq [OF assms(1,4)] take_fills_left [OF assms(5)]
    fillable_qty_eq [OF assms(1,2,6,3)] take_fills_qty [OF assms(6)] by auto

theorem liquidity_checks_exact_witness:
  "can_fill_quantity True scn_quoted Bid 100 12 = Some False \<and>
   fillable_qty_for_market_sell True scn_quoted 12 (Some 90) = Some 5"
proof -
  have "take_fills (limit_stops Bid 100) 12 (depth (opposite Bid) scn_quoted) = ([(scn_resting, 10)], [], 2)"
    "take_fills (market_stops Ask (Some 90)) 12 (depth Bid scn_quoted) = ([(scn_bid, 5)], [], 7)"
    "sum_of ord_remaining_qty (depth (opposite Bid) scn_quoted) < u64_lim" by code_simp+
  then show ?thesis
    using liquidity_checks_exact [OF scn_quoted_facts(1), of 12 Bid 100 _ _ _ "Some 90"] by (simp add: u64_lim_def)
qed

section \<open>Round trip, depth and errors\<close>

lemma filter_enqueue_fresh:
  assumes "\<And>x. x \<in> set os \<Longrightarrow> ord_order_id x \<noteq> ord_order_id ord"
  shows "filter (\<lambda>x. ord_order_id x \<noteq> ord_order_id ord) (enqueue s ord os) = os"
proof -
  let ?P = "\<lambda>x. at_least_as_good s (ord_price x) (ord_price ord)"
  have "filter (\<lambda>x. ord_order_id x \<noteq> ord_order_id ord) (enqueue s ord os) =
      filter (\<lambda>x. ord_order_id x \<noteq> ord_order_id ord) (takeWhile ?P os @ dropWhile ?P os)"
    by (simp add: enqueue_def del: takeWhile_dropWhile_id)
  then show ?thesis using assms by (auto simp: filter_id_conv)
qed

text \<open>
  C14. Placing and cancelling are inverse: a good-till-cancelled order that crosses nothing rests, its
  owner can cancel it and gets back its full quantity, and afterwards both sides of the book are exactly
  what they were before.
\<close>

theorem place_cancel_roundtrip:
  assumes "book_inv b" and "0 < price" and "0 < qty" and "ob_next_order_id b \<le> oid" and "oid + 1 < u64_lim"
    and "sum_of ord_remaining_qty (depth (opposite s) b) < u64_lim"
    and "\<forall>x \<in> set (depth (opposite s) b). limit_stops s price (ord_price x)"
  shows "\<exists>b1 b2. add_order_with_id oc oid uid s price qty Gtc b =
      Some (b1, Inr [MR_OrderAccepted (accepted_of (new_order oid uid s price qty))]) \<and>
    cancel_order oid uid b1 = Some (b2, Inr (cancelled_of (new_order oid uid s price qty))) \<and>
    (\<forall>t. depth t b2 = depth t b)"
proof -
  let ?x = "new_order oid uid s price qty"
  have "limit_fills Gtc s price qty (depth (opposite s) b) = ([], depth (opposite s) b, qty)"
    using take_fills_other_price [of "depth (opposite s) b" "limit_stops s price"] assms(7) by (simp add: limit_fills_def)
  from add_order_law [OF assms(1-6) this refl, of oc uid] assms(3)
  obtain b1 where add: "add_order_with_id oc oid uid s price qty Gtc b = Some (b1, Inr [MR_OrderAccepted (accepted_of ?x)])"
    and b1: "book_inv b1" "depth (opposite s) b1 = depth (opposite s) b" "depth s b1 = enqueue s ?x (depth s b)" by auto
  have "?x \<in> set (depth s b1)" by (simp add: b1(3) set_enqueue)
  then have "get_order b1 oid = Some ?x"
    using depth_iff [OF b1(1)] by (simp add: get_order_def new_order_def)
  then obtain b2 where cancel: "cancel_order oid uid b1 = Some (b2, Inr (cancelled_of ?x))"
    and b2: "\<forall>t. depth t b2 = filter (\<lambda>y. ord_order_id y \<noteq> oid) (depth t b1)"
    using cancel_order_refines [OF b1(1), of oid ?x uid] by (auto simp: new_order_def)
  have fresh: "ord_order_id y \<noteq> oid" if "y \<in> set (depth t b)" for y t
    using depth_pos(4) [OF assms(1) that] assms(4) by simp
  have "filter (\<lambda>y. ord_order_id y \<noteq> oid) (enqueue s ?x (depth s b)) = depth s b"
    using filter_enqueue_fresh [of "depth s b" ?x s] fresh by (simp add: new_order_def)
  moreover have "filter (\<lambda>y. ord_order_id y \<noteq> oid) (depth (opposite s) b) = depth (opposite s) b"
    using fresh by (auto simp: filter_id_conv)
  ultimately have "depth t b2 = depth t b" for t
    using b1(2,3) b2 by (cases t; cases s) auto
  with add cancel show ?thesis by blast
qed

theorem place_cancel_roundtrip_witness:
  "\<exists>b1 b2. add_order_with_id True 3 7 Bid 95 4 Gtc scn_quoted =
      Some (b1, Inr [MR_OrderAccepted (accepted_of (new_order 3 7 Bid 95 4))]) \<and>
    cancel_order 3 7 b1 = Some (b2, Inr (cancelled_of (new_order 3 7 Bid 95 4))) \<and>
    (\<forall>t. depth t b2 = depth t scn_quoted)"
proof -
  have "\<forall>x \<in> set (depth (opposite Bid) scn_quoted). limit_stops Bid 95 (ord_price x)"
    "sum_of ord_remaining_qty (depth (opposite Bid) scn_quoted) < u64_lim" by code_simp+
  then show ?thesis
    using place_cancel_roundtrip [OF scn_quoted_facts(1), of 95 4 3 Bid True 7]
    by (simp add: scn_quoted_facts u64_lim_def)
qed

text \<open>
  C15. The snapshot of the book shows, for each side, one row per price with the total quantity resting
  at that price, best price first; the sum cannot overflow while the resting quantity fits into 64 bits.
\<close>

theorem snapshot_rows:
  assumes "book_inv b" and "book_room b"
  shows "get_state oc b = Some \<lparr>os_symbol = symbol b, os_bids = depth_rows (depth Bid b), os_asks = depth_rows (depth Ask b)\<rparr>"
  using get_state_eq [OF assms(1) book_room_side [OF assms(2)]] .

theorem snapshot_rows_witness:
  "get_state True scn_quoted = Some \<lparr>os_symbol = ''SOL-USDT'', os_bids = [\<lparr>ls_price = 90, ls_qty = 5\<rparr>],
     os_asks = [\<lparr>ls_price = 100, ls_qty = 10\<rparr>]\<rparr>"
proof -
  have "book_room scn_quoted" "symbol scn_quoted = ''SOL-USDT''"
    "depth_rows (depth Bid scn_quoted) = [\<lparr>ls_price = 90, ls_qty = 5\<rparr>]"
    "depth_rows (depth Ask scn_quoted) = [\<lparr>ls_price = 100, ls_qty = 10\<rparr>]" by code_simp+
  then show ?thesis using snapshot_rows [OF scn_quoted_facts(1), of True] by simp
qed



end
