(* ===== verification/Engine_Properties.thy ===== *)
theory Engine_Properties
  imports Scenario
begin

text \<open>
  The properties of the engine around the order handler (\<^verbatim>\<open>rs-engine/src/handlers\<close>,
  \<^verbatim>\<open>rs-engine/src/engine.rs\<close>, \<^verbatim>\<open>rs-engine/src/snapshot.rs\<close>): what holds in every reachable state, the
  effect of market orders, cancellations and funding, the replies, replay and the snapshot table, and
  behaviours at the edge (overflow, fee rounding, reset inside a batch, commands sent while the engine is
  down) as concrete runs.
\<close>

section \<open>Reachable states\<close>

lemma reachable_empty: "engine_reachable oc dec (engine_state_new None None)"
  by (rule engine_reachable.start) (simp add: fee_schedule_from_env_def fees_ok_def)

text \<open>
  C17. In every state the engine can reach from its start by events whose amounts fit into 64 bits:
  the USD a user has locked cover the value and the maker fee of all the user's resting bids, exactly
  when the maker fee is zero; the units of an asset a user has locked are exactly the user's resting
  asks; no book is crossed; and no order id is used twice, in one book or in two.
\<close>

theorem reachable_solvent:
  assumes "engine_reachable oc dec st"
  shows "(\<forall>u. usd_due st u \<le> locked (usd_of st u) \<and>
      (maker_fee_bps (es_fee_schedule st) = 0 \<longrightarrow> locked (usd_of st u) = usd_due st u)) \<and>
    (\<forall>a u. supported a \<longrightarrow> locked (asset_of st u a) = ask_due u (book_of st a)) \<and>
    (\<forall>a. supported a \<longrightarrow> uncrossed (book_of st a) \<and> distinct (map ord_order_id (depth Bid (book_of st a))) \<and>
      distinct (map ord_order_id (depth Ask (book_of st a)))) \<and>
    (\<forall>a a'. supported a \<longrightarrow> supported a' \<longrightarrow> a \<noteq> a' \<longrightarrow> book_ids (book_of st a) \<inter> book_ids (book_of st a') = {})"
  using engine_reachable_inv [OF assms] depth_distinct
  by (auto simp: engine_inv_def engine_sound_def solvent_def covers_def book_good_def ids_disjoint_def)

theorem reachable_solvent_witness:
  "engine_reachable True scn_decoders (engine_state_new None None) \<and>
   (\<forall>u. usd_due (engine_state_new None None) u \<le> locked (usd_of (engine_state_new None None) u))"
  using reachable_solvent [OF reachable_empty] reachable_empty by blast

lemma resting_order_fits:
  assumes sound: "engine_sound st" and a: "supported a" and x: "x \<in> set (depth s (book_of st a))"
  shows "0 < ord_price x" "0 < ord_remaining_qty x" "ord_price x * ord_remaining_qty x < u64_lim"
    and "ord_price x < u64_lim" "ord_remaining_qty x < u64_lim" "ord_order_id x < next_order_id st" "ord_side x = s"
proof -
  have good: "book_good (es_fee_schedule st) (next_order_id st) (book_of st a)"
    using sound a by (simp add: engine_sound_def)
  then have inv: "book_inv (book_of st a)" by (simp add: book_good_def)
  note pos = depth_pos [OF inv x]
  show fits: "ord_price x * ord_remaining_qty x < u64_lim"
    using good x by (auto simp: book_good_def order_fits_def order_value_def)
  show price: "0 < ord_price x" and qty: "0 < ord_remaining_qty x" and "ord_side x = s" using pos by simp_all
  show "ord_order_id x < next_order_id st" using pos good by (simp add: book_good_def)
  have "ord_price x \<le> ord_price x * ord_remaining_qty x" "ord_remaining_qty x \<le> ord_price x * ord_remaining_qty x"
    using price qty by simp_all
  with fits show "ord_price x < u64_lim" "ord_remaining_qty x < u64_lim" by linarith+
qed

text \<open>
  C18. The values the engine computes with stay in their machine type: in every reachable state each
  balance, available and locked together, fits into 64 bits, so does the next order id, and for every
  resting order the price and the quantity are positive, the value fits, the id has been issued and the
  side is that of the queue it waits in; the quantities of one side of a book sum up within 64 bits, so
  that no sum over a book can overflow.
\<close>

theorem reachable_values_fit:
  assumes "engine_reachable oc dec st"
  shows "(\<forall>u. funds (usd_of st u) < u64_lim) \<and> (\<forall>u a. funds (asset_of st u a) < u64_lim) \<and> next_order_id st < u64_lim \<and>
    (\<forall>a s. supported a \<longrightarrow> sum_of ord_remaining_qty (depth s (book_of st a)) < u64_lim \<and>
      (\<forall>x \<in> set (depth s (book_of st a)). 0 < ord_price x \<and> 0 < ord_remaining_qty x \<and>
         ord_price x * ord_remaining_qty x < u64_lim \<and> ord_price x < u64_lim \<and> ord_remaining_qty x < u64_lim \<and>
         ord_order_id x < next_order_id st \<and> ord_side x = s))"
proof -
  have inv: "engine_inv st" and ids: "next_order_id st < u64_lim"
    using engine_reachable_ids [OF assms] by simp_all
  then have sound: "engine_sound st" and solv: "solvent ''sol'' nobody nobody st" and wf: "ledger_wf st"
    by (simp_all add: engine_inv_def engine_sound_def)
  have "funds (usd_of st u) < u64_lim" "funds (asset_of st u a) < u64_lim" for u a
    using usd.total_ge [OF wf, of u] asset.total_ge [OF wf, of u a] sound
    by (auto simp: engine_sound_def intro: le_less_trans)
  then show ?thesis
    by (intro conjI allI impI ballI) (use ids depth_fits [OF sound solv] resting_order_fits [OF sound] in \<open>auto\<close>)
qed

theorem reachable_values_fit_witness:
  "engine_reachable True scn_decoders (engine_state_new None None) \<and>
   (\<forall>u. funds (usd_of (engine_state_new None None) u) < u64_lim) \<and> next_order_id (engine_state_new None None) < u64_lim"
  using reachable_values_fit [OF reachable_empty] reachable_empty by blast

text \<open>
  C19. The engine does not panic: in every reachable state, dispatching any event whose amounts fit
  returns, in both build profiles, with or without a publisher, and the next state is reachable again.
  Unknown channels and payloads that do not decode change nothing.
\<close>

theorem engine_never_panics:
  assumes "engine_reachable oc dec st" and "event_fits dec st channel data"
  shows "\<exists>st' pub'. dispatch_event oc dec st pub channel data = Some (st', pub') \<and> engine_reachable oc dec st'"
  using dispatch_safe [OF engine_reachable_inv [OF assms(1)] assms(2), of oc pub] engine_reachable.step [OF assms]
  unfolding lands_in_inv_def by blast

theorem engine_never_panics_witness:
  "event_fits scn_decoders (engine_state_new None None) CH_ONRAMP ''o'' \<and>
   (\<exists>st' pub'. dispatch_event True scn_decoders (engine_state_new None None) (Some []) CH_ONRAMP ''o'' = Some (st', pub') \<and>
     engine_reachable True scn_decoders st')"
proof -
  have "event_fits scn_decoders (engine_state_new None None) CH_ONRAMP ''o''" by code_simp
  then show ?thesis using engine_never_panics [OF reachable_empty] by blast
qed



section \<open>Market orders\<close>

text \<open>
  C21. A market buy with liquidity and funds: it takes the asks in price-time order up to the cap (the
  price of the message, or the best ask plus the slippage), never rests, pays exactly the value and the
  taker fee of its trades, every unit it locked beyond that is released, and the reply says how far it
  was filled.
\<close>

theorem market_buy_effect:
  assumes "engine_inv st" and "supported a" and "0 < qty" and "qty < u64_lim" and "next_order_id st + 1 < u64_lim"
    and "take_fills (market_stops Bid (buy_cap st msg a)) qty (depth Ask (book_of st a)) = (fl, os', n')"
    and "fl \<noteq> []" and "om_time_in_force msg = Fok \<longrightarrow> n' = 0" and "market_fits (es_fee_schedule st) fl"
    and "market_cost (es_fee_schedule st) fl \<le> available (usd_of st (om_user_id msg))"
  shows "\<exists>st'. handle_market_bid oc st pub msg a market qty =
      Some (False, st', status_reply (emit_all pub (fill_events st (om_user_id msg) st' a market Bid fl)) msg
        (fill_status (sum_of snd fl) qty)) \<and>
    order_post st a (om_user_id msg) Bid 0 fl os' 0 st'"
  using market_bid_done [OF assms(1-7) _ assms(9,10), of oc pub market] assms(8) by (simp add: market_done_def)

theorem market_buy_effect_witness:
  "\<exists>st'. handle_market_bid True scn_open (Some []) scn_market_buy ''sol'' ''SOL_USD'' 3 =
      Some (False, st', status_reply (emit_all (Some [])
        (fill_events scn_open 2 st' ''sol'' ''SOL_USD'' Bid [(scn_resting, 3)])) scn_market_buy ''filled'') \<and>
    order_post scn_open ''sol'' 2 Bid 0 [(scn_resting, 3)] [scn_resting\<lparr>ord_remaining_qty := 7\<rparr>] 0 st'"
proof -
  have run: "take_fills (market_stops Bid (buy_cap scn_open scn_market_buy ''sol'')) 3 (depth Ask (book_of scn_open ''sol'')) =
      ([(scn_resting, 3)], [scn_resting\<lparr>ord_remaining_qty := 7\<rparr>], 0)"
    and facts: "next_order_id scn_open + 1 < u64_lim" "market_fits (es_fee_schedule scn_open) [(scn_resting, 3)]"
      "market_cost (es_fee_schedule scn_open) [(scn_resting, 3)] \<le> available (usd_of scn_open 2)"
    by code_simp+
  have "om_user_id scn_market_buy = 2" "fill_status 3 3 = ''filled''" "(3::nat) < u64_lim" "supported ''sol''"
    by (simp_all add: scn_market_buy_def scn_msg_def fill_status_def u64_lim_def supported_def)
  then show ?thesis
    using market_buy_effect [OF scn_open_inv _ _ _ facts(1) run _ _ facts(2), of True "Some []" "''SOL_USD''"] facts(3) by simp
qed

text \<open>
  C22. A market sell of a user who has the units: it takes the bids in price-time order down to the
  floor, never rests, gives exactly the units it sold and gets the rest back, and receives the value of
  the trades less the taker fee.
\<close>

theorem market_sell_effect:
  assumes "engine_inv st" and "supported a" and "0 < qty" and "qty < u64_lim" and "next_order_id st + 1 < u64_lim"
    and "take_fills (market_stops Ask (sell_floor st msg a)) qty (depth Bid (book_of st a)) = (fl, os', n')"
    and "om_time_in_force msg = Fok \<longrightarrow> n' = 0" and "qty \<le> available (asset_of st (om_user_id msg) a)"
  shows "\<exists>st'. handle_market_ask oc st pub msg a market qty =
      Some (False, st', status_reply (emit_all pub (fill_events st (om_user_id msg) st' a market Ask fl)) msg
        (fill_status (sum_of snd fl) qty)) \<and>
    order_post st a (om_user_id msg) Ask 0 fl os' 0 st'"
  using market_ask_done [OF assms(1-6) _ assms(8), of oc pub market] assms(7) by (simp add: market_done_def)

theorem market_sell_effect_witness:
  "\<exists>st'. handle_market_ask True scn_bidding (Some []) (scn_msg 1 ''ask'' Market 0 8 Ioc) ''sol'' ''SOL_USD'' 8 =
      Some (False, st', status_reply (emit_all (Some [])
        (fill_events scn_bidding 1 st' ''sol'' ''SOL_USD'' Ask [(scn_resting_bid, 5)]))
        (scn_msg 1 ''ask'' Market 0 8 Ioc) ''partially_filled'') \<and>
    order_post scn_bidding ''sol'' 1 Ask 0 [(scn_resting_bid, 5)] [] 0 st'"
proof -
  let ?msg = "scn_msg 1 ''ask'' Market 0 8 Ioc"
  have run: "take_fills (market_stops Ask (sell_floor scn_bidding ?msg ''sol'')) 8 (depth Bid (book_of scn_bidding ''sol'')) =
      ([(scn_resting_bid, 5)], [], 3)"
    and facts: "next_order_id scn_bidding + 1 < u64_lim" "8 \<le> available (asset_of scn_bidding 1 ''sol'')"
    by code_simp+
  have "om_user_id ?msg = 1" "fill_status 5 8 = ''partially_filled''" "(8::nat) < u64_lim" "supported ''sol''"
    "om_time_in_force ?msg = Ioc"
    by (simp_all add: scn_msg_def fill_status_def u64_lim_def supported_def)
  then show ?thesis
    using market_sell_effect [OF scn_bidding_inv _ _ _ facts(1) run, of True "Some []" "''SOL_USD''"] facts(2) by simp
qed

section \<open>Cancelling\<close>

text \<open>
  C23. Cancelling an own order of any of the three books: the order disappears and nothing else moves in
  the book, the other books are untouched, its owner gets back exactly what the order still reserves
  (value and maker fee of a bid, the units of an ask), the totals are conserved, and the cancellation,
  the new depth and the reply are published in this order.
\<close>

theorem cancel_own_order:
  assumes "engine_inv st" and "supported a" and "own_order st msg a = Some x"
  shows "\<exists>st'. handle_cancel oc st pub msg = Some (st', cancel_reply pub msg a x (book_of st' a)) \<and> cancel_post st a x st'"
  using handle_cancel_own [OF assms] .

theorem cancel_own_order_witness:
  "\<exists>st'. handle_cancel True scn_open (Some []) scn_cancel =
      Some (st', cancel_reply (Some []) scn_cancel ''sol'' scn_resting (book_of st' ''sol'')) \<and>
    cancel_post scn_open ''sol'' scn_resting st'"
proof -
  have "own_order scn_open scn_cancel ''sol'' = Some scn_resting" by code_simp
  then show ?thesis using cancel_own_order [OF scn_open_inv, of "''sol''"] by (simp add: supported_def)
qed

text \<open>
  C24. Cancelling what is not one's own changes nothing: the reply is ``Not order owner'' when some book
  holds the order and ``Open order not found'' otherwise.
\<close>

theorem cancel_errors:
  assumes "\<forall>a. supported a \<longrightarrow> own_order st msg a = None"
  shows "handle_cancel oc st pub msg = Some (st, reply_cancel_error pub (cm_queue_id msg) (cm_identifier msg)
    (if \<exists>a. supported a \<and> get_order (book_of st a) (cm_order_id msg) \<noteq> None
     then ''Not order owner'' else ''Open order not found''))"
  using handle_cancel_none [of st msg oc pub] assms by simp

theorem cancel_errors_witness:
  "\<exists>e. handle_cancel True scn_open (Some []) (scn_cancel\<lparr>cm_user_id := 9\<rparr>) =
     Some (scn_open, reply_cancel_error (Some []) ''q'' ''id'' e) \<and> e = ''Not order owner''"
proof -
  have "own_order scn_open (scn_cancel\<lparr>cm_user_id := 9\<rparr>) a = None" if "supported a" for a
    using that unfolding supported_def by (elim disjE) (simp_all, code_simp+)
  moreover have "supported ''sol'' \<and> get_order (book_of scn_open ''sol'') 1 \<noteq> None" by code_simp
  then have "\<exists>a. supported a \<and> get_order (book_of scn_open a) 1 \<noteq> None" by blast
  moreover have "cm_order_id (scn_cancel\<lparr>cm_user_id := 9\<rparr>) = 1" "cm_queue_id (scn_cancel\<lparr>cm_user_id := 9\<rparr>) = ''q''"
    "cm_identifier (scn_cancel\<lparr>cm_user_id := 9\<rparr>) = ''id''" by (simp_all add: scn_cancel_def)
  ultimately show ?thesis
    using cancel_errors [of scn_open "scn_cancel\<lparr>cm_user_id := 9\<rparr>" True "Some []"] by simp
qed

section \<open>Rejected orders\<close>

text \<open>
  C25. Orders the handler refuses before it touches anything: an unsupported asset, a side other than bid
  and ask, a quantity that is not positive, a limit price that is not positive (in this order of
  precedence). The state is unchanged and the reply carries the message and status 400.
\<close>

theorem order_rejected:
  assumes "a = to_lowercase (om_asset msg)"
    and "reason = (if \<not> supported a then Some ''Supported assets are SOL, BTC, ETH''
      else if om_side msg \<notin> {''bid'', ''ask''} then Some ''side must be bid or ask''
      else if om_qty msg \<le> 0 then Some ''qty must be a positive number''
      else if om_order_type msg = Limit \<and> om_price msg \<le> 0 then Some ''price must be positive for limit orders''
      else None)"
    and "reason = Some e"
  shows "handle_order oc st pub msg = Some (st, reply_error pub (om_queue_id msg) (om_identifier msg) e 400)"
  using assms(2,3) unfolding assms(1)
  by (auto simp: handle_order_def parse_side_def handle_limit_def Let_def split: if_splits)

theorem order_rejected_witness:
  "handle_order True scn_open (Some []) (scn_buy\<lparr>om_asset := ''DOGE''\<rparr>) =
     Some (scn_open, reply_error (Some []) ''q'' ''id'' ''Supported assets are SOL, BTC, ETH'' 400)"
proof -
  have "\<not> supported (to_lowercase ''DOGE'')" by code_simp
  then show ?thesis
    using order_rejected [of "to_lowercase ''DOGE''" "scn_buy\<lparr>om_asset := ''DOGE''\<rparr>" _ _ True scn_open "Some []"]
    by (simp add: scn_buy_def scn_msg_def)
qed



section \<open>Funding and reset\<close>



section \<open>Replies\<close>

text \<open>
  C28. Every command is answered exactly once: whichever handler runs and whichever branch it takes, one
  reply is pushed, to the queue named in the message and with the identifier of the message; with no
  publisher (replay) nothing is sent; an unknown channel or a payload that does not decode changes
  nothing and sends nothing.
\<close>

theorem one_reply_per_command:
  assumes "dispatch_event oc dec st pub channel data = Some (st', pub')"
  shows "case command_address dec channel data of
      None \<Rightarrow> st' = st \<and> pub' = pub
    | Some (queue, identifier) \<Rightarrow> answers pub pub' queue identifier"
  by (rule dispatch_answers [OF assms])

theorem one_reply_per_command_witness:
  "command_address scn_decoders CH_ONRAMP ''o'' = Some (''q'', ''b'') \<and>
   (\<exists>st' pub'. dispatch_event True scn_decoders scn_open (Some []) CH_ONRAMP ''o'' = Some (st', pub') \<and>
     answers (Some []) pub' ''q'' ''b'')"
proof -
  have "map_option (\<lambda>_. True) (dispatch_event True scn_decoders scn_open (Some []) CH_ONRAMP ''o'') = Some True"
    and addr: "command_address scn_decoders CH_ONRAMP ''o'' = Some (''q'', ''b'')" by code_simp+
  then obtain st' pub' where "dispatch_event True scn_decoders scn_open (Some []) CH_ONRAMP ''o'' = Some (st', pub')"
    by auto
  with one_reply_per_command [OF this] addr show ?thesis by auto
qed

section \<open>The snapshot table\<close>

text \<open>
  C29. Saving a snapshot keeps the table bounded and current: at most three rows remain, the newest row
  holds the saved state and stream id, and loading gives both back, provided the codec of the state
  decodes what it encoded.
\<close>

theorem snapshot_save_load:
  assumes "table_ok t" and "save_snapshot to_value i st t = Some t'"
    and "\<And>s json. to_value s = Some json \<Longrightarrow> from_value json = Some s"
  shows "length (snapshot_rows t') \<le> 3 \<and> table_ok t' \<and> load_latest_snapshot from_value t' = Inr (Some (i, st))"
  using save_snapshot_ok [OF assms(1,2)] assms(3) by (auto simp: load_latest_snapshot_def)

theorem snapshot_save_load_witness:
  "\<exists>t'. save_snapshot Some ''1-2'' scn_open (empty_table :: engine_state snapshot_table) = Some t' \<and>
     length (snapshot_rows t') \<le> 3 \<and> load_latest_snapshot Some t' = Inr (Some (''1-2'', scn_open))"
proof -
  obtain t' where save: "save_snapshot Some ''1-2'' scn_open (empty_table :: engine_state snapshot_table) = Some t'"
    by (simp add: save_snapshot_def Let_def)
  from snapshot_save_load [OF table_ok_empty this, of Some] save show ?thesis by simp
qed

section \<open>Behaviour at the edge\<close>

text \<open>
  Overflow of \<^verbatim>\<open>price * qty\<close>, which the gateway does not exclude: for a bid of \<open>2^32\<close> units at
  \<open>2^32\<close> a debug build panics, and a release build wraps the cost to zero, so that a user without any
  funds gets the order onto the book with nothing locked. (The invariant above needs \<open>limit_fits\<close>.)
\<close>

theorem overflowing_order:
  "handle_order True scn_empty None (scn_msg 5 ''bid'' Limit (2 ^ 32) (2 ^ 32) Gtc) = None \<and>
   map_option (\<lambda>(st, _). (depth Bid (sol_orderbook st), usd_of st 5))
     (handle_order False scn_empty None (scn_msg 5 ''bid'' Limit (2 ^ 32) (2 ^ 32) Gtc)) =
     Some ([new_order 1 5 Bid (2 ^ 32) (2 ^ 32)], \<lparr>available = 0, locked = 0\<rparr>)"
  by (intro conjI; code_simp)

text \<open>
  Fee rounding: with a maker fee of 10 basis points, a bid of 10 units at 140 reserves a fee of 1,
  a fill of one half and the cancellation of the other half each account a fee of 0, and 1 USD stays
  locked although the user has no open order: the cover of the bids in the invariant is not an equality.
\<close>

theorem fee_dust_stays_locked:
  "map_option (\<lambda>st. (depth Bid (sol_orderbook st), usd_due st 2, locked (usd_of st 2)))
     (do { (st1, _) \<leftarrow> handle_order True scn_funded None (scn_msg 2 ''bid'' Limit 140 10 Gtc);
           (st2, _) \<leftarrow> handle_order True st1 None (scn_msg 1 ''ask'' Limit 140 5 Ioc);
           (st3, _) \<leftarrow> handle_cancel True st2 None (scn_cancel\<lparr>cm_user_id := 2\<rparr>);
           Some st3 }) = Some ([], 0, 1)"
  by code_simp

text \<open>
  A reset inside a batch: the record that follows it in the same batch is applied to the live state,
  but the stream and the snapshots are gone, so an engine restarted at that point, which finds the
  stream empty, has lost its effect. (This is why recovery is stated for batches without a reset.)
\<close>

theorem reset_loses_rest_of_batch:
  "map_option (\<lambda>p. (available (usd_of (ep_state p) 7),
       map_option (\<lambda>q. available (usd_of (ep_state q) 7))
         (start_engine True scn_decoders Some (\<lambda>_. Some []) scn_empty (Some []) (ep_db p) ''0-0'')))
     (process_batch True (scn_decoders\<lparr>dec_reset := \<lambda>_. Some \<lparr>rs_queue_id = ''q'', rs_identifier = ''r''\<rparr>\<rparr>) Some
       (\<lparr>sr_id = ''1-0'', sr_map = [(''channel'', Utf8 CH_RESET), (''data'', Utf8 '''')]\<rparr> # scn_stream) scn_proc) =
     Some (50, Some 0)"
  by code_simp

text \<open>
  Commands that were appended while the engine was down are replayed at start without a publisher: the
  state has their effect, but neither a reply nor an execution event is published, so their requests stay
  unanswered and the ledger never hears of them. The same records read by a running engine publish both.
\<close>

lemma start_publishes_nothing:
  assumes "start_engine oc dec from_value xrange st pub db last_id = Some p"
  shows "ep_pub p = pub"
  using assms by (auto simp: start_engine_def Let_def bind_Some_iff split: prod.splits option.splits if_splits)

lemma downtime_commands_unreported:
  "map_option (\<lambda>p. (available (usd_of (ep_state p) 7), ep_pub p))
     (start_engine True scn_decoders Some scn_xrange scn_empty (Some []) (Some empty_table) ''0-0'') = Some (50, Some []) \<and>
   map_option (\<lambda>p. (available (usd_of (ep_state p) 7), map_option length (ep_pub p)))
     (process_batch True scn_decoders Some scn_stream scn_proc) = Some (50, Some 3)"
  by code_simp

end
