(* ===== verification/Streams.thy ===== *)
theory Streams
  imports Engine
begin

text \<open>
  The streams of Redis as the readers see them: a list of records with distinct ids, of which a reader
  at some id gets what comes after it. A call of \<^verbatim>\<open>XREAD BLOCK\<close> ends with records, with nothing after its
  time limit, or with an error.
\<close>

text \<open>\<^verbatim>\<open>XREAD ... <id>\<close> returns records after the one with that id, oldest first.\<close>

definition records_after :: "string \<Rightarrow> stream_record list \<Rightarrow> stream_record list" where
  "records_after i rs = (if i = ''0-0'' then rs else tl (dropWhile (\<lambda>r. sr_id r \<noteq> i) rs))"

definition stream_ok :: "stream_record list \<Rightarrow> bool" where
  "stream_ok rs \<longleftrightarrow> distinct (map sr_id rs) \<and> ''0-0'' \<notin> sr_id ` set rs"

lemma records_after_split:
  assumes "stream_ok (xs @ r # ys)"
  shows "records_after (sr_id r) (xs @ r # ys) = ys"
proof -
  have "sr_id r \<noteq> ''0-0''" "\<forall>x \<in> set xs. sr_id x \<noteq> sr_id r"
    using assms by (auto simp: stream_ok_def image_iff)
  moreover from this(2) have "dropWhile (\<lambda>x. sr_id x \<noteq> sr_id r) (xs @ r # ys) = r # ys"
    by (induction xs) auto
  ultimately show ?thesis by (simp add: records_after_def)
qed

lemma records_after_start: "records_after ''0-0'' rs = rs"
  by (simp add: records_after_def)

datatype poll = Records "stream_record list" | Timeout | ReadError

fun poll_records :: "poll \<Rightarrow> stream_record list" where
  "poll_records (Records rs) = rs"
| "poll_records Timeout = []"
| "poll_records ReadError = []"

text \<open>What a reader at id \<open>i\<close> may get; \<open>count\<close> is the limit of the call, if it has one.\<close>

fun poll_of :: "nat option \<Rightarrow> string \<Rightarrow> stream_record list \<Rightarrow> poll \<Rightarrow> bool" where
  "poll_of count i stream (Records rs) \<longleftrightarrow>
     rs \<noteq> [] \<and> (\<exists>suf. records_after i stream = rs @ suf) \<and> (case count of None \<Rightarrow> True | Some n \<Rightarrow> length rs \<le> n)"
| "poll_of count i stream Timeout \<longleftrightarrow> True"
| "poll_of count i stream ReadError \<longleftrightarrow> True"

text \<open>A call that is served: up to \<open>count\<close> records if there are any, otherwise the time limit.\<close>

definition xread :: "nat \<Rightarrow> string \<Rightarrow> stream_record list \<Rightarrow> poll" where
  "xread count i stream = (case take count (records_after i stream) of [] \<Rightarrow> Timeout | r # rs \<Rightarrow> Records (r # rs))"

lemma xread_poll_of: "poll_of (Some count) i stream (xread count i stream)"
proof (cases "take count (records_after i stream)")
  case (Cons r rs)
  then have "records_after i stream = (r # rs) @ drop count (records_after i stream)" by (metis append_take_drop_id)
  moreover have "length (r # rs) \<le> count" using arg_cong [OF Cons, of length] by simp
  ultimately show ?thesis using Cons by (auto simp: xread_def)
qed (auto simp: xread_def)

end
