(* ===== verification/Ledger_Worker.thy ===== *)
theory Ledger_Worker
  imports Streams
begin

text \<open>
  The cold-path worker (\<^verbatim>\<open>rs-gateway/src/ledger/worker.rs\<close>): it reads the execution stream in batches and
  writes orders, trades and double-entry ledger postings to PostgreSQL, one transaction per batch,
  with the position in the stream in the same transaction.

  A database is a record of its tables (time stamps left out); the SQL statements of a transaction
  are taken to succeed, while its commit may fail. The JSON decoder of the events and the UUIDs of the
  funding references are arguments (one UUID per record id). \<open>None\<close> is a panic on 64-bit overflow, which
  ends the task before the commit.
\<close>

section \<open>Signed 64-bit integers and decimal numbers\<close>

text \<open>\<^verbatim>\<open>x as i64\<close> for an unsigned \<^verbatim>\<open>x\<close>, and the negation, which overflows at the least value only.\<close>

definition i64_of :: "nat \<Rightarrow> int" where
  "i64_of n = (if n < 2 ^ 63 then int n else int n - 2 ^ 64)"

definition i64_neg :: "bool \<Rightarrow> int \<Rightarrow> int option" where
  "i64_neg oc x = (if x = - (2 ^ 63) then (if oc then None else Some x) else Some (- x))"

definition show_digit :: "nat \<Rightarrow> char" where
  "show_digit d = char_of (48 + d)"

fun show_nat :: "nat \<Rightarrow> string" where
  "show_nat n = (if n < 10 then [show_digit n] else show_nat (n div 10) @ [show_digit (n mod 10)])"

declare show_nat.simps [simp del]

section \<open>The tables\<close>

record order_row =
  or_user_id :: int
  or_market :: string
  or_side :: string
  or_price :: int
  or_original_qty :: int
  or_remaining_qty :: int
  or_status :: string

record trade_row =
  tw_maker_order_id :: int
  tw_taker_order_id :: int
  tw_buyer_id :: int
  tw_seller_id :: int
  tw_market :: string
  tw_price :: int
  tw_qty :: int
  tw_quote_amount :: int

record ledger_entry =
  le_user_id :: int
  le_currency :: string
  le_amount :: int
  le_balance_type :: string
  le_operation_type :: string
  le_reference_id :: string

record ledger_db =
  db_orders :: "(int, order_row) hash_map"
  db_trades :: "trade_row list"
  db_ledger :: "ledger_entry list"
  db_checkpoint :: "string option"

definition post :: "ledger_entry list \<Rightarrow> ledger_db \<Rightarrow> ledger_db" where
  "post es db = db\<lparr>db_ledger := db_ledger db @ es\<rparr>"

section \<open>Events\<close>

text \<open>\<^verbatim>\<open>INSERT INTO orders ... ON CONFLICT (id) DO UPDATE SET remaining_qty, status\<close>\<close>

definition record_order :: "order_created \<Rightarrow> ledger_db \<Rightarrow> ledger_db" where
  "record_order ev db =
     (let k = i64_of (oc_order_id ev);
          row = (case hm_get (db_orders db) k of
            Some old \<Rightarrow> old\<lparr>or_remaining_qty := i64_of (oc_remaining_qty ev), or_status := oc_status ev\<rparr>
          | None \<Rightarrow> \<lparr>or_user_id = i64_of (oc_user_id ev), or_market = oc_market ev, or_side = oc_side ev,
                     or_price = i64_of (oc_price ev), or_original_qty = i64_of (oc_original_qty ev),
                     or_remaining_qty = i64_of (oc_remaining_qty ev), or_status = oc_status ev\<rparr>)
      in db\<lparr>db_orders := hm_insert k row (db_orders db)\<rparr>)"

text \<open>\<^verbatim>\<open>UPDATE orders SET remaining_qty, status WHERE id\<close>\<close>

definition update_order :: "nat \<Rightarrow> nat \<Rightarrow> string \<Rightarrow> ledger_db \<Rightarrow> ledger_db" where
  "update_order order_id remaining status db =
     (case hm_get (db_orders db) (i64_of order_id) of
        None \<Rightarrow> db
      | Some old \<Rightarrow> db\<lparr>db_orders := hm_insert (i64_of order_id)
          (old\<lparr>or_remaining_qty := i64_of remaining, or_status := status\<rparr>) (db_orders db)\<rparr>)"

definition base_currency :: "string \<Rightarrow> string" where
  "base_currency market = takeWhile (\<lambda>c. c \<noteq> CHR ''_'') market"

definition trade_ref :: "trade_executed \<Rightarrow> string" where
  "trade_ref te = show_nat (te_maker_order_id te) @ ''-'' @ show_nat (te_taker_order_id te)"

definition trade_entries :: "bool \<Rightarrow> trade_executed \<Rightarrow> ledger_entry list option" where
  "trade_entries oc te =
     do { let ref = trade_ref te;
          let base = base_currency (te_market te);
          let entry = (\<lambda>user cur amount bt op. \<lparr>le_user_id = user, le_currency = cur, le_amount = amount,
                 le_balance_type = bt, le_operation_type = op, le_reference_id = ref\<rparr>);
          cost \<leftarrow> u64_add oc (te_quote_amount te) (te_buyer_fee te);
          debit_usd \<leftarrow> i64_neg oc (i64_of cost);
          let buyer = [entry (i64_of (te_buyer_id te)) ''USD'' debit_usd ''locked'' ''trade_fill'',
                       entry (i64_of (te_buyer_id te)) base (i64_of (te_qty te)) ''available'' ''trade_fill''];
          let credit_usd = i64_of (saturating_sub (te_quote_amount te) (te_seller_fee te));
          debit_base \<leftarrow> i64_neg oc (i64_of (te_qty te));
          let seller = [entry (i64_of (te_seller_id te)) ''USD'' credit_usd ''available'' ''trade_fill'',
                        entry (i64_of (te_seller_id te)) base debit_base ''locked'' ''trade_fill''];
          fee \<leftarrow> u64_add oc (te_buyer_fee te) (te_seller_fee te);
          let treasury = (if i64_of fee > 0 then [entry 0 ''USD'' (i64_of fee) ''available'' ''fee_collection''] else []);
          Some (buyer @ seller @ treasury) }"

definition trade_row_of :: "trade_executed \<Rightarrow> trade_row" where
  "trade_row_of te = \<lparr>tw_maker_order_id = i64_of (te_maker_order_id te), tw_taker_order_id = i64_of (te_taker_order_id te),
     tw_buyer_id = i64_of (te_buyer_id te), tw_seller_id = i64_of (te_seller_id te), tw_market = te_market te,
     tw_price = i64_of (te_price te), tw_qty = i64_of (te_qty te), tw_quote_amount = i64_of (te_quote_amount te)\<rparr>"

definition funding_entries :: "bool \<Rightarrow> string \<Rightarrow> nat \<Rightarrow> string \<Rightarrow> nat \<Rightarrow> string \<Rightarrow> ledger_entry list option" where
  "funding_entries oc uuid user currency amount op =
     do { let ref = op @ ''_'' @ uuid;
          back \<leftarrow> i64_neg oc (i64_of amount);
          Some [\<lparr>le_user_id = i64_of user, le_currency = currency, le_amount = i64_of amount,
                 le_balance_type = ''available'', le_operation_type = op, le_reference_id = ref\<rparr>,
                \<lparr>le_user_id = 0, le_currency = currency, le_amount = back,
                 le_balance_type = ''clearing'', le_operation_type = op, le_reference_id = ref\<rparr>] }"

fun apply_event :: "bool \<Rightarrow> string \<Rightarrow> execution_event \<Rightarrow> ledger_db \<Rightarrow> ledger_db option" where
  "apply_event oc uuid (OrderCreated ev) db = Some (record_order ev db)"
| "apply_event oc uuid (TradeExecuted te) db =
     do { let db1 = db\<lparr>db_trades := db_trades db @ [trade_row_of te]\<rparr>;
          let db2 = update_order (te_maker_order_id te) (te_maker_remaining_qty te)
                (if te_maker_remaining_qty te = 0 then ''filled'' else ''partially_filled'') db1;
          es \<leftarrow> trade_entries oc te;
          Some (post es db2) }"
| "apply_event oc uuid (OrderCancelled order_id user_id remaining) db =
     Some (update_order order_id remaining ''cancelled'' db)"
| "apply_event oc uuid (FundingExecuted user currency amount op) db =
     do { es \<leftarrow> funding_entries oc uuid user currency amount op; Some (post es db) }"
| "apply_event oc uuid (DepthUpdated market bs as) db = Some db"

section \<open>Batches\<close>

text \<open>The event of a record; \<open>None\<close> is the \<^verbatim>\<open>continue\<close> for a record without data or with data that does not decode.\<close>

definition exec_event_of :: "(string \<Rightarrow> execution_event option) \<Rightarrow> stream_record \<Rightarrow> execution_event option" where
  "exec_event_of dec r = (case hm_get (sr_map r) ''data'' of None \<Rightarrow> None | Some v \<Rightarrow> dec (from_redis_value v))"

fun exec_records ::
  "bool \<Rightarrow> (string \<Rightarrow> execution_event option) \<Rightarrow> (string \<Rightarrow> string) \<Rightarrow> stream_record list \<Rightarrow> ledger_db \<times> string
     \<Rightarrow> (ledger_db \<times> string) option" where
  "exec_records oc dec uuids [] acc = Some acc"
| "exec_records oc dec uuids (r # rs) acc =
     (case exec_event_of dec r of
        None \<Rightarrow> exec_records oc dec uuids rs (fst acc, sr_id r)
      | Some ev \<Rightarrow>
          do { db' \<leftarrow> apply_event oc (uuids (sr_id r)) ev (fst acc);
               exec_records oc dec uuids rs (db', sr_id r) })"

record worker =
  wk_db :: ledger_db
  wk_last_id :: string

text \<open>Start: the checkpoint of the database, or \<^verbatim>\<open>0-0\<close> when the row cannot be read.\<close>

definition worker_start :: "ledger_db \<Rightarrow> worker" where
  "worker_start db = \<lparr>wk_db = db, wk_last_id = (case db_checkpoint db of None \<Rightarrow> ''0-0'' | Some i \<Rightarrow> i)\<rparr>"

text \<open>One batch that \<^verbatim>\<open>XREAD\<close> returned; \<open>committed\<close> is the result of the commit.\<close>

definition worker_batch ::
  "bool \<Rightarrow> (string \<Rightarrow> execution_event option) \<Rightarrow> (string \<Rightarrow> string) \<Rightarrow> bool \<Rightarrow> stream_record list \<Rightarrow> worker \<Rightarrow> worker option" where
  "worker_batch oc dec uuids committed rs w =
     (if rs = [] then Some w
      else do { (db, batch_last_id) \<leftarrow> exec_records oc dec uuids rs (wk_db w, wk_last_id w);
                let db' = db\<lparr>db_checkpoint := map_option (\<lambda>_. batch_last_id) (db_checkpoint db)\<rparr>;
                Some (if committed then \<lparr>wk_db = db', wk_last_id = batch_last_id\<rparr> else w) })"

section \<open>The loop\<close>

text \<open>What one turn of the loop meets: the read, whether a transaction could be opened, and whether it was committed.\<close>

record worker_turn =
  wt_read :: poll
  wt_begun :: bool
  wt_committed :: bool

definition turn :: "bool \<Rightarrow> (string \<Rightarrow> execution_event option) \<Rightarrow> (string \<Rightarrow> string) \<Rightarrow> worker_turn \<Rightarrow> worker \<Rightarrow> worker option" where
  "turn oc dec uuids x w =
     (case wt_read x of
        ReadError \<Rightarrow> Some w
      | Timeout \<Rightarrow> Some w
      | Records rs \<Rightarrow> if wt_begun x then worker_batch oc dec uuids (wt_committed x) rs w else Some w)"

fun worker_loop :: "bool \<Rightarrow> (string \<Rightarrow> execution_event option) \<Rightarrow> (string \<Rightarrow> string) \<Rightarrow> worker_turn list \<Rightarrow> worker \<Rightarrow> worker option" where
  "worker_loop oc dec uuids [] w = Some w"
| "worker_loop oc dec uuids (x # xs) w = do { w' \<leftarrow> turn oc dec uuids x w; worker_loop oc dec uuids xs w' }"

text \<open>
  The task: it ends at once without a connection to Redis, and starts at \<^verbatim>\<open>0-0\<close> when the checkpoint cannot be
  read (\<open>selected\<close> is whether the query succeeded). The result is the database after the turns.
\<close>

definition run_worker ::
  "bool \<Rightarrow> (string \<Rightarrow> execution_event option) \<Rightarrow> (string \<Rightarrow> string) \<Rightarrow> bool \<Rightarrow> bool \<Rightarrow> worker_turn list \<Rightarrow> ledger_db \<Rightarrow> ledger_db option" where
  "run_worker oc dec uuids redis_up selected xs db =
     (if \<not> redis_up then Some db
      else map_option wk_db (worker_loop oc dec uuids xs
        (if selected then worker_start db else \<lparr>wk_db = db, wk_last_id = ''0-0''\<rparr>)))"

end
