(* ===== verification/Ledger_Postings.thy ===== *)
theory Ledger_Postings
  imports Ledger_Worker Settlement
begin

text \<open>
  What the postings of the cold-path worker add up to: for amounts below \<open>2 ^ 63\<close> every event is applied
  without an overflow, and what it posts balances in every currency.
\<close>

definition ledger_total :: "string \<Rightarrow> ledger_entry list \<Rightarrow> int" where
  "ledger_total cur es = sum_list (map (\<lambda>e. if le_currency e = cur then le_amount e else 0) es)"

definition posted :: "nat \<Rightarrow> string \<Rightarrow> string \<Rightarrow> ledger_entry list \<Rightarrow> int" where
  "posted u cur bt es = sum_list (map (\<lambda>e. if le_user_id e = int u \<and> le_currency e = cur \<and> le_balance_type e = bt
     then le_amount e else 0) es)"

lemma posted_simps [simp]: "posted u cur bt [] = 0" "posted u cur bt (xs @ ys) = posted u cur bt xs + posted u cur bt ys"
  "ledger_total cur [] = 0" "ledger_total cur (xs @ ys) = ledger_total cur xs + ledger_total cur ys"
  by (simp_all add: posted_def ledger_total_def)

section \<open>Amounts in range\<close>

definition i63 :: nat where
  "i63 = 9223372036854775808"

lemma i64_of_ok: "n < i63 \<Longrightarrow> i64_of n = int n"
  by (simp add: i64_of_def i63_def)

lemma i64_neg_ok: "n < i63 \<Longrightarrow> i64_neg oc (int n) = Some (- int n)"
  by (auto simp: i64_neg_def i63_def)

lemma i63_u64: "n < i63 \<Longrightarrow> n < u64_lim"
  by (simp add: i63_def u64_lim_def)

fun event_in_range :: "execution_event \<Rightarrow> bool" where
  "event_in_range (TradeExecuted te) \<longleftrightarrow> te_quote_amount te + te_buyer_fee te < i63 \<and> te_seller_fee te \<le> te_quote_amount te \<and>
     te_buyer_fee te + te_seller_fee te < i63 \<and> te_qty te < i63"
| "event_in_range (FundingExecuted user currency amount op) \<longleftrightarrow> amount < i63"
| "event_in_range _ \<longleftrightarrow> True"

lemma trade_entries_ok:
  assumes "event_in_range (TradeExecuted te)"
  shows "trade_entries oc te = Some
    (let entry = (\<lambda>user cur amount bt op. \<lparr>le_user_id = user, le_currency = cur, le_amount = amount,
       le_balance_type = bt, le_operation_type = op, le_reference_id = trade_ref te\<rparr>);
         buyer = i64_of (te_buyer_id te); seller = i64_of (te_seller_id te); base = base_currency (te_market te);
         fee = te_buyer_fee te + te_seller_fee te in
     [entry buyer ''USD'' (- int (te_quote_amount te + te_buyer_fee te)) ''locked'' ''trade_fill'',
      entry buyer base (int (te_qty te)) ''available'' ''trade_fill'',
      entry seller ''USD'' (int (te_quote_amount te - te_seller_fee te)) ''available'' ''trade_fill'',
      entry seller base (- int (te_qty te)) ''locked'' ''trade_fill''] @
     (if fee > 0 then [entry 0 ''USD'' (int fee) ''available'' ''fee_collection''] else []))"
proof -
  have le: "te_quote_amount te - te_seller_fee te < i63" using assms by auto
  have sums: "u64_add oc (te_quote_amount te) (te_buyer_fee te) = Some (te_quote_amount te + te_buyer_fee te)"
    "u64_add oc (te_buyer_fee te) (te_seller_fee te) = Some (te_buyer_fee te + te_seller_fee te)"
    using assms i63_u64 by (auto intro!: u64_add_ok)
  show ?thesis
    unfolding trade_entries_def sums using assms le
    by (simp add: i64_of_ok [of "te_quote_amount te + te_buyer_fee te"] i64_of_ok [OF le] i64_of_ok [of "te_qty te"]
        i64_of_ok [of "te_buyer_fee te + te_seller_fee te"] i64_neg_ok saturating_sub_def Let_def del: of_nat_add of_nat_diff)
qed

lemma funding_entries_ok:
  assumes "amount < i63"
  shows "funding_entries oc uuid user currency amount op = Some
    [\<lparr>le_user_id = i64_of user, le_currency = currency, le_amount = int amount, le_balance_type = ''available'',
      le_operation_type = op, le_reference_id = op @ ''_'' @ uuid\<rparr>,
     \<lparr>le_user_id = 0, le_currency = currency, le_amount = - int amount, le_balance_type = ''clearing'',
      le_operation_type = op, le_reference_id = op @ ''_'' @ uuid\<rparr>]"
  by (simp add: funding_entries_def Let_def i64_of_ok [OF assms] i64_neg_ok [OF assms])

lemma update_order_frame [simp]:
  "db_ledger (update_order i r s db) = db_ledger db" "db_checkpoint (update_order i r s db) = db_checkpoint db"
  by (simp_all add: update_order_def split: option.splits)

lemma record_order_frame [simp]:
  "db_ledger (record_order ev db) = db_ledger db" "db_checkpoint (record_order ev db) = db_checkpoint db"
  by (simp_all add: record_order_def Let_def)

text \<open>Every event whose amounts are in range is applied, and what it posts sums to zero in every currency.\<close>

lemma apply_event_balanced:
  assumes "event_in_range ev"
  shows "\<exists>db'. apply_event oc uuid ev db = Some db' \<and> ledger_total cur (db_ledger db') = ledger_total cur (db_ledger db) \<and>
    db_checkpoint db' = db_checkpoint db"
proof (cases ev)
  case (TradeExecuted te)
  then show ?thesis
    using assms trade_entries_ok [of te oc]
    by (auto simp: post_def ledger_total_def Let_def)
next
  case (FundingExecuted user currency amount op)
  then show ?thesis
    using assms by (simp add: funding_entries_ok post_def ledger_total_def)
qed simp_all

lemma exec_records_balanced:
  assumes "\<forall>r \<in> set rs. \<forall>ev. exec_event_of dec r = Some ev \<longrightarrow> event_in_range ev"
  shows "\<exists>db' i. exec_records oc dec uuids rs (db, j) = Some (db', i) \<and>
    ledger_total cur (db_ledger db') = ledger_total cur (db_ledger db) \<and> db_checkpoint db' = db_checkpoint db"
  using assms
proof (induction rs arbitrary: db j)
  case (Cons r rs)
  show ?case
  proof (cases "exec_event_of dec r")
    case None
    then show ?thesis using Cons by simp
  next
    case (Some ev)
    obtain db1 where "apply_event oc (uuids (sr_id r)) ev db = Some db1"
      and "ledger_total cur (db_ledger db1) = ledger_total cur (db_ledger db)" "db_checkpoint db1 = db_checkpoint db"
      using apply_event_balanced [of ev oc "uuids (sr_id r)" db cur] Cons.prems Some by auto
    with Cons.IH [of db1 "sr_id r"] Cons.prems Some show ?thesis by simp
  qed
qed simp

end
