(* ===== verification/Ledger_Reconcile.thy ===== *)
theory Ledger_Reconcile
  imports Ledger_Postings Engine_Run
begin

text \<open>
  The hot path and the cold path agree. The engine keeps balances in memory and reports what happens
  on the execution stream; the worker turns the stream into ledger entries. Here the two are put
  together: whatever sequence of commands the engine processed, the ledger that the worker writes from
  the reported events sums up, for every user and currency, to what the engine says the user owns.
\<close>

section \<open>What an event is worth to a user\<close>

text \<open>What the ledger says a user owns: the postings to the available and to the locked balance.\<close>

definition owned :: "nat \<Rightarrow> string \<Rightarrow> ledger_entry list \<Rightarrow> int" where
  "owned u cur es = posted u cur ''available'' es + posted u cur ''locked'' es"

lemma owned_simps [simp]: "owned u cur [] = 0" "owned u cur (xs @ ys) = owned u cur xs + owned u cur ys"
  by (simp_all add: owned_def)

fun event_delta :: "nat \<Rightarrow> string \<Rightarrow> execution_event \<Rightarrow> int" where
  "event_delta u cur (TradeExecuted te) =
     (if te_buyer_id te = u
      then (if cur = base_currency (te_market te) then int (te_qty te) else 0) -
           (if cur = ''USD'' then int (te_quote_amount te + te_buyer_fee te) else 0) else 0) +
     (if te_seller_id te = u
      then (if cur = ''USD'' then int (te_quote_amount te - te_seller_fee te) else 0) -
           (if cur = base_currency (te_market te) then int (te_qty te) else 0) else 0) +
     (if u = 0 \<and> cur = ''USD'' then int (te_buyer_fee te + te_seller_fee te) else 0)"
| "event_delta u cur (FundingExecuted user currency amount op) = (if user = u \<and> currency = cur then int amount else 0)"
| "event_delta u cur _ = 0"

definition delta :: "nat \<Rightarrow> string \<Rightarrow> execution_event list \<Rightarrow> int" where
  "delta u cur evs = sum_list (map (event_delta u cur) evs)"

lemma delta_simps [simp]: "delta u cur [] = 0" "delta u cur (ev # evs) = event_delta u cur ev + delta u cur evs"
  "delta u cur (xs @ ys) = delta u cur xs + delta u cur ys"
  by (simp_all add: delta_def)

lemma delta_no_money: "no_money evs \<Longrightarrow> delta u cur evs = 0"
  by (induction evs) (auto simp: no_money_def split: execution_event.splits)

text \<open>Events whose amounts and user ids survive the conversion to \<^verbatim>\<open>i64\<close>.\<close>

fun event_ok :: "execution_event \<Rightarrow> bool" where
  "event_ok (TradeExecuted te) \<longleftrightarrow> event_in_range (TradeExecuted te) \<and> te_buyer_id te < i63 \<and> te_seller_id te < i63"
| "event_ok (FundingExecuted user currency amount op) \<longleftrightarrow> amount < i63 \<and> user < i63"
| "event_ok _ \<longleftrightarrow> True"

lemma event_ok_range: "event_ok ev \<Longrightarrow> event_in_range ev"
  by (cases ev) simp_all

lemma no_money_ok: "no_money evs \<Longrightarrow> ev \<in> set evs \<Longrightarrow> event_ok ev"
  by (cases ev) (auto simp: no_money_def)

lemma apply_event_owned:
  assumes "event_ok ev"
  shows "\<exists>db'. apply_event oc uuid ev db = Some db' \<and>
    (\<forall>u cur. owned u cur (db_ledger db') = owned u cur (db_ledger db) + event_delta u cur ev)"
proof (cases ev)
  case (TradeExecuted te)
  then have "event_in_range (TradeExecuted te)" and ids: "i64_of (te_buyer_id te) = int (te_buyer_id te)"
    "i64_of (te_seller_id te) = int (te_seller_id te)" using assms by (simp_all add: i64_of_ok)
  note entries = trade_entries_ok [OF this(1), of oc]
  show ?thesis
    unfolding TradeExecuted apply_event.simps entries
    by (auto simp: ids post_def Let_def owned_def posted_def)
next
  case (FundingExecuted user currency amount op)
  then show ?thesis
    using assms by (auto simp: funding_entries_ok i64_of_ok post_def owned_def posted_def)
qed (simp_all add: owned_def)

lemma exec_records_owned:
  assumes "\<forall>ev \<in> set (List.map_filter (exec_event_of dec) rs). event_ok ev"
  shows "\<exists>db' i. exec_records oc dec uuids rs (db, j) = Some (db', i) \<and>
    (\<forall>u cur. owned u cur (db_ledger db') = owned u cur (db_ledger db) + delta u cur (List.map_filter (exec_event_of dec) rs)) \<and>
    (rs \<noteq> [] \<longrightarrow> i = sr_id (last rs))"
  using assms
proof (induction rs arbitrary: db j)
  case (Cons r rs)
  show ?case
  proof (cases "exec_event_of dec r")
    case None
    then show ?thesis using Cons.IH [of db "sr_id r"] Cons.prems by (auto simp: map_filter_simps split: if_splits)
  next
    case (Some ev)
    obtain db1 where "apply_event oc (uuids (sr_id r)) ev db = Some db1"
      and "\<forall>u cur. owned u cur (db_ledger db1) = owned u cur (db_ledger db) + event_delta u cur ev"
      using apply_event_owned [of ev oc "uuids (sr_id r)" db] Cons.prems Some by (auto simp: map_filter_simps)
    with Cons.IH [of db1 "sr_id r"] Cons.prems Some show ?thesis
      by (auto simp: map_filter_simps algebra_simps split: if_splits)
  qed
qed (simp add: map_filter_simps)

section \<open>What the engine reports is what it does\<close>

definition money_flow :: "engine_state \<Rightarrow> execution_event list \<Rightarrow> engine_state \<Rightarrow> bool" where
  "money_flow st evs st' \<longleftrightarrow>
     (\<forall>u. int (funds (usd_of st' u)) = int (funds (usd_of st u)) + delta u ''USD'' evs) \<and>
     (\<forall>u a. supported a \<longrightarrow> int (funds (asset_of st' u a)) = int (funds (asset_of st u a)) + delta u (to_uppercase a) evs)"

lemma base_currency_market: "supported a \<Longrightarrow> base_currency (market_of a) = to_uppercase a"
  unfolding supported_def by (elim disjE) (hypsubst, code_simp)+

lemma currencies_apart:
  "supported a \<Longrightarrow> to_uppercase a \<noteq> ''USD''"
  "supported a \<Longrightarrow> supported a' \<Longrightarrow> to_uppercase a = to_uppercase a' \<longleftrightarrow> a = a'"
proof -
  have "to_uppercase ''sol'' = ''SOL''" "to_uppercase ''btc'' = ''BTC''" "to_uppercase ''eth'' = ''ETH''" by code_simp+
  then show "supported a \<Longrightarrow> to_uppercase a \<noteq> ''USD''"
    "supported a \<Longrightarrow> supported a' \<Longrightarrow> to_uppercase a = to_uppercase a' \<longleftrightarrow> a = a'"
    by (auto simp: supported_def)
qed

lemma run_events_delta:
  assumes a: "supported a" and fs: "fs = es_fee_schedule st"
  shows "delta u ''USD'' (run_events st a (market_of a) ts) = int (usd_credit fs ts u) - int (usd_debit fs ts u)"
    and "delta u (to_uppercase a) (run_events st a (market_of a) ts) = int (asset_credit ts u) - int (asset_debit ts u)"
    and "supported a' \<Longrightarrow> a' \<noteq> a \<Longrightarrow> delta u (to_uppercase a') (run_events st a (market_of a) ts) = 0"
proof -
  note cur = base_currency_market [OF a] currencies_apart(1) [OF a] currencies_apart(1) [OF a, symmetric]
  show "delta u ''USD'' (run_events st a (market_of a) ts) = int (usd_credit fs ts u) - int (usd_debit fs ts u)"
    by (induction ts) (simp_all add: run_events_def trade_event_def fs effect_defs cur)
  show "delta u (to_uppercase a) (run_events st a (market_of a) ts) = int (asset_credit ts u) - int (asset_debit ts u)"
    by (induction ts) (simp_all add: run_events_def trade_event_def fs effect_defs cur)
  show "delta u (to_uppercase a') (run_events st a (market_of a) ts) = 0" if "supported a'" "a' \<noteq> a"
    using that currencies_apart a by (induction ts) (simp_all add: run_events_def trade_event_def cur)
qed

lemma order_flow:
  assumes a: "supported a" and post: "order_post st a uid s price fl os' r st'" and rest: "no_money evs"
  shows "money_flow st (fill_events st uid st' a (market_of a) s fl @ evs) st'"
proof -
  define fs ts where "fs = es_fee_schedule st"
    and "ts = map (fill_trade \<lparr>tk_order_id = next_order_id st, tk_user_id = uid, tk_side = s\<rparr>) fl"
  have fees: "es_fee_schedule st' = fs" and after: "funds_after fs a ts st st'"
    using post by (simp_all add: order_post_def balances_after_def Let_def fs_def ts_def)
  note d = run_events_delta [OF a fees [symmetric], where ts = ts]
  have "int (funds (asset_of st' u a')) = int (funds (asset_of st u a')) + delta u (to_uppercase a') (run_events st' a (market_of a) ts)"
    if "supported a'" for u a'
  proof (cases "a' = a")
    case True
    have "funds (asset_of st' u a) + asset_debit ts u = funds (asset_of st u a) + asset_credit ts u"
      using after by (simp add: funds_after_def)
    then show ?thesis unfolding True d by linarith
  next
    case False
    then show ?thesis using after d(3) [OF that] by (simp add: funds_after_def)
  qed
  moreover have "int (funds (usd_of st' u)) = int (funds (usd_of st u)) + delta u ''USD'' (run_events st' a (market_of a) ts)" for u
  proof -
    have "funds (usd_of st' u) + usd_debit fs ts u = funds (usd_of st u) + usd_credit fs ts u"
      using after by (simp add: funds_after_def)
    then show ?thesis unfolding d by linarith
  qed
  ultimately show ?thesis
    using rest by (simp add: money_flow_def fill_events_def ts_def delta_no_money)
qed

lemma still_flow: "no_money evs \<Longrightarrow> same_funds st st' \<Longrightarrow> money_flow st evs st'"
  by (simp add: money_flow_def same_funds_def delta_no_money)

section \<open>Amounts and user ids in range\<close>

text \<open>Only users whose ids fit into \<^verbatim>\<open>BIGINT\<close> own anything.\<close>

definition small_users :: "engine_state \<Rightarrow> bool" where
  "small_users st \<longleftrightarrow> (\<forall>u \<ge> i63. funds (usd_of st u) = 0 \<and> (\<forall>a. supported a \<longrightarrow> funds (asset_of st u a) = 0))"

definition small_money :: "engine_state \<Rightarrow> bool" where
  "small_money st \<longleftrightarrow> usd_total st < i63 \<and> (\<forall>a. supported a \<longrightarrow> asset_total a st < i63)"

lemma small_delta: "event_ok ev \<Longrightarrow> i63 \<le> u \<Longrightarrow> event_delta u cur ev = 0"
  by (cases ev) (auto simp: i63_def)

lemma small_users_flow:
  assumes "small_users st" and "money_flow st evs st'" and "\<forall>ev \<in> set evs. event_ok ev"
  shows "small_users st'"
proof -
  have "delta u cur evs = 0" if "i63 \<le> u" for u cur
    using assms(3) small_delta [OF _ that] by (induction evs) auto
  then have "int (funds (usd_of st' u)) = int (funds (usd_of st u))"
    "supported a \<Longrightarrow> int (funds (asset_of st' u a)) = int (funds (asset_of st u a))" if "i63 \<le> u" for u a
    using assms(2) that unfolding money_flow_def by (metis add.right_neutral)+
  with assms(1) show ?thesis by (simp add: small_users_def)
qed

lemma trade_event_ok:
  assumes fees: "fees_ok fs" and pos: "0 < trade_value t" "0 < tr_qty t"
    and debits: "trade_value t + buyer_fee fs t \<le> funds (usd_of st (tr_buyer t))" "tr_qty t \<le> funds (asset_of st (tr_seller t) a)"
    and wf: "ledger_wf st" and small: "small_users st" "small_money st" and a: "supported a"
  shows "event_ok (trade_event fs market rem t)"
proof -
  have "trade_value t + buyer_fee fs t < i63" "tr_qty t < i63"
    using debits usd.total_ge [OF wf, of "tr_buyer t"] asset.total_ge [OF wf, of "tr_seller t" a] small(2) a
    by (auto simp: small_money_def)
  moreover have "funds (usd_of st (tr_buyer t)) \<noteq> 0" "funds (asset_of st (tr_seller t) a) \<noteq> 0"
    using debits pos by linarith+
  then have "tr_buyer t < i63" "tr_seller t < i63"
    using small(1) a unfolding small_users_def by (meson not_le)+
  ultimately show ?thesis
    using seller_fee_le [OF fees, of t] by (simp add: trade_event_def)
qed

lemma fill_events_ok:
  assumes inv: "engine_inv st" and a: "supported a" and post: "order_post st a uid s price fl os' r st'" and pos: "fills_pos fl"
    and small: "small_users st" "small_money st" and ev: "ev \<in> set (fill_events st uid st' a market s fl)"
  shows "event_ok ev"
proof -
  define fs ts where "fs = es_fee_schedule st"
    and "ts = map (fill_trade \<lparr>tk_order_id = next_order_id st, tk_user_id = uid, tk_side = s\<rparr>) fl"
  have fees: "es_fee_schedule st' = fs" and after: "funds_after fs a ts st st'"
    using post by (simp_all add: order_post_def balances_after_def Let_def fs_def ts_def)
  have wf: "ledger_wf st" and ok: "fees_ok fs" using inv by (simp_all add: engine_inv_def engine_sound_def fs_def)
  obtain t where t: "t \<in> set ts" and e: "ev = trade_event fs market (maker_remaining st' a (tr_maker_order_id t)) t"
    using ev unfolding fill_events_def run_events_def fees ts_def [symmetric] by auto
  have "0 < trade_value t" "0 < tr_qty t"
    using t pos by (auto simp: ts_def fills_pos_def fill_trade_def make_trade_def trade_value_def split: side.splits)
  moreover have "trade_value t + buyer_fee fs t \<le> usd_debit fs ts (tr_buyer t)" "tr_qty t \<le> asset_debit ts (tr_seller t)"
    using sum_of_le_member [OF t, of "\<lambda>x. if tr_buyer x = tr_buyer t then trade_value x + buyer_fee fs x else 0"]
      sum_of_le_member [OF t, of "\<lambda>x. if tr_seller x = tr_seller t then tr_qty x else 0"] by (simp_all add: effect_defs)
  then have "trade_value t + buyer_fee fs t \<le> funds (usd_of st (tr_buyer t))" "tr_qty t \<le> funds (asset_of st (tr_seller t) a)"
    using after unfolding funds_after_def by (meson order_trans)+
  ultimately show ?thesis
    unfolding e by (intro trade_event_ok [OF ok _ _ _ _ wf small a])
qed

section \<open>Every command\<close>

text \<open>
  What the gateway sees to before it sends a command: user ids come from a \<^verbatim>\<open>BIGSERIAL\<close> column, and
  only the three assets are deposited, under their lower-case names. A reset, which empties the
  engine, is not part of the accounting.
\<close>

definition command_ok :: "decoders \<Rightarrow> string \<Rightarrow> string \<Rightarrow> bool" where
  "command_ok dec channel data \<longleftrightarrow> channel \<noteq> CH_RESET \<and>
     (channel = CH_ONRAMP \<longrightarrow> (case dec_onramp dec data of None \<Rightarrow> True | Some m \<Rightarrow> on_user_id m < i63)) \<and>
     (channel = CH_DEPOSIT \<longrightarrow> (case dec_deposit dec data of None \<Rightarrow> True
        | Some m \<Rightarrow> dp_user_id m < i63 \<and> supported (dp_symbol m)))"

definition reports :: "engine_state \<Rightarrow> publisher \<Rightarrow> (engine_state \<times> publisher) option \<Rightarrow> bool" where
  "reports st pub result \<longleftrightarrow> (\<exists>st' pub' evs. result = Some (st', pub') \<and> engine_inv st' \<and> sends pub evs pub' \<and>
     money_flow st evs st' \<and> (small_users st \<longrightarrow> small_money st' \<longrightarrow> (\<forall>ev \<in> set evs. event_ok ev)))"

lemma reports_still:
  assumes "engine_inv st'" and "same_funds st st'" and "sends pub evs pub'" and "no_money evs"
  shows "reports st pub (Some (st', pub'))"
  unfolding reports_def using assms still_flow [OF assms(4,2)] no_money_ok [OF assms(4)] by blast

lemma reports_if: "(c \<Longrightarrow> reports st pub x) \<Longrightarrow> (\<not> c \<Longrightarrow> reports st pub y) \<Longrightarrow> reports st pub (if c then x else y)"
  by simp

lemma reports_msg:
  "engine_inv st \<Longrightarrow> (\<And>m. d = Some m \<Longrightarrow> reports st pub (h m)) \<Longrightarrow> reports st pub (on_msg d st pub h)"
  by (cases d) (simp_all add: on_msg_def reports_still [OF _ same_funds_refl sends_refl no_money_simps(1)])

lemma order_reports:
  assumes inv: "engine_inv st" and fits: "msg_fits st msg"
  shows "reports st pub (handle_order oc st pub msg)"
proof -
  let ?a = "to_lowercase (om_asset msg)" and ?u = "om_user_id msg"
  obtain st' pub' where run: "handle_order oc st pub msg = Some (st', pub')"
    and handled: "order_handled st pub ?u ?a st' pub'" and safe: "safe_step st st'"
    using handle_order_handled [OF inv fits, of oc pub] by blast
  have inv': "engine_inv st'" and total: "conserves st st'" using safe by (simp_all add: safe_step_def)
  then have money: "small_money st' \<Longrightarrow> small_money st" by (simp add: small_money_def conserves_def)
  from handled obtain evs where evs: "sends pub evs pub'" and kind: "idle_step st st' \<and> no_money evs \<or>
      (\<exists>s price fl os' r rest. supported ?a \<and> order_post st ?a ?u s price fl os' r st' \<and> fills_pos fl \<and>
         evs = fill_events st ?u st' ?a (market_of ?a) s fl @ rest \<and> no_money rest)"
    unfolding order_handled_def by blast
  from kind have "money_flow st evs st' \<and> (small_users st \<longrightarrow> small_money st' \<longrightarrow> (\<forall>ev \<in> set evs. event_ok ev))"
  proof (elim disjE exE conjE)
    assume idle: "idle_step st st'" "no_money evs"
    then have "same_funds st st'" by (simp add: idle_step_def same_funds_def)
    with idle(2) show ?thesis using still_flow no_money_ok by blast
  next
    fix s price fl os' r rest
    assume a: "supported ?a" and post: "order_post st ?a ?u s price fl os' r st'" and pos: "fills_pos fl"
      and e: "evs = fill_events st ?u st' ?a (market_of ?a) s fl @ rest" and rest: "no_money rest"
    show ?thesis
      unfolding e using order_flow [OF a post rest] fill_events_ok [OF inv a post pos _ money] no_money_ok [OF rest] by auto
  qed
  with run inv' evs show ?thesis unfolding reports_def by blast
qed

lemma cancel_reports:
  assumes inv: "engine_inv st"
  shows "reports st pub (handle_cancel oc st pub msg)"
proof (cases "\<exists>a x. supported a \<and> own_order st msg a = Some x")
  case True
  then obtain a x st' where run: "handle_cancel oc st pub msg = Some (st', cancel_reply pub msg a x (book_of st' a))"
    and post: "cancel_post st a x st'" using handle_cancel_own [OF inv] by blast
  have inv': "engine_inv st'" and same: "same_funds st st'" using post by (simp_all add: cancel_post_def safe_step_def)
  show ?thesis
    unfolding run cancel_reply_def
    by (rule reports_still [OF inv' same sends_reply [OF sends_emit(1)]]) (simp add: no_money_def)
next
  case False
  then show ?thesis
    using handle_cancel_none [of st msg oc pub]
    by (auto simp: reply_cancel_error_def intro!: reports_still [OF inv] sends_reply sends_refl)
qed

lemma credit_funds:
  "funds (usd_of (usd.credit u x st) v) = funds (usd_of st v) + (if v = u then x else 0)"
  "funds (asset_of (usd.credit u x st) v a) = funds (asset_of st v a)"
  "funds (usd_of (asset.credit b u x st) v) = funds (usd_of st v)"
  "funds (asset_of (asset.credit b u x st) v a) = funds (asset_of st v a) + (if v = u \<and> a = b then x else 0)"
proof -
  show "funds (asset_of (asset.credit b u x st) v a) = funds (asset_of st v a) + (if v = u \<and> a = b then x else 0)"
    by (cases "a = b") (simp_all add: funds_def ledger_bals frame_simps)
qed (simp_all add: funds_def ledger_bals frame_simps)

lemma onramp_reports:
  assumes inv: "engine_inv st" and fits: "usd_total st + on_qty m < u64_lim" and u: "on_user_id m < i63"
  shows "reports st pub (handle_onramp oc st pub m)"
proof -
  define st' where "st' = usd.credit (on_user_id m) (on_qty m) st"
  note ok = handle_onramp_ok [OF inv fits st'_def]
  let ?evs = "[FundingExecuted (on_user_id m) ''USD'' (on_qty m) ''onramp'']"
  have "money_flow st ?evs st'"
    using currencies_apart(1) [symmetric] by (simp add: money_flow_def st'_def credit_funds)
  moreover have "small_money st' \<longrightarrow> (\<forall>ev \<in> set ?evs. event_ok ev)"
    using u ok(3) by (simp add: small_money_def)
  moreover have "sends pub ?evs (reply (emit_execution pub (FundingExecuted (on_user_id m) ''USD'' (on_qty m) ''onramp'')) q x)" for q x
    using sends_reply [OF sends_emit(2) [OF sends_refl]] by simp
  ultimately show ?thesis
    unfolding ok(1) reports_def using ok(2) by blast
qed

lemma deposit_reports:
  assumes inv: "engine_inv st" and fits: "asset_total (dp_symbol m) st + dp_qty m < u64_lim"
    and u: "dp_user_id m < i63" "supported (dp_symbol m)"
  shows "reports st pub (handle_deposit oc st pub m)"
proof -
  define st' where "st' = asset.credit (dp_symbol m) (dp_user_id m) (dp_qty m) st"
  note ok = handle_deposit_ok [OF inv fits st'_def]
  let ?ev = "FundingExecuted (dp_user_id m) (to_uppercase (dp_symbol m)) (dp_qty m) ''deposit''"
  have "money_flow st [?ev] st'"
    using currencies_apart u(2) by (auto simp: money_flow_def st'_def credit_funds)
  moreover have "small_money st' \<longrightarrow> (\<forall>ev \<in> set [?ev]. event_ok ev)"
    using u ok(3) by (auto simp: small_money_def)
  moreover have "sends pub [?ev] (reply (emit_execution pub ?ev) q x)" for q x
    using sends_reply [OF sends_emit(2) [OF sends_refl]] by simp
  ultimately show ?thesis
    unfolding ok(1) reports_def using ok(2) by blast
qed

lemma query_reports:
  assumes "engine_inv st"
  shows "reports st pub (Some (st, handle_balance st pub m1))"
    and "reports st pub (map_option (Pair st) (handle_get_orderbook oc st pub m2))"
    and "reports st pub (Some (st, handle_get_open_orders st pub m3))"
    and "reports st pub (Some (st, handle_get_order_status st pub m4))"
    and "reports st pub (handle_signup st pub m5)"
proof -
  have quiet: "reports st pub (Some (st, reply pub q x))" for q x
    by (rule reports_still [OF assms same_funds_refl sends_reply [OF sends_refl] no_money_simps(1)])
  show "reports st pub (Some (st, handle_balance st pub m1))"
    "reports st pub (map_option (Pair st) (handle_get_orderbook oc st pub m2))"
    "reports st pub (Some (st, handle_get_open_orders st pub m3))"
    by (simp_all add: handle_balance_def handle_get_orderbook_ok [OF assms] handle_get_open_orders_def Let_def quiet)
  show "reports st pub (Some (st, handle_get_order_status st pub m4))"
    by (auto simp: handle_get_order_status_def Let_def quiet split: option.split)
  have "engine_inv (signed_up (sg_user_id m5) st)" "same_funds st (signed_up (sg_user_id m5) st)"
    using handle_signup_ok(2) [OF assms] by (simp_all add: safe_step_def same_funds_def frame_simps)
  from reports_still [OF this sends_reply [OF sends_refl] no_money_simps(1)]
  show "reports st pub (handle_signup st pub m5)" by (simp add: handle_signup_ok(1) [OF assms])
qed

lemma dispatch_reports:
  assumes inv: "engine_inv st" and fits: "event_fits dec st channel data" and ok: "command_ok dec channel data"
  shows "reports st pub (dispatch_event oc dec st pub channel data)"
proof -
  have onramp: "reports st pub (handle_onramp oc st pub m)" if "channel = CH_ONRAMP" "dec_onramp dec data = Some m" for m
    using that fits ok by (intro onramp_reports [OF inv]) (simp_all add: event_fits_def command_ok_def)
  have deposit: "reports st pub (handle_deposit oc st pub m)" if "channel = CH_DEPOSIT" "dec_deposit dec data = Some m" for m
    using that fits ok by (intro deposit_reports [OF inv]) (simp_all add: event_fits_def command_ok_def)
  have order: "reports st pub (handle_order oc st pub m)" if "channel = CH_ORDER" "dec_order dec data = Some m" for m
    using that fits by (intro order_reports [OF inv]) (simp add: event_fits_def)
  have reset: "reports st pub x" if "channel = CH_RESET" for x
    using that ok by (simp add: command_ok_def)
  show ?thesis
    unfolding dispatch_event_def
    by (intro reports_if reports_msg [OF inv] query_reports [OF inv] cancel_reports [OF inv])
      ((rule onramp deposit order; assumption) | (rule reset; assumption) |
       (rule reports_still [OF inv same_funds_refl sends_refl no_money_simps(1)]))+
qed

section \<open>Runs\<close>

text \<open>A run of the engine from start-up, with the execution events it has published.\<close>

inductive exchange_run :: "bool \<Rightarrow> decoders \<Rightarrow> engine_state \<Rightarrow> execution_event list \<Rightarrow> bool" for oc dec where
  run_start: "fees_ok (fee_schedule_from_env mk tk) \<Longrightarrow> exchange_run oc dec (engine_state_new mk tk) []"
| run_step: "exchange_run oc dec st evs \<Longrightarrow> event_fits dec st channel data \<Longrightarrow> command_ok dec channel data \<Longrightarrow>
    dispatch_event oc dec st (Some []) channel data = Some (st', Some out) \<Longrightarrow> small_money st' \<Longrightarrow>
    exchange_run oc dec st' (evs @ executions out)"

lemma exchange_run_inv:
  assumes "exchange_run oc dec st evs"
  shows "engine_inv st \<and> small_users st \<and> (\<forall>ev \<in> set evs. event_ok ev) \<and>
    (\<forall>u. int (funds (usd_of st u)) = delta u ''USD'' evs) \<and>
    (\<forall>u a. supported a \<longrightarrow> int (funds (asset_of st u a)) = delta u (to_uppercase a) evs)"
  using assms
proof (induction rule: exchange_run.induct)
  case (run_start mk tk)
  have e: "empty_exchange (engine_state_new mk tk)" by (rule engine_state_new_empty)
  moreover have "engine_inv (engine_state_new mk tk)"
    using run_start by (intro empty_exchange_inv(1) [OF e]) (simp add: engine_state_new_def)
  ultimately show ?case by (simp add: empty_exchange_def hm_get_or_def small_users_def)
next
  case (run_step st evs channel data st' out)
  then have inv: "engine_inv st" and users: "small_users st" and ok: "\<forall>ev \<in> set evs. event_ok ev" by simp_all
  obtain new where sent: "sends (Some []) new (Some out)" and inv': "engine_inv st'" and flow: "money_flow st new st'"
    and new: "\<forall>ev \<in> set new. event_ok ev"
    using dispatch_reports [OF inv run_step(2,3), of "Some []" oc] users run_step(4,5) by (auto simp: reports_def)
  have "new = executions out" using sent by (auto simp: sends_def graft_def)
  then show ?case
    using run_step.IH inv' flow new small_users_flow [OF users flow new] by (auto simp: money_flow_def)
qed

end
