(* ===== verification/Ledger_Run.thy ===== *)
theory Ledger_Run
  imports Ledger_Reconcile Streams
begin

text \<open>
  The worker against the execution stream: it reads on from its position in batches of up to a hundred
  records, reads, transactions and commits may fail, and the process may be restarted at any time. Whatever happens, the database holds
  the effect of a prefix of the stream, every event of it exactly once, and the position is the end of
  that prefix.
\<close>

section \<open>The events of a stream\<close>

abbreviation stream_events :: "(string \<Rightarrow> execution_event option) \<Rightarrow> stream_record list \<Rightarrow> execution_event list" where
  "stream_events dec rs \<equiv> List.map_filter (exec_event_of dec) rs"

lemma stream_events_append: "stream_events dec (xs @ ys) = stream_events dec xs @ stream_events dec ys"
  by (simp add: map_filter_def)

section \<open>Runs of the worker\<close>

definition empty_db :: ledger_db where
  "empty_db = \<lparr>db_orders = [], db_trades = [], db_ledger = [], db_checkpoint = Some ''0-0''\<rparr>"

inductive worker_run :: "bool \<Rightarrow> (string \<Rightarrow> execution_event option) \<Rightarrow> stream_record list \<Rightarrow> worker \<Rightarrow> bool"
  for oc dec stream where
  begin_run: "worker_run oc dec stream (worker_start empty_db)"
| one_turn: "worker_run oc dec stream w \<Longrightarrow> poll_of (Some 100) (wk_last_id w) stream (wt_read x) \<Longrightarrow>
    turn oc dec uuids x w = Some w' \<Longrightarrow> worker_run oc dec stream w'"
| restart: "worker_run oc dec stream w \<Longrightarrow> worker_run oc dec stream (worker_start (wk_db w))"

definition trade_rows :: "execution_event list \<Rightarrow> trade_row list" where
  "trade_rows evs = List.map_filter (\<lambda>ev. case ev of TradeExecuted te \<Rightarrow> Some (trade_row_of te) | _ \<Rightarrow> None) evs"

lemma trade_rows_simps [simp]: "trade_rows [] = []" "trade_rows (xs @ ys) = trade_rows xs @ trade_rows ys"
  "trade_rows (ev # evs) = (case ev of TradeExecuted te \<Rightarrow> [trade_row_of te] | _ \<Rightarrow> []) @ trade_rows evs"
  by (simp_all add: trade_rows_def map_filter_def split: execution_event.split)

lemma frame_trades [simp]:
  "db_trades (update_order i r s db) = db_trades db" "db_trades (record_order oc_ev db) = db_trades db"
  "db_trades (post es db) = db_trades db" "db_checkpoint (post es db) = db_checkpoint db"
  by (simp_all add: update_order_def record_order_def post_def Let_def split: option.splits)

lemma apply_event_trades:
  "apply_event oc uuid ev db = Some db' \<Longrightarrow>
    db_trades db' = db_trades db @ trade_rows [ev] \<and> db_checkpoint db' = db_checkpoint db"
  by (cases ev) (auto simp: bind_Some_iff Let_def)

lemma exec_records_trades:
  "exec_records oc dec uuids rs (db, j) = Some (db', i) \<Longrightarrow>
    db_trades db' = db_trades db @ trade_rows (stream_events dec rs) \<and> db_checkpoint db' = db_checkpoint db"
proof (induction rs arbitrary: db j)
  case (Cons r rs)
  show ?case
  proof (cases "exec_event_of dec r")
    case None
    with Cons show ?thesis by (simp add: map_filter_simps)
  next
    case (Some ev)
    then obtain db1 where "apply_event oc (uuids (sr_id r)) ev db = Some db1"
      and "exec_records oc dec uuids rs (db1, sr_id r) = Some (db', i)"
      using Cons.prems by (auto simp: bind_Some_iff)
    with Cons.IH [of db1 "sr_id r"] apply_event_trades [of oc "uuids (sr_id r)" ev db db1] Some show ?thesis
      by (simp add: map_filter_simps)
  qed
qed (simp add: map_filter_simps)

text \<open>The database holds exactly the effect of the events \<open>evs\<close>.\<close>

definition holds_exactly :: "execution_event list \<Rightarrow> ledger_db \<Rightarrow> bool" where
  "holds_exactly evs db \<longleftrightarrow> db_trades db = trade_rows evs \<and> (\<forall>u cur. owned u cur (db_ledger db) = delta u cur evs)"

definition worker_at :: "(string \<Rightarrow> execution_event option) \<Rightarrow> stream_record list \<Rightarrow> worker \<Rightarrow> stream_record list \<Rightarrow> bool" where
  "worker_at dec stream w pre \<longleftrightarrow> stream = pre @ records_after (wk_last_id w) stream \<and>
     holds_exactly (stream_events dec pre) (wk_db w) \<and> db_checkpoint (wk_db w) = Some (wk_last_id w)"

lemma worker_batch_at:
  assumes stream: "stream_ok stream" and ok: "\<forall>ev \<in> set (stream_events dec stream). event_ok ev"
    and at: "worker_at dec stream w pre" and next_rs: "records_after (wk_last_id w) stream = rs @ suf"
    and run: "worker_batch oc dec uuids committed rs w = Some w'"
  shows "w' = w \<or> worker_at dec stream w' (pre @ rs)"
proof (cases "rs = [] \<or> \<not> committed")
  case True
  then show ?thesis using run by (auto simp: worker_batch_def bind_Some_iff Let_def split: if_splits)
next
  case False
  then have rs: "rs = butlast rs @ [last rs]" by simp
  have split: "stream = pre @ rs @ suf" using at next_rs by (simp add: worker_at_def)
  then have "set (stream_events dec rs) \<subseteq> set (stream_events dec stream)" by (auto simp: stream_events_append)
  then obtain db i where ex: "exec_records oc dec uuids rs (wk_db w, wk_last_id w) = Some (db, i)"
    and own: "\<forall>u cur. owned u cur (db_ledger db) = owned u cur (db_ledger (wk_db w)) + delta u cur (stream_events dec rs)"
    and i: "i = sr_id (last rs)"
    using exec_records_owned [of dec rs oc uuids "wk_db w" "wk_last_id w"] ok False by blast
  note tr = exec_records_trades [OF ex]
  have "stream = (pre @ butlast rs) @ last rs # suf" using split rs by (metis append.assoc append_Cons append_Nil)
  then have "records_after i stream = suf"
    using records_after_split [of "pre @ butlast rs" "last rs" suf] stream i by simp
  then have "worker_at dec stream \<lparr>wk_db = db\<lparr>db_checkpoint := Some i\<rparr>, wk_last_id = i\<rparr> (pre @ rs)"
    using at own tr split by (simp add: worker_at_def holds_exactly_def stream_events_append)
  moreover have "w' = \<lparr>wk_db = db\<lparr>db_checkpoint := Some i\<rparr>, wk_last_id = i\<rparr>"
    using run ex tr at False by (simp add: worker_batch_def worker_at_def)
  ultimately show ?thesis by simp
qed

lemma worker_run_at:
  assumes "worker_run oc dec stream w" and "stream_ok stream" and "\<forall>ev \<in> set (stream_events dec stream). event_ok ev"
  shows "\<exists>pre. worker_at dec stream w pre"
  using assms(1)
proof (induction rule: worker_run.induct)
  case begin_run
  have "worker_at dec stream (worker_start empty_db) []"
    by (simp add: worker_at_def worker_start_def empty_db_def records_after_def holds_exactly_def map_filter_simps)
  then show ?case by blast
next
  case (one_turn w x uuids w')
  then obtain pre where at: "worker_at dec stream w pre" by blast
  show ?case
  proof (cases "\<exists>rs. wt_read x = Records rs \<and> wt_begun x")
    case True
    then obtain rs suf where "records_after (wk_last_id w) stream = rs @ suf"
      "worker_batch oc dec uuids (wt_committed x) rs w = Some w'"
      using one_turn.hyps by (auto simp: turn_def)
    with worker_batch_at [OF assms(2,3) at] at show ?thesis by metis
  next
    case False
    with one_turn.hyps(3) at show ?thesis by (auto simp: turn_def split: poll.splits if_splits)
  qed
next
  case (restart w)
  then show ?case by (auto simp: worker_at_def worker_start_def)
qed

text \<open>
  Nothing stops the worker: with Redis and the database available it reaches the end of the stream, a hundred
  records a turn.
\<close>

primrec healthy_turns ::
  "bool \<Rightarrow> (string \<Rightarrow> execution_event option) \<Rightarrow> (string \<Rightarrow> string) \<Rightarrow> stream_record list \<Rightarrow> nat \<Rightarrow> worker \<Rightarrow> worker option" where
  "healthy_turns oc dec uuids stream 0 w = Some w"
| "healthy_turns oc dec uuids stream (Suc n) w =
     do { w' \<leftarrow> turn oc dec uuids \<lparr>wt_read = xread 100 (wk_last_id w) stream, wt_begun = True, wt_committed = True\<rparr> w;
          healthy_turns oc dec uuids stream n w' }"

lemma healthy_turn:
  assumes run: "worker_run oc dec stream w" and stream: "stream_ok stream"
    and ok: "\<forall>ev \<in> set (stream_events dec stream). event_ok ev"
  shows "\<exists>w'. turn oc dec uuids \<lparr>wt_read = xread 100 (wk_last_id w) stream, wt_begun = True, wt_committed = True\<rparr> w = Some w' \<and>
    worker_run oc dec stream w' \<and> records_after (wk_last_id w') stream = drop 100 (records_after (wk_last_id w) stream)"
proof -
  obtain pre where at: "worker_at dec stream w pre" using worker_run_at [OF assms] by blast
  let ?x = "\<lparr>wt_read = xread 100 (wk_last_id w) stream, wt_begun = True, wt_committed = True\<rparr>"
  let ?rest = "records_after (wk_last_id w) stream" let ?rs = "take 100 ?rest"
  have split: "stream = (pre @ ?rs) @ drop 100 ?rest" using at by (simp add: worker_at_def)
  have go: "worker_run oc dec stream w'" if "turn oc dec uuids ?x w = Some w'" for w'
    by (rule one_turn [OF run _ that]) (simp add: xread_poll_of)
  show ?thesis
  proof (cases "?rs = []")
    case True
    then have "turn oc dec uuids ?x w = Some w" by (simp add: turn_def xread_def)
    with run True show ?thesis by auto
  next
    case False
    have "set (stream_events dec ?rs) \<subseteq> set (stream_events dec stream)"
      using arg_cong [OF split, of "\<lambda>rs. set (stream_events dec rs)"] unfolding stream_events_append set_append by blast
    with ok have "\<forall>ev \<in> set (stream_events dec ?rs). event_ok ev" by blast
    from exec_records_owned [OF this, of oc uuids "wk_db w" "wk_last_id w"] False obtain db
      where ex: "exec_records oc dec uuids ?rs (wk_db w, wk_last_id w) = Some (db, sr_id (last ?rs))" by blast
    have "wt_read ?x = Records ?rs" using False by (auto simp: xread_def split: list.split)
    with ex False obtain w' where w': "turn oc dec uuids ?x w = Some w'" "wk_last_id w' = sr_id (last ?rs)"
      by (simp add: turn_def worker_batch_def)
    have "stream = (pre @ butlast ?rs) @ last ?rs # drop 100 ?rest"
      using split append_butlast_last_id [OF False] by (metis append.assoc append_Cons append_Nil)
    then have "records_after (wk_last_id w') stream = drop 100 ?rest"
      using records_after_split [of "pre @ butlast ?rs" "last ?rs" "drop 100 ?rest"] stream w'(2) by metis
    with w'(1) go show ?thesis by blast
  qed
qed

lemma worker_catch_up:
  assumes "worker_run oc dec stream w" and "stream_ok stream" and "\<forall>ev \<in> set (stream_events dec stream). event_ok ev"
    and "length (records_after (wk_last_id w) stream) \<le> 100 * n"
  shows "\<exists>w'. healthy_turns oc dec uuids stream n w = Some w' \<and> worker_run oc dec stream w' \<and> records_after (wk_last_id w') stream = []"
  using assms(1,4)
proof (induction n arbitrary: w)
  case (Suc n)
  from healthy_turn [OF Suc.prems(1) assms(2,3), of uuids] obtain w1
    where w1: "turn oc dec uuids \<lparr>wt_read = xread 100 (wk_last_id w) stream, wt_begun = True, wt_committed = True\<rparr> w = Some w1"
      "worker_run oc dec stream w1" "records_after (wk_last_id w1) stream = drop 100 (records_after (wk_last_id w) stream)" by blast
  then show ?case using Suc.IH [of w1] Suc.prems(2) by simp
qed simp

lemma reconciles:
  assumes run: "exchange_run oc dec st evs" and stream: "stream_events edec stream = evs" "stream_ok stream"
    and worker: "worker_run oc' edec stream w" "records_after (wk_last_id w) stream = []"
  shows "owned u ''USD'' (db_ledger (wk_db w)) = int (funds (usd_of st u))"
    and "supported a \<Longrightarrow> owned u (to_uppercase a) (db_ledger (wk_db w)) = int (funds (asset_of st u a))"
proof -
  note inv = exchange_run_inv [OF run]
  obtain pre where "worker_at edec stream w pre"
    using worker_run_at [OF worker(1) stream(2)] inv stream(1) by blast
  then have "\<forall>u cur. owned u cur (db_ledger (wk_db w)) = delta u cur evs"
    using worker(2) stream(1) by (simp add: worker_at_def holds_exactly_def)
  then show "owned u ''USD'' (db_ledger (wk_db w)) = int (funds (usd_of st u))"
    "supported a \<Longrightarrow> owned u (to_uppercase a) (db_ledger (wk_db w)) = int (funds (asset_of st u a))"
    using inv by simp_all
qed

end
