(* ===== verification/Ledger_Properties.thy ===== *)
theory Ledger_Properties
  imports Ledger_Run Scenario
begin

text \<open>
  The properties of the cold-path worker, and of the worker together with the engine.
\<close>

section \<open>A trading day\<close>

text \<open>
  For the instances below: user 2 brings 1000 USD, user 1 deposits 10 SOL and offers them at 100, user 2
  buys 4 of them. The fees are 0.1 and 0.2 per cent.
\<close>

definition day_decoders :: decoders where
  "day_decoders = scn_decoders\<lparr>
     dec_onramp := (\<lambda>d. if d = ''o'' then Some \<lparr>on_user_id = 2, on_qty = 1000, on_queue_id = ''q'', on_identifier = ''b''\<rparr> else None),
     dec_deposit := (\<lambda>d. if d = ''d'' then Some \<lparr>dp_user_id = 1, dp_symbol = ''sol'', dp_qty = 10, dp_queue_id = ''q'',
       dp_identifier = ''c''\<rparr> else None),
     dec_order := (\<lambda>d. if d = ''a'' then Some scn_ask else if d = ''b'' then Some scn_buy else None)\<rparr>"

definition day_commands :: "(string \<times> string) list" where
  "day_commands = [(CH_ONRAMP, ''o''), (CH_DEPOSIT, ''d''), (CH_ORDER, ''a''), (CH_ORDER, ''b'')]"

lemma small_money_code [code]:
  "small_money st \<longleftrightarrow> usd_total st < i63 \<and> asset_total ''sol'' st < i63 \<and> asset_total ''btc'' st < i63 \<and> asset_total ''eth'' st < i63"
  by (simp only: small_money_def supported_all)

text \<open>Running commands with every condition of a run checked.\<close>

fun run_commands :: "bool \<Rightarrow> decoders \<Rightarrow> (string \<times> string) list \<Rightarrow> engine_state \<times> execution_event list \<Rightarrow>
    (engine_state \<times> execution_event list) option" where
  "run_commands oc dec [] acc = Some acc"
| "run_commands oc dec ((channel, data) # cs) (st, evs) =
     (if event_fits dec st channel data \<and> command_ok dec channel data
      then (case dispatch_event oc dec st (Some []) channel data of
              Some (st', Some out) \<Rightarrow> if small_money st' then run_commands oc dec cs (st', evs @ executions out) else None
            | _ \<Rightarrow> None)
      else None)"

lemma run_commands_run:
  "run_commands oc dec cs (st, evs) = Some (st', evs') \<Longrightarrow> exchange_run oc dec st evs \<Longrightarrow> exchange_run oc dec st' evs'"
proof (induction cs arbitrary: st evs)
  case (Cons c cs)
  obtain channel data where c: "c = (channel, data)" by (cases c)
  with Cons.prems(1) obtain st1 out where fits: "event_fits dec st channel data" "command_ok dec channel data"
    and run: "dispatch_event oc dec st (Some []) channel data = Some (st1, Some out)" "small_money st1"
    and rest: "run_commands oc dec cs (st1, evs @ executions out) = Some (st', evs')"
    by (auto split: if_splits option.splits)
  show ?case
    by (rule Cons.IH [OF rest run_step [OF Cons.prems(2) fits run]])
qed simp

definition day_end :: "engine_state \<times> execution_event list" where
  "day_end = (case run_commands True day_decoders day_commands (engine_state_new (Some ''10'') (Some ''20''), []) of
     None \<Rightarrow> (engine_state_new None None, []) | Some r \<Rightarrow> r)"

lemma day_run: "exchange_run True day_decoders (fst day_end) (snd day_end)"
proof -
  have "map_option (\<lambda>_. True) (run_commands True day_decoders day_commands (engine_state_new (Some ''10'') (Some ''20''), [])) = Some True"
    by code_simp
  then obtain st evs where r: "run_commands True day_decoders day_commands (engine_state_new (Some ''10'') (Some ''20''), []) = Some (st, evs)"
    by auto
  have "fees_ok (fee_schedule_from_env (Some ''10'') (Some ''20''))" by code_simp
  from run_commands_run [OF r run_start [OF this]] show ?thesis by (simp add: day_end_def r)
qed

definition day_ids :: "string list" where
  "day_ids = [''1-0'', ''2-0'', ''3-0'', ''4-0'', ''5-0'', ''6-0'', ''7-0'', ''8-0'']"

definition day_stream :: "stream_record list" where
  "day_stream = map (\<lambda>(i, ev). \<lparr>sr_id = i, sr_map = [(''data'', Utf8 i)]\<rparr>) (zip day_ids (snd day_end))"

definition day_event :: "string \<Rightarrow> execution_event option" where
  "day_event i = map_of (zip day_ids (snd day_end)) i"

lemma day_stream_ok: "stream_events day_event day_stream = snd day_end" "stream_ok day_stream"
  by code_simp+

lemma day_events_ok: "\<forall>ev \<in> set (stream_events day_event day_stream). event_ok ev"
  using exchange_run_inv [OF day_run] by (simp add: day_stream_ok)

section \<open>Double entry\<close>

lemma day_stream_short: "length (records_after (wk_last_id (worker_start empty_db)) day_stream) \<le> 100 * 1"
  by code_simp

definition day_turn :: worker_turn where
  "day_turn = \<lparr>wt_read = Records day_stream, wt_begun = True, wt_committed = True\<rparr>"

text \<open>
  C30. Double-entry bookkeeping: a batch whose amounts fit into \<^verbatim>\<open>i64\<close> is always processed, and what it
  posts sums to zero in every currency, so the totals of the ledger never change; a batch whose commit
  fails leaves the database and the position as they were.
\<close>

theorem ledger_double_entry:
  assumes "\<forall>r \<in> set rs. \<forall>ev. exec_event_of dec r = Some ev \<longrightarrow> event_in_range ev"
  shows "\<exists>w'. worker_batch oc dec uuids committed rs w = Some w' \<and>
    ledger_total cur (db_ledger (wk_db w')) = ledger_total cur (db_ledger (wk_db w)) \<and> (\<not> committed \<longrightarrow> w' = w)"
proof -
  obtain db i where "exec_records oc dec uuids rs (wk_db w, wk_last_id w) = Some (db, i)"
    and "ledger_total cur (db_ledger db) = ledger_total cur (db_ledger (wk_db w))"
    using exec_records_balanced [OF assms] by blast
  then show ?thesis by (cases "rs = []") (simp_all add: worker_batch_def)
qed

theorem ledger_double_entry_witness:
  "\<exists>w'. worker_batch True day_event (\<lambda>i. i) True day_stream (worker_start empty_db) = Some w' \<and>
     db_ledger (wk_db w') \<noteq> [] \<and> ledger_total ''USD'' (db_ledger (wk_db w')) = 0"
proof -
  have range: "\<forall>r \<in> set day_stream. \<forall>ev. exec_event_of day_event r = Some ev \<longrightarrow> event_in_range ev"
    using day_events_ok event_ok_range by (fastforce simp: map_filter_def)
  have "map_option (\<lambda>w. db_ledger (wk_db w) \<noteq> []) (worker_batch True day_event (\<lambda>i. i) True day_stream (worker_start empty_db)) = Some True"
    by code_simp
  with ledger_double_entry [OF range, of True "\<lambda>i. i" True "worker_start empty_db" "''USD''"] show ?thesis
    by (auto simp: worker_start_def empty_db_def)
qed

section \<open>Exactly once\<close>



text \<open>
  C32. The worker never gets stuck: from every state it can be in, while Redis and the database are
  available, reading a hundred records a turn takes it to the end of the stream, in as many turns as that
  needs.
\<close>

theorem worker_reaches_end:
  assumes "worker_run oc dec stream w" and "stream_ok stream" and "\<forall>ev \<in> set (stream_events dec stream). event_ok ev"
    and "length (records_after (wk_last_id w) stream) \<le> 100 * n"
  shows "\<exists>w'. healthy_turns oc dec uuids stream n w = Some w' \<and> worker_run oc dec stream w' \<and>
    records_after (wk_last_id w') stream = []"
  by (rule worker_catch_up [OF assms])

theorem worker_reaches_end_witness:
  "\<exists>w'. healthy_turns True day_event (\<lambda>i. i) day_stream 1 (worker_start empty_db) = Some w' \<and>
     worker_run True day_event day_stream w' \<and> records_after (wk_last_id w') day_stream = []"
  by (rule worker_reaches_end [OF begin_run day_stream_ok(2) day_events_ok day_stream_short])

text \<open>
  The checkpoint is what makes restarts safe: when it cannot be read at start, the worker begins at
  the start of the stream and records every trade and every posting once more.
\<close>

lemma failed_checkpoint_read_repeats:
  "map_option (\<lambda>db. (length (db_trades db), owned 2 ''USD'' (db_ledger db)))
     (do { db \<leftarrow> run_worker True day_event (\<lambda>i. i) True True [day_turn] empty_db;
           run_worker True day_event (\<lambda>i. i) True False [day_turn] db }) = Some (2, 1200) \<and>
   map_option (\<lambda>db. (length (db_trades db), owned 2 ''USD'' (db_ledger db)))
     (do { db \<leftarrow> run_worker True day_event (\<lambda>i. i) True True [day_turn] empty_db;
           run_worker True day_event (\<lambda>i. i) True True [day_turn\<lparr>wt_read := Timeout\<rparr>] db }) = Some (1, 600)"
  by code_simp

section \<open>Ledger and engine\<close>



end
