(* ===== verification/Dto.thy ===== *)
theory Dto
  imports Shared_Models
begin

text \<open>
  The request bodies of the gateway and their validation (\<^verbatim>\<open>rs-gateway/src/dto/mod.rs\<close>). Strings are ASCII
  text, on which \<^verbatim>\<open>str::len\<close> is the number of characters; \<^verbatim>\<open>Err\<close> is \<open>Inl\<close>.
\<close>

section \<open>Characters\<close>

definition is_space :: "char \<Rightarrow> bool" where
  "is_space c \<longleftrightarrow> (let n = (of_char c :: nat) in n = 32 \<or> 9 \<le> n \<and> n \<le> 13)"

definition is_alphanumeric :: "char \<Rightarrow> bool" where
  "is_alphanumeric c \<longleftrightarrow> (let n = (of_char c :: nat) in 48 \<le> n \<and> n \<le> 57 \<or> 65 \<le> n \<and> n \<le> 90 \<or> 97 \<le> n \<and> n \<le> 122)"

definition trim_start :: "string \<Rightarrow> string" where
  "trim_start s = dropWhile is_space s"

definition trim :: "string \<Rightarrow> string" where
  "trim s = rev (trim_start (rev (trim_start s)))"

section \<open>Accounts\<close>

record signup_body =
  sub_username :: string
  sub_password :: string

definition signup_validate :: "signup_body \<Rightarrow> string + unit" where
  "signup_validate b =
     (let u = trim (sub_username b) in
      if length u < 3 \<or> 32 < length u then Inl ''Username must be between 3 and 32 characters''
      else if \<not> list_all (\<lambda>c. is_alphanumeric c \<or> c = CHR ''_'') u
      then Inl ''Username must contain only alphanumeric characters and underscores''
      else if length (sub_password b) < 6 then Inl ''Password must be at least 6 characters long''
      else Inr ())"

record signin_body =
  sib_username :: string
  sib_password :: string

definition signin_validate :: "signin_body \<Rightarrow> string + unit" where
  "signin_validate b =
     (if trim (sib_username b) = [] then Inl ''Username cannot be empty''
      else if sib_password b = [] then Inl ''Password cannot be empty''
      else Inr ())"

section \<open>Funding\<close>

definition onramp_validate :: "nat \<Rightarrow> string + unit" where
  "onramp_validate qty = (if qty = 0 then Inl ''Onramp quantity must be greater than zero'' else Inr ())"

definition deposit_validate :: "nat \<Rightarrow> string + unit" where
  "deposit_validate qty = (if qty = 0 then Inl ''Deposit quantity must be greater than zero'' else Inr ())"

section \<open>Orders\<close>

record order_body =
  ob_asset :: string
  ob_side :: string
  ob_order_type :: string
  ob_price :: int
  ob_qty :: int
  ob_slippage_pct :: "f64 option"
  ob_time_in_force :: "string option"

text \<open>The defaults that serde fills in for absent fields.\<close>

definition default_order_type :: string where
  "default_order_type = ''limit''"

definition order_validate :: "order_body \<Rightarrow> string + unit" where
  "order_validate b =
     (let asset_lower = to_lowercase (ob_asset b); otype = to_lowercase (ob_order_type b) in
      if asset_lower \<notin> {''sol'', ''btc'', ''eth''} then Inl ''Supported assets are SOL, BTC, ETH''
      else if ob_side b \<noteq> ''bid'' \<and> ob_side b \<noteq> ''ask'' then Inl (''Side must be '' @ [CHR 39] @ ''bid'' @ [CHR 39] @ '' or '' @ [CHR 39] @ ''ask'' @ [CHR 39])
      else if otype \<noteq> ''limit'' \<and> otype \<noteq> ''market''
      then Inl (''Order type must be '' @ [CHR 39] @ ''limit'' @ [CHR 39] @ '' or '' @ [CHR 39] @ ''market'' @ [CHR 39])
      else if otype = ''limit'' \<and> ob_price b \<le> 0 then Inl ''Order price must be positive''
      else if ob_qty b \<le> 0 then Inl ''Order quantity must be positive''
      else if (case ob_slippage_pct b of None \<Rightarrow> False | Some s \<Rightarrow> s \<le> 0 \<or> 50 < s)
      then Inl ''Slippage percentage must be between 0 and 50''
      else case ob_time_in_force b of
             None \<Rightarrow> Inr ()
           | Some tif \<Rightarrow> if to_uppercase tif \<notin> {''GTC'', ''FOK'', ''IOC''} then Inl ''Invalid time in force'' else Inr ())"

text \<open>What a validated body guarantees.\<close>

lemma order_validate_ok:
  assumes "order_validate b = Inr ()"
  shows "to_lowercase (ob_asset b) \<in> {''sol'', ''btc'', ''eth''}" and "ob_side b = ''bid'' \<or> ob_side b = ''ask''"
    and "to_lowercase (ob_order_type b) = ''limit'' \<or> to_lowercase (ob_order_type b) = ''market''"
    and "to_lowercase (ob_order_type b) = ''limit'' \<Longrightarrow> 0 < ob_price b" and "0 < ob_qty b"
    and "ob_slippage_pct b = Some s \<Longrightarrow> 0 < s \<and> s \<le> 50"
  using assms unfolding order_validate_def Let_def by (auto split: if_splits option.splits)

end
