(* ===== verification/Password.thy ===== *)
theory Password
  imports Prelude
begin

text \<open>
  Password hashing (\<^verbatim>\<open>rs-gateway/src/auth/hash.rs\<close>). The argon2 library is an argument: hashing with a salt,
  printing and parsing a hash in its text form, and verification. The work is done on a thread of its own;
  \<open>join\<close> is the text of the error when that thread does not finish.
\<close>

record 'h argon2 =
  a2_hash :: "string \<Rightarrow> string \<Rightarrow> string + 'h"
  a2_print :: "'h \<Rightarrow> string"
  a2_parse :: "string \<Rightarrow> 'h option"
  a2_verify :: "string \<Rightarrow> 'h \<Rightarrow> bool"

definition hash_password :: "'h argon2 \<Rightarrow> string option \<Rightarrow> string \<Rightarrow> string \<Rightarrow> string + string" where
  "hash_password a2 join salt password =
     (case join of
        Some e \<Rightarrow> Inl (''Task execution error: '' @ e)
      | None \<Rightarrow> (case a2_hash a2 password salt of Inl e \<Rightarrow> Inl e | Inr h \<Rightarrow> Inr (a2_print a2 h)))"

definition verify_password :: "'h argon2 \<Rightarrow> string option \<Rightarrow> string \<Rightarrow> string \<Rightarrow> bool" where
  "verify_password a2 join password stored_hash =
     (case join of
        Some e \<Rightarrow> False
      | None \<Rightarrow> (case a2_parse a2 stored_hash of None \<Rightarrow> False | Some h \<Rightarrow> a2_verify a2 password h))"

text \<open>
  What is documented of argon2: a printed hash parses to itself, and verification accepts the password that
  was hashed.
\<close>

definition argon2_spec :: "'h argon2 \<Rightarrow> bool" where
  "argon2_spec a2 \<longleftrightarrow> (\<forall>h. a2_parse a2 (a2_print a2 h) = Some h) \<and>
     (\<forall>password salt h. a2_hash a2 password salt = Inr h \<longrightarrow> a2_verify a2 password h)"

lemma verify_hashed:
  assumes "argon2_spec a2" and "hash_password a2 join salt password = Inr stored"
  shows "verify_password a2 None password stored"
  using assms by (auto simp: argon2_spec_def hash_password_def verify_password_def split: option.splits sum.splits)

end
