(* ===== verification/Gateway.thy ===== *)
theory Gateway
  imports Dto Ledger_Worker Password
begin

text \<open>
  The HTTP side of the gateway: authentication (\<^verbatim>\<open>auth/jwt.rs\<close>, \<^verbatim>\<open>routes/auth.rs\<close>), the routes
  (\<^verbatim>\<open>routes/\<close>) and the request-reply protocol over Redis (\<^verbatim>\<open>redis/listener.rs\<close>).

  A route that talks to the engine suspends at \<^verbatim>\<open>send_and_wait\<close>: it returns the command to publish, the
  correlation id it waits for, and what it does with the reply. The JSON codecs of requests and replies,
  the password hash, the token library, UUIDs, the clock and the order in which PostgreSQL returns rows
  are arguments. A database that cannot answer is \<open>None\<close>.
\<close>

section \<open>Responses\<close>

record order_record =
  rec_id :: int
  rec_row :: order_row

datatype http_body =
    Message string
  | ErrorText string
  | InternalError
  | Balances string balance "(string, balance) hash_map"
  | Token string
  | OrderPlaced "nat option" string
  | CancelDone "nat option" "nat option" string
  | OpenOrders "open_order_info list"
  | OrderDetail order_record "trade_row list"
  | OrderbookBody string orderbook_data
  | Trades "trade_row list"
  | LedgerRows "ledger_entry list"
  | TooManyRequests string nat
  | PlainText string

datatype http = Http nat http_body

record reply_codec =
  rc_identifier :: "string \<Rightarrow> string option"
  rc_balance :: "string \<Rightarrow> (balance \<times> (string, balance) hash_map) option"
  rc_order :: "string \<Rightarrow> (nat option \<times> string option \<times> string option \<times> nat option) option"
  rc_cancel :: "string \<Rightarrow> (nat option \<times> nat option \<times> string option \<times> string option) option"
  rc_open_orders :: "string \<Rightarrow> open_order_info list option"
  rc_order_status :: "string \<Rightarrow> (open_order_info option \<times> string option \<times> string option) option"
  rc_orderbook :: "string \<Rightarrow> orderbook_data option"
  rc_generic :: "string \<Rightarrow> string option"

record request_codec =
  enc_signup :: "signup_msg \<Rightarrow> string option"
  enc_onramp :: "onramp_msg \<Rightarrow> string option"
  enc_deposit :: "deposit_msg \<Rightarrow> string option"
  enc_balance :: "balance_query_msg \<Rightarrow> string option"
  enc_order :: "order_msg \<Rightarrow> string option"
  enc_cancel :: "cancel_msg \<Rightarrow> string option"
  enc_orderbook :: "orderbook_query_msg \<Rightarrow> string option"
  enc_open_orders :: "open_orders_query_msg \<Rightarrow> string option"
  enc_order_status :: "order_status_query_msg \<Rightarrow> string option"
  enc_reset :: "reset_msg \<Rightarrow> string option"

record gateway_env =
  ge_queue_id :: string
  ge_requests :: request_codec
  ge_replies :: reply_codec

section \<open>Request and reply (redis/listener.rs)\<close>

text \<open>
  What a request ends with: the response, and the labels (market, side, type) under which an accepted
  order is counted in \<^verbatim>\<open>ORDERS_SUBMITTED\<close>.
\<close>

type_synonym order_label = "string \<times> string \<times> string"
type_synonym completion = "http \<times> order_label option"

definition plain :: "('r \<Rightarrow> http) \<Rightarrow> 'r \<Rightarrow> completion" where
  "plain k r = (k r, None)"

text \<open>
  A route answers at once, or waits: channel, encoded command (\<open>None\<close> when encoding fails), correlation
  id, and how the request ends as a function of the reply.
\<close>

datatype route = Respond http | Await string "string option" string "string \<Rightarrow> completion"

definition send_and_wait ::
  "(string \<Rightarrow> 'r option) \<Rightarrow> string \<Rightarrow> string option \<Rightarrow> string \<Rightarrow> ('r \<Rightarrow> completion) \<Rightarrow> route" where
  "send_and_wait dec channel json identifier k =
     Await channel json identifier (\<lambda>reply. case dec reply of None \<Rightarrow> (Http 500 InternalError, None) | Some r \<Rightarrow> k r)"

record gateway =
  gw_pending :: "(string, string \<Rightarrow> completion) hash_map"
  gw_published :: "(string \<times> string) list"
  gw_orders_submitted :: "(order_label, nat) hash_map"

definition gateway_new :: gateway where
  "gateway_new = \<lparr>gw_pending = [], gw_published = [], gw_orders_submitted = []\<rparr>"

definition count_submitted :: "order_label option \<Rightarrow> gateway \<Rightarrow> gateway" where
  "count_submitted label gw =
     (case label of
        None \<Rightarrow> gw
      | Some l \<Rightarrow> gw\<lparr>gw_orders_submitted := hm_insert l (hm_get_or 0 (gw_orders_submitted gw) l + 1) (gw_orders_submitted gw)\<rparr>)"

text \<open>
  Running a route up to its suspension. The sender is put into the pending map before the command is
  encoded and published, and stays there when either fails.
\<close>

fun begin_request :: "bool \<Rightarrow> route \<Rightarrow> gateway \<Rightarrow> gateway \<times> http option" where
  "begin_request published (Respond r) gw = (gw, Some r)"
| "begin_request published (Await channel json identifier k) gw =
     (let gw1 = gw\<lparr>gw_pending := hm_insert identifier k (gw_pending gw)\<rparr> in
      case json of
        None \<Rightarrow> (gw1, Some (Http 500 InternalError))
      | Some data \<Rightarrow>
          if published then (gw1\<lparr>gw_published := gw_published gw1 @ [(channel, data)]\<rparr>, None)
          else (gw1, Some (Http 500 InternalError)))"

text \<open>One element of the reply queue: the request it completes, with its response, if there is one.\<close>

definition on_reply :: "reply_codec \<Rightarrow> string \<Rightarrow> gateway \<Rightarrow> gateway \<times> (string \<times> http) option" where
  "on_reply rc data gw =
     (case rc_identifier rc data of
        None \<Rightarrow> (gw, None)
      | Some i \<Rightarrow>
          (case hm_get (gw_pending gw) i of
             None \<Rightarrow> (gw, None)
           | Some k \<Rightarrow>
               (let (response, label) = k data
                in (count_submitted label (gw\<lparr>gw_pending := hm_remove i (gw_pending gw)\<rparr>), Some (i, response)))))"

text \<open>
  The loop of \<^verbatim>\<open>start_response_listener\<close> over what the calls of \<^verbatim>\<open>BRPOP\<close> return, with the requests it completes.
\<close>

datatype brpop = Popped string | PopTimeout | PopError

fun response_loop :: "reply_codec \<Rightarrow> brpop list \<Rightarrow> gateway \<Rightarrow> gateway \<times> (string \<times> http) list" where
  "response_loop rc [] gw = (gw, [])"
| "response_loop rc (PopTimeout # xs) gw = response_loop rc xs gw"
| "response_loop rc (PopError # xs) gw = response_loop rc xs gw"
| "response_loop rc (Popped data # xs) gw =
     (let (gw1, r) = on_reply rc data gw; (gw2, rs) = response_loop rc xs gw1
      in (gw2, (case r of None \<Rightarrow> rs | Some c \<Rightarrow> c # rs)))"

text \<open>
  Whatever comes in on the queue, in whatever order and however often: a request is completed at most
  once, only while it waits, and the others go on waiting.
\<close>

lemma count_submitted_frame [simp]:
  "gw_pending (count_submitted l gw) = gw_pending gw" "gw_published (count_submitted l gw) = gw_published gw"
  by (simp_all add: count_submitted_def split: option.split)

lemma on_reply_pending:
  assumes "on_reply rc data gw = (gw', r)"
  shows "case r of None \<Rightarrow> gw' = gw
    | Some (i, _) \<Rightarrow> hm_get (gw_pending gw) i \<noteq> None \<and> gw_pending gw' = hm_remove i (gw_pending gw)"
  using assms by (auto simp: on_reply_def Let_def split: option.splits prod.splits)

lemma response_loop_once:
  assumes "response_loop rc xs gw = (gw', completed)"
  shows "distinct (map fst completed) \<and> (\<forall>i \<in> fst ` set completed. hm_get (gw_pending gw) i \<noteq> None) \<and>
    (\<forall>i. hm_get (gw_pending gw') i = (if i \<in> fst ` set completed then None else hm_get (gw_pending gw) i))"
  using assms
proof (induction rc xs gw arbitrary: gw' completed rule: response_loop.induct)
  case (4 rc data xs gw)
  obtain gw1 r where r: "on_reply rc data gw = (gw1, r)" by fastforce
  obtain rest where rest: "response_loop rc xs gw1 = (gw', rest)" and c: "completed = (case r of None \<Rightarrow> rest | Some x \<Rightarrow> x # rest)"
    using "4.prems" r by (auto simp: Let_def split: prod.splits)
  show ?case using "4.IH" [OF r [symmetric] refl rest] on_reply_pending [OF r] c
    by (auto simp: AList.delete_conv' split: option.splits if_splits)
qed simp_all

section \<open>Authentication (auth/jwt.rs)\<close>

record claims =
  cl_sub :: nat
  cl_exp :: nat

lemma drop_prefix_shorter:
  assumes "pat \<noteq> []" and "take (length pat) s = pat"
  shows "length (drop (length pat) s) < length s"
proof -
  have "length pat \<le> length s" using arg_cong [OF assms(2), of length] by simp
  moreover have "0 < length pat" using assms(1) by simp
  ultimately show ?thesis unfolding length_drop by linarith
qed

text \<open>\<^verbatim>\<open>trim_start_matches\<close> removes the prefix as often as it occurs.\<close>

function trim_start_matches :: "string \<Rightarrow> string \<Rightarrow> string" where
  "trim_start_matches pat s =
     (if pat \<noteq> [] \<and> take (length pat) s = pat then trim_start_matches pat (drop (length pat) s) else s)"
  by auto
termination
  by (relation "measure (\<lambda>(pat, s). length s)") (simp_all add: drop_prefix_shorter del: length_drop)

declare trim_start_matches.simps [simp del]

text \<open>The extractor of the authenticated user: \<open>header\<close> is the readable \<^verbatim>\<open>Authorization\<close> header.\<close>

definition from_request :: "(string \<Rightarrow> claims option) \<Rightarrow> string option \<Rightarrow> nat option" where
  "from_request jwt_decode header =
     (case map_option (\<lambda>v. trim (trim_start_matches ''Bearer '' v)) header of
        None \<Rightarrow> None
      | Some t \<Rightarrow> if t = [] then None else map_option cl_sub (jwt_decode t))"

definition auth_error :: http where
  "auth_error = Http 401 (Message ''Invalid or missing token'')"

text \<open>A handler with an \<^verbatim>\<open>AuthUser\<close> parameter runs only for a valid token.\<close>

definition authorized :: "(string \<Rightarrow> claims option) \<Rightarrow> string option \<Rightarrow> (nat \<Rightarrow> route) \<Rightarrow> route" where
  "authorized jwt_decode header handler =
     (case from_request jwt_decode header of None \<Rightarrow> Respond auth_error | Some u \<Rightarrow> handler u)"

section \<open>Sign-up and sign-in (routes/auth.rs)\<close>

record user_row =
  us_id :: int
  us_username :: string
  us_password_hash :: string

record users_db =
  users_serial :: int
  users_rows :: "user_row list"

text \<open>
  \<open>hashing\<close> and \<open>verifying\<close> below are the two functions of \<open>Password\<close> with the library they call.
  \<^verbatim>\<open>INSERT INTO users ... RETURNING\<close> on \<^verbatim>\<open>username VARCHAR(32) UNIQUE\<close>: the serial is drawn before the
  constraints are checked. \<open>Inl True\<close> is a unique violation, \<open>Inl False\<close> another error.
\<close>

definition insert_user :: "string \<Rightarrow> string \<Rightarrow> users_db \<Rightarrow> users_db \<times> (bool + user_row)" where
  "insert_user username password_hash db =
     (let row = \<lparr>us_id = users_serial db, us_username = username, us_password_hash = password_hash\<rparr>;
          db1 = db\<lparr>users_serial := users_serial db + 1\<rparr>
      in if 32 < length username then (db1, Inl False)
         else if username \<in> us_username ` set (users_rows db) then (db1, Inl True)
         else (db1\<lparr>users_rows := users_rows db @ [row]\<rparr>, Inr row))"

definition find_user :: "string \<Rightarrow> users_db \<Rightarrow> user_row option" where
  "find_user username db = find (\<lambda>r. us_username r = username) (users_rows db)"

text \<open>\<^verbatim>\<open>x as u64\<close> for a signed \<^verbatim>\<open>x\<close>.\<close>

definition u64_of :: "int \<Rightarrow> nat" where
  "u64_of x = nat (x mod 2 ^ 64)"

definition balances_reply :: "string \<Rightarrow> balance \<times> (string, balance) hash_map \<Rightarrow> http" where
  "balances_reply message r = Http 200 (Balances message (fst r) (snd r))"

definition signup :: "gateway_env \<Rightarrow> string \<Rightarrow> (string \<Rightarrow> string + string) \<Rightarrow> signup_body \<Rightarrow> users_db \<Rightarrow> users_db \<times> route" where
  "signup env identifier hashing body db =
     (case signup_validate body of
        Inl err \<Rightarrow> (db, Respond (Http 400 (Message err)))
      | Inr _ \<Rightarrow>
          (case hashing (sub_password body) of
             Inl e \<Rightarrow> (db, Respond (Http 500 (ErrorText ''Failed to hash password'')))
           | Inr hashed \<Rightarrow>
               (case insert_user (sub_username body) hashed db of
                  (db1, Inl True) \<Rightarrow> (db1, Respond (Http 401 (Message ''User already'')))
                | (db1, Inl False) \<Rightarrow> (db1, Respond (Http 500 (ErrorText ''Database error'')))
                | (db1, Inr user) \<Rightarrow>
                    (db1, send_and_wait (rc_balance (ge_replies env)) CH_SIGNUP
                       (enc_signup (ge_requests env) \<lparr>sg_user_id = u64_of (us_id user), sg_queue_id = ge_queue_id env,
                          sg_identifier = identifier\<rparr>)
                       identifier (plain (balances_reply ''Signed up successfully''))))))"

definition signin ::
  "(string \<Rightarrow> string \<Rightarrow> bool) \<Rightarrow> (claims \<Rightarrow> string option) \<Rightarrow> nat \<Rightarrow> signin_body \<Rightarrow> users_db option \<Rightarrow> http" where
  "signin verifying jwt_encode now body db =
     (case signin_validate body of
        Inl err \<Rightarrow> Http 400 (Message err)
      | Inr _ \<Rightarrow>
          (case db of
             None \<Rightarrow> Http 500 (ErrorText ''Database error'')
           | Some d \<Rightarrow>
               (case find_user (sib_username body) d of
                  None \<Rightarrow> Http 401 (Message ''Incorrect credentials'')
                | Some user \<Rightarrow>
                    if \<not> verifying (sib_password body) (us_password_hash user)
                    then Http 401 (Message ''Incorrect credentials'')
                    else (case jwt_encode \<lparr>cl_sub = u64_of (us_id user), cl_exp = now + 24 * 3600\<rparr> of
                            None \<Rightarrow> Http 500 InternalError
                          | Some token \<Rightarrow> Http 200 (Token token)))))"

end
