(* ===== verification/Routes.thy ===== *)
theory Routes
  imports Gateway
begin

text \<open>
  The routes for balances, orders, market data and administration (\<^verbatim>\<open>rs-gateway/src/routes/balance.rs\<close>,
  \<^verbatim>\<open>orders.rs\<close>, \<^verbatim>\<open>orderbook.rs\<close>, \<^verbatim>\<open>trades.rs\<close>, \<^verbatim>\<open>ledger.rs\<close>, \<^verbatim>\<open>admin.rs\<close>). \<open>u\<close> is the authenticated user and
  \<open>identifier\<close> the fresh UUID of the request.
\<close>

section \<open>Balances (balance.rs)\<close>

definition get_balance :: "gateway_env \<Rightarrow> string \<Rightarrow> nat \<Rightarrow> route" where
  "get_balance env identifier u =
     send_and_wait (rc_balance (ge_replies env)) CH_BALANCE
       (enc_balance (ge_requests env) \<lparr>bq_user_id = u, bq_queue_id = ge_queue_id env, bq_identifier = identifier\<rparr>)
       identifier (plain (balances_reply ''user Balance''))"

definition onramp :: "gateway_env \<Rightarrow> string \<Rightarrow> nat \<Rightarrow> nat \<Rightarrow> route" where
  "onramp env identifier u qty =
     (case onramp_validate qty of
        Inl err \<Rightarrow> Respond (Http 400 (Message err))
      | Inr _ \<Rightarrow>
          send_and_wait (rc_balance (ge_replies env)) CH_ONRAMP
            (enc_onramp (ge_requests env) \<lparr>on_user_id = u, on_qty = qty, on_queue_id = ge_queue_id env, on_identifier = identifier\<rparr>)
            identifier (plain (balances_reply ''onramped successfully'')))"

definition deposit :: "gateway_env \<Rightarrow> string \<Rightarrow> nat \<Rightarrow> string \<Rightarrow> nat \<Rightarrow> route" where
  "deposit env identifier u asset qty =
     (case deposit_validate qty of
        Inl err \<Rightarrow> Respond (Http 400 (Message err))
      | Inr _ \<Rightarrow>
          if to_lowercase asset \<notin> {''sol'', ''btc'', ''eth''}
          then Respond (Http 400 (Message ''Supported assets are SOL, BTC, ETH''))
          else
            send_and_wait (rc_balance (ge_replies env)) CH_DEPOSIT
              (enc_deposit (ge_requests env) \<lparr>dp_user_id = u, dp_symbol = to_lowercase asset, dp_qty = qty,
                 dp_queue_id = ge_queue_id env, dp_identifier = identifier\<rparr>)
              identifier (plain (balances_reply ''Deposited successfully'')))"

section \<open>Orders (orders.rs)\<close>

definition order_type_of :: "order_body \<Rightarrow> order_type" where
  "order_type_of b = (if to_lowercase (ob_order_type b) = ''market'' then Market else Limit)"

definition time_in_force_of :: "order_body \<Rightarrow> time_in_force" where
  "time_in_force_of b =
     (let t = map_option to_uppercase (ob_time_in_force b) in
      if t = Some ''IOC'' then Ioc else if t = Some ''FOK'' then Fok else Gtc)"

definition order_msg_of :: "gateway_env \<Rightarrow> string \<Rightarrow> nat \<Rightarrow> order_body \<Rightarrow> order_msg" where
  "order_msg_of env identifier u b =
     \<lparr>om_user_id = u, om_asset = ob_asset b, om_side = ob_side b, om_order_type = order_type_of b, om_price = ob_price b,
      om_qty = ob_qty b, om_slippage_pct = ob_slippage_pct b, om_time_in_force = time_in_force_of b,
      om_queue_id = ge_queue_id env, om_identifier = identifier\<rparr>"

text \<open>\<^verbatim>\<open>StatusCode::from_u16\<close> accepts three-digit codes.\<close>

definition status_code_of :: "nat option \<Rightarrow> nat" where
  "status_code_of c = (let n = (case c of None \<Rightarrow> 500 | Some n \<Rightarrow> n) in if 100 \<le> n \<and> n < 1000 then n else 500)"

definition order_response :: "order_body \<Rightarrow> nat option \<times> string option \<times> string option \<times> nat option \<Rightarrow> completion" where
  "order_response b = (\<lambda>(order_id, status, error, code).
     case error of
       Some err \<Rightarrow> (Http (status_code_of code) (Message err), None)
     | None \<Rightarrow> (Http 201 (OrderPlaced order_id (case status of None \<Rightarrow> ''open'' | Some s \<Rightarrow> s)),
         Some (to_uppercase (ob_asset b) @ ''_USD'', to_lowercase (ob_side b), to_lowercase (ob_order_type b))))"

definition place_order :: "gateway_env \<Rightarrow> string \<Rightarrow> nat \<Rightarrow> order_body \<Rightarrow> route" where
  "place_order env identifier u b =
     (case order_validate b of
        Inl err \<Rightarrow> Respond (Http 400 (Message err))
      | Inr _ \<Rightarrow>
          send_and_wait (rc_order (ge_replies env)) CH_ORDER
            (enc_order (ge_requests env) (order_msg_of env identifier u b)) identifier (order_response b))"

definition cancel_response :: "nat option \<times> nat option \<times> string option \<times> string option \<Rightarrow> http" where
  "cancel_response = (\<lambda>(order_id, remaining, message, error).
     case error of
       Some err \<Rightarrow> Http 404 (Message err)
     | None \<Rightarrow> Http 200 (CancelDone order_id remaining (case message of None \<Rightarrow> ''Order cancelled'' | Some m \<Rightarrow> m)))"

definition cancel_order_route :: "gateway_env \<Rightarrow> string \<Rightarrow> nat \<Rightarrow> nat \<Rightarrow> route" where
  "cancel_order_route env identifier u order_id =
     send_and_wait (rc_cancel (ge_replies env)) CH_CANCEL
       (enc_cancel (ge_requests env) \<lparr>cm_user_id = u, cm_order_id = order_id, cm_queue_id = ge_queue_id env,
          cm_identifier = identifier\<rparr>)
       identifier (plain cancel_response)"

definition get_open_orders :: "gateway_env \<Rightarrow> string \<Rightarrow> nat \<Rightarrow> route" where
  "get_open_orders env identifier u =
     send_and_wait (rc_open_orders (ge_replies env)) CH_OPEN_ORDERS
       (enc_open_orders (ge_requests env) \<lparr>ooq_user_id = u, ooq_queue_id = ge_queue_id env, ooq_identifier = identifier\<rparr>)
       identifier (plain (\<lambda>os. Http 200 (OpenOrders os)))"

definition live_order_response :: "open_order_info option \<times> string option \<times> string option \<Rightarrow> http" where
  "live_order_response = (\<lambda>(found, status, error).
     case found of
       None \<Rightarrow> Http 404 (Message ''Order not found'')
     | Some o' \<Rightarrow> Http 200 (OrderDetail
         \<lparr>rec_id = i64_of (oi_order_id o'), rec_row = \<lparr>or_user_id = i64_of (oi_user_id o'), or_market = ''SOL_USD'',
            or_side = oi_side o', or_price = i64_of (oi_price o'), or_original_qty = i64_of (oi_remaining_qty o'),
            or_remaining_qty = i64_of (oi_remaining_qty o'), or_status = (case status of None \<Rightarrow> ''open'' | Some s \<Rightarrow> s)\<rparr>\<rparr> []))"

text \<open>
  The two queries see two states of the database, between which the worker may have committed; \<open>oldest\<close>
  is PostgreSQL's answer to \<^verbatim>\<open>ORDER BY created_at ASC\<close>.
\<close>

definition get_order_route ::
  "gateway_env \<Rightarrow> (trade_row list \<Rightarrow> trade_row list) \<Rightarrow> string \<Rightarrow> ledger_db option \<Rightarrow> ledger_db option \<Rightarrow> nat \<Rightarrow> nat \<Rightarrow> route" where
  "get_order_route env oldest identifier db db' u order_id =
     (case db of
        None \<Rightarrow> Respond (Http 500 (ErrorText ''Database error''))
      | Some d \<Rightarrow>
          (case hm_get (db_orders d) (i64_of order_id) of
             Some row \<Rightarrow>
               if or_user_id row \<noteq> i64_of u then Respond (Http 404 (Message ''Order not found''))
               else (case db' of
                       None \<Rightarrow> Respond (Http 500 (ErrorText ''Database error''))
                     | Some d' \<Rightarrow> Respond (Http 200 (OrderDetail \<lparr>rec_id = i64_of order_id, rec_row = row\<rparr>
                         (oldest (filter (\<lambda>t. tw_maker_order_id t = i64_of order_id \<or> tw_taker_order_id t = i64_of order_id)
                            (db_trades d'))))))
           | None \<Rightarrow>
               send_and_wait (rc_order_status (ge_replies env)) CH_ORDER_STATUS
                 (enc_order_status (ge_requests env) \<lparr>osq_user_id = u, osq_order_id = order_id, osq_queue_id = ge_queue_id env,
                    osq_identifier = identifier\<rparr>)
                 identifier (plain live_order_response)))"

section \<open>Market data and history (orderbook.rs, trades.rs, ledger.rs)\<close>

definition get_orderbook_route :: "gateway_env \<Rightarrow> string \<Rightarrow> string \<Rightarrow> route" where
  "get_orderbook_route env identifier asset =
     (if to_lowercase asset \<notin> {''sol'', ''btc'', ''eth''}
      then Respond (Http 400 (Message ''Supported assets are SOL, BTC, ETH''))
      else
        send_and_wait (rc_orderbook (ge_replies env)) CH_ORDERBOOK
          (enc_orderbook (ge_requests env) \<lparr>obq_asset = asset, obq_queue_id = ge_queue_id env, obq_identifier = identifier\<rparr>)
          identifier (plain (\<lambda>ob. Http 200 (OrderbookBody asset ob))))"

text \<open>\<open>newest\<close> is PostgreSQL's answer to \<^verbatim>\<open>ORDER BY created_at DESC\<close>.\<close>

definition get_my_trades :: "(trade_row list \<Rightarrow> trade_row list) \<Rightarrow> ledger_db option \<Rightarrow> nat \<Rightarrow> http" where
  "get_my_trades newest db u =
     (case db of
        None \<Rightarrow> Http 500 (ErrorText ''Database error'')
      | Some d \<Rightarrow> Http 200 (Trades (take 50 (newest
          (filter (\<lambda>t. tw_buyer_id t = i64_of u \<or> tw_seller_id t = i64_of u) (db_trades d))))))"

definition get_market_trades :: "(trade_row list \<Rightarrow> trade_row list) \<Rightarrow> ledger_db option \<Rightarrow> string \<Rightarrow> http" where
  "get_market_trades newest db asset =
     (case db of
        None \<Rightarrow> Http 500 (ErrorText ''Database error'')
      | Some d \<Rightarrow> Http 200 (Trades (take 50 (newest (filter (\<lambda>t. tw_market t = to_uppercase asset @ ''_USD'') (db_trades d))))))"

definition get_ledger :: "(ledger_entry list \<Rightarrow> ledger_entry list) \<Rightarrow> ledger_db option \<Rightarrow> nat \<Rightarrow> http" where
  "get_ledger newest db u =
     (case db of
        None \<Rightarrow> Http 500 (ErrorText ''Database error'')
      | Some d \<Rightarrow> Http 200 (LedgerRows (take 50 (newest (filter (\<lambda>e. le_user_id e = i64_of u) (db_ledger d))))))"

section \<open>Administration (admin.rs)\<close>

text \<open>The tables are emptied before the engine is told to reset; the statements are taken to succeed.\<close>

definition reset_route ::
  "gateway_env \<Rightarrow> string \<Rightarrow> ledger_db \<Rightarrow> 'j snapshot_table \<Rightarrow> users_db \<Rightarrow> ledger_db \<times> 'j snapshot_table \<times> users_db \<times> route" where
  "reset_route env identifier db snapshots users =
     (\<lparr>db_orders = [], db_trades = [], db_ledger = [], db_checkpoint = map_option (\<lambda>_. ''0-0'') (db_checkpoint db)\<rparr>,
      snapshots\<lparr>snapshot_rows := []\<rparr>,
      users\<lparr>users_rows := []\<rparr>,
      send_and_wait (rc_generic (ge_replies env)) CH_RESET
        (enc_reset (ge_requests env) \<lparr>rs_queue_id = ge_queue_id env, rs_identifier = identifier\<rparr>)
        identifier (plain (\<lambda>_. Http 200 (Message ''Reset successful''))))"

end
