(* ===== verification/Rate_Limit.thy ===== *)
theory Rate_Limit
  imports Kv_Store F64
begin

text \<open>
  The token-bucket rate limiter (\<^verbatim>\<open>rs-gateway/src/rate_limit/mod.rs\<close>) and the middleware that applies it
  (\<^verbatim>\<open>middleware.rs\<close>). An \<^verbatim>\<open>Instant\<close> is a number of nanoseconds and an argument; the client address that
  \<^verbatim>\<open>extract_client_ip\<close> reads from the request is an argument too. The buckets live behind a mutex, so
  a check is atomic.
\<close>

record bucket =
  tokens :: f64
  last_update :: nat

record rate_limiter =
  capacity :: f64
  refill_rate :: f64
  buckets :: "(string, bucket) hash_map"

definition rate_limiter_new :: "f64 \<Rightarrow> f64 \<Rightarrow> rate_limiter" where
  "rate_limiter_new cap rate = \<lparr>capacity = cap, refill_rate = rate, buckets = []\<rparr>"

text \<open>\<^verbatim>\<open>Duration::as_secs_f64\<close>; \<^verbatim>\<open>duration_since\<close> is zero when the clock has not advanced.\<close>

definition as_secs_f64 :: "nat \<Rightarrow> f64" where
  "as_secs_f64 ns = f64_add (f64_of_u64 (ns div 1000000000)) (f64_div (f64_of_u64 (ns mod 1000000000)) 1000000000)"

definition refilled :: "rate_limiter \<Rightarrow> nat \<Rightarrow> bucket \<Rightarrow> f64" where
  "refilled rl now b =
     min (f64_add (tokens b) (f64_mul (as_secs_f64 (now - last_update b)) (refill_rate rl))) (capacity rl)"

definition rl_check :: "nat \<Rightarrow> string \<Rightarrow> rate_limiter \<Rightarrow> (nat + unit) \<times> rate_limiter" where
  "rl_check now key rl =
     (let b = hm_get_or \<lparr>tokens = capacity rl, last_update = now\<rparr> (buckets rl) key;
          avail = refilled rl now b
      in if 1 \<le> avail
         then (Inr (), rl\<lparr>buckets := hm_insert key \<lparr>tokens = f64_sub avail 1, last_update = now\<rparr> (buckets rl)\<rparr>)
         else (let missing = f64_sub 1 avail;
                   wait_secs = f64_ceil_u64 (f64_div missing (refill_rate rl))
               in (Inl (max wait_secs 1), rl\<lparr>buckets := hm_insert key \<lparr>tokens = avail, last_update = now\<rparr> (buckets rl)\<rparr>)))"

definition rl_cleanup :: "nat \<Rightarrow> rate_limiter \<Rightarrow> rate_limiter" where
  "rl_cleanup now rl = rl\<lparr>buckets := filter (\<lambda>(_, b). now - last_update b < 3600 * 1000000000) (buckets rl)\<rparr>"

section \<open>The middleware\<close>

record rate_policy =
  auth_limiter :: rate_limiter
  trading_limiter :: rate_limiter
  general_limiter :: rate_limiter

definition rate_policy_default :: rate_policy where
  "rate_policy_default = \<lparr>auth_limiter = rate_limiter_new 20 2, trading_limiter = rate_limiter_new 100 20,
     general_limiter = rate_limiter_new 100 20\<rparr>"

definition starts_with :: "string \<Rightarrow> string \<Rightarrow> bool" where
  "starts_with path prefix \<longleftrightarrow> take (length prefix) path = prefix"

text \<open>The request is passed on (\<open>Inr\<close>) or refused with \<^verbatim>\<open>429\<close> and the seconds to wait (\<open>Inl\<close>).\<close>

definition rate_limit_call :: "nat \<Rightarrow> string \<Rightarrow> string \<Rightarrow> rate_policy \<Rightarrow> (nat + unit) \<times> rate_policy" where
  "rate_limit_call now path client_ip p =
     (if path = ''/reset'' then (Inr (), p)
      else if starts_with path ''/signup'' \<or> starts_with path ''/signin''
      then (let (r, l) = rl_check now client_ip (auth_limiter p) in (r, p\<lparr>auth_limiter := l\<rparr>))
      else if starts_with path ''/order''
      then (let (r, l) = rl_check now client_ip (trading_limiter p) in (r, p\<lparr>trading_limiter := l\<rparr>))
      else (let (r, l) = rl_check now client_ip (general_limiter p) in (r, p\<lparr>general_limiter := l\<rparr>)))"

section \<open>Rounding\<close>

lemma pow2_pos [simp]: "0 < pow2 e"
  by (simp add: pow2_def)

lemma pow2_add: "pow2 (a + b) = pow2 a * pow2 b"
proof -
  have "pow2 e = 2 powi e" for e
    by (cases "0 \<le> e") (simp_all add: pow2_def power_int_def inverse_eq_divide power_one_over)
  then show ?thesis by (simp add: power_int_add)
qed

lemma pow2_nat [simp]: "pow2 (int n) = 2 ^ n"
  by (simp add: pow2_def)

lemma bitlen_bounds:
  assumes "0 < (n::int)"
  shows "pow2 (bitlen n - 1) \<le> of_int n" and "of_int n < pow2 (bitlen n)"
proof -
  have b: "2 ^ nat (bitlen n - 1) \<le> n" "n < 2 ^ nat (bitlen n)" using bitlen_bounds [OF assms] by simp_all
  have pos: "1 \<le> bitlen n" using assms by (simp add: bitlen_ge_iff_power)
  have "pow2 (bitlen n - 1) = of_int (2 ^ nat (bitlen n - 1))" "pow2 (bitlen n) = of_int (2 ^ nat (bitlen n))"
    using pos by (simp_all add: pow2_def)
  with b show "pow2 (bitlen n - 1) \<le> of_int n" "of_int n < pow2 (bitlen n)" by (simp_all only: of_int_le_iff of_int_less_iff)
qed

lemma f64_exponent_le:
  assumes "0 < x"
  shows "pow2 (f64_exponent x) \<le> x"
proof -
  obtain n d where q: "quotient_of x = (n, d)" by (cases "quotient_of x")
  have d: "0 < d" and x: "x = of_int n / of_int d"
    using q quotient_of_denom_pos quotient_of_div by blast+
  then have n: "0 < n" using assms by (simp add: zero_less_divide_iff)
  have "pow2 (bitlen n - bitlen d - 1) * of_int d \<le> pow2 (bitlen n - bitlen d - 1) * pow2 (bitlen d)"
    using bitlen_bounds(2) [OF d] by (simp add: mult_left_mono less_imp_le)
  also have "\<dots> = pow2 (bitlen n - 1)" by (simp flip: pow2_add)
  also have "\<dots> \<le> of_int n" by (rule bitlen_bounds(1) [OF n])
  finally have "pow2 (bitlen n - bitlen d - 1) \<le> x" using d by (simp add: x pos_le_divide_eq)
  then show ?thesis by (simp add: f64_exponent_def q Let_def)
qed

lemma round_half_even_int [simp]: "round_half_even (of_int z) = z"
  by (simp add: round_half_even_def)

lemma round_half_even_nonneg: "0 \<le> m \<Longrightarrow> 0 \<le> round_half_even m"
  by (auto simp: round_half_even_def Let_def)

lemma f64_round_nonneg:
  assumes "0 \<le> x"
  shows "0 \<le> f64_round x"
proof -
  have ulp: "0 < f64_ulp x" by (simp add: f64_ulp_def)
  then have "0 \<le> round_half_even (x / f64_ulp x)" using assms by (intro round_half_even_nonneg) simp
  with ulp show ?thesis by (simp add: f64_round_def)
qed

text \<open>Below \<open>2 ^ 53\<close> the spacing divides one: integers are exact, and rounding does not cross an integer.\<close>

lemma f64_ulp_small:
  assumes "0 < x" and "x < 2 ^ 53"
  shows "\<exists>k. f64_ulp x = 1 / 2 ^ k"
proof -
  define e where "e = f64_exponent x"
  have "pow2 e < pow2 53" using f64_exponent_le [OF assms(1)] assms(2) by (simp add: e_def pow2_def [of 53])
  then have "e < 53"
  proof (rule contrapos_pp)
    assume "\<not> e < 53"
    then have "pow2 e = pow2 53 * pow2 (int (nat (e - 53)))" by (simp flip: pow2_add)
    moreover have "pow2 53 * 1 \<le> pow2 53 * (2 ^ nat (e - 53))" by (rule mult_left_mono) (simp_all add: less_imp_le)
    ultimately show "\<not> pow2 e < pow2 53" by (simp only: pow2_nat mult_1_right not_less)
  qed
  then have "f64_ulp x = 1 / 2 ^ nat (- max (e - 52) (- 1074))"
    using assms(1) by (cases "max (e - 52) (- 1074) = 0") (simp_all add: f64_ulp_def e_def pow2_def)
  then show ?thesis by blast
qed

lemma f64_round_int:
  assumes "n < 2 ^ 53"
  shows "f64_round (of_nat n) = of_nat n"
proof (cases "n = 0")
  case False
  have "(of_nat n :: rat) < of_nat (2 ^ 53)" using assms by (simp only: of_nat_less_iff)
  then obtain k where ulp: "f64_ulp (of_nat n) = 1 / 2 ^ k"
    using f64_ulp_small [of "of_nat n"] False by auto
  then have "of_nat n / f64_ulp (of_nat n) = of_int (int n * 2 ^ k)" by simp
  then have "round_half_even (of_nat n / f64_ulp (of_nat n)) = int n * 2 ^ k" by (simp only: round_half_even_int)
  then show ?thesis using False by (simp add: f64_round_def ulp)
qed (simp add: f64_round_def)

lemma round_half_even_le: "m \<le> of_int z \<Longrightarrow> round_half_even m \<le> z"
proof -
  assume le: "m \<le> of_int z"
  then have fl: "\<lfloor>m\<rfloor> \<le> z" by (simp add: floor_le_iff)
  show ?thesis
  proof (cases "\<lfloor>m\<rfloor> = z")
    case True
    then have "m = of_int z" using le of_int_floor_le [of m] by simp
    then show ?thesis by simp
  next
    case False
    then have "\<lfloor>m\<rfloor> + 1 \<le> z" using fl by simp
    then show ?thesis by (auto simp: round_half_even_def Let_def)
  qed
qed

lemma f64_round_le:
  assumes "0 \<le> x" and "x \<le> of_nat n" and "n < 2 ^ 53"
  shows "f64_round x \<le> of_nat n"
proof (cases "x = 0")
  case False
  have "(of_nat n :: rat) < of_nat (2 ^ 53)" using assms(3) by (simp only: of_nat_less_iff)
  then obtain k where ulp: "f64_ulp x = 1 / 2 ^ k"
    using f64_ulp_small [of x] False assms by auto
  have "x / f64_ulp x \<le> of_int (int n * 2 ^ k)" using assms(2) by (simp add: ulp)
  then have "round_half_even (x / f64_ulp x) \<le> int n * 2 ^ k" by (rule round_half_even_le)
  then have "rat_of_int (round_half_even (x / f64_ulp x)) \<le> rat_of_int (int n * 2 ^ k)" by (simp only: of_int_le_iff)
  then show ?thesis using False by (simp add: f64_round_def ulp pos_divide_le_eq)
qed (simp add: f64_round_def)

section \<open>Buckets\<close>

text \<open>
  A limiter whose parameters are small positive integers, with every bucket between empty and full. The
  limiters of the default policy are of this kind.
\<close>

definition limiter_ok :: "rate_limiter \<Rightarrow> bool" where
  "limiter_ok rl \<longleftrightarrow> (\<exists>c. capacity rl = of_nat c \<and> 0 < c \<and> c < 2 ^ 53) \<and> 0 < refill_rate rl \<and>
     (\<forall>key b. hm_get (buckets rl) key = Some b \<longrightarrow> 0 \<le> tokens b \<and> tokens b \<le> capacity rl)"

lemma as_secs_nonneg: "0 \<le> as_secs_f64 ns"
  by (simp add: as_secs_f64_def f64_add_def f64_div_def f64_of_u64_def f64_round_nonneg)

lemma refilled_bounds:
  assumes "0 \<le> tokens b" and "0 < refill_rate rl" and "0 \<le> capacity rl"
  shows "0 \<le> refilled rl now b" and "refilled rl now b \<le> capacity rl"
proof -
  have "0 \<le> f64_mul (as_secs_f64 (now - last_update b)) (refill_rate rl)"
    using as_secs_nonneg assms(2) by (simp add: f64_mul_def f64_round_nonneg)
  with assms show "0 \<le> refilled rl now b"
    by (simp add: refilled_def f64_add_def f64_round_nonneg)
qed (simp add: refilled_def)

lemma rl_check_ok:
  assumes ok: "limiter_ok rl" and run: "rl_check now key rl = (r, rl')"
  shows "limiter_ok rl'" and "capacity rl' = capacity rl" and "refill_rate rl' = refill_rate rl"
    and "key' \<noteq> key \<Longrightarrow> hm_get (buckets rl') key' = hm_get (buckets rl) key'" and "r = Inl w \<Longrightarrow> 1 \<le> w"
proof -
  obtain c where c: "capacity rl = of_nat c" "0 < c" "c < 2 ^ 53" and rate: "0 < refill_rate rl"
    using ok by (auto simp: limiter_ok_def)
  define b where "b = hm_get_or \<lparr>tokens = capacity rl, last_update = now\<rparr> (buckets rl) key"
  have "0 \<le> tokens b"
    using ok c by (auto simp: b_def hm_get_or_def limiter_ok_def split: option.split)
  then have avail: "0 \<le> refilled rl now b" "refilled rl now b \<le> capacity rl"
    using refilled_bounds [OF _ rate] c by simp_all
  have sub: "0 \<le> f64_sub (refilled rl now b) 1" "f64_sub (refilled rl now b) 1 \<le> capacity rl" if "1 \<le> refilled rl now b"
    using that avail c by (auto simp: f64_sub_def intro!: f64_round_nonneg f64_round_le)
  have rl': "\<exists>b'. rl' = rl\<lparr>buckets := hm_insert key b' (buckets rl)\<rparr> \<and> 0 \<le> tokens b' \<and> tokens b' \<le> capacity rl"
    using run [unfolded rl_check_def Let_def, folded b_def] sub avail by (auto split: if_splits)
  then show "limiter_ok rl'"
    using ok by (auto simp: limiter_ok_def AList.update_conv' split: if_splits)
  from rl' show "capacity rl' = capacity rl" "refill_rate rl' = refill_rate rl"
    "key' \<noteq> key \<Longrightarrow> hm_get (buckets rl') key' = hm_get (buckets rl) key'" by (auto simp: AList.update_conv')
  show "r = Inl w \<Longrightarrow> 1 \<le> w" using run by (auto simp: rl_check_def Let_def split: if_splits)
qed

text \<open>A request at the time of the last one, with \<open>n\<close> tokens left, takes exactly one token; with none it waits.\<close>

lemma rl_check_instant:
  assumes ok: "limiter_ok rl" and n: "of_nat n \<le> capacity rl"
    and b: "hm_get_or \<lparr>tokens = capacity rl, last_update = now\<rparr> (buckets rl) key = \<lparr>tokens = of_nat n, last_update = now\<rparr>"
  shows "\<exists>r rl'. rl_check now key rl = (r, rl') \<and> ((\<exists>u. r = Inr u) \<longleftrightarrow> 0 < n) \<and>
    hm_get (buckets rl') key = Some \<lparr>tokens = of_nat (n - 1), last_update = now\<rparr>"
proof -
  obtain c where c: "capacity rl = of_nat c" "c < 2 ^ 53" using ok by (auto simp: limiter_ok_def)
  then have lt: "n < 2 ^ 53" using n by simp
  have zero: "as_secs_f64 0 = 0" by (simp add: as_secs_f64_def f64_add_def f64_of_u64_def f64_div_def f64_round_def)
  have avail: "refilled rl now \<lparr>tokens = of_nat n, last_update = now\<rparr> = of_nat n"
    using n f64_round_int [OF lt] f64_round_int [of 0] by (simp add: refilled_def zero f64_mul_def f64_add_def)
  show ?thesis
  proof (cases "n = 0")
    case True
    then show ?thesis
      using b avail by (simp add: rl_check_def Let_def AList.update_conv')
  next
    case False
    then have "f64_sub (of_nat n) 1 = of_nat (n - 1)"
      using f64_round_int [of "n - 1"] lt by (simp add: f64_sub_def of_nat_diff)
    with False show ?thesis
      using b avail by (simp add: rl_check_def Let_def AList.update_conv')
  qed
qed

text \<open>A burst: a number of requests of one client at one instant, and which of them pass.\<close>

fun burst :: "nat \<Rightarrow> string \<Rightarrow> nat \<Rightarrow> rate_limiter \<Rightarrow> bool list \<times> rate_limiter" where
  "burst now key 0 rl = ([], rl)"
| "burst now key (Suc m) rl =
     (let (r, rl1) = rl_check now key rl; (rs, rl2) = burst now key m rl1 in ((\<exists>u. r = Inr u) # rs, rl2))"

lemma burst_results:
  assumes "limiter_ok rl" and "of_nat n \<le> capacity rl"
    and "hm_get_or \<lparr>tokens = capacity rl, last_update = now\<rparr> (buckets rl) key = \<lparr>tokens = of_nat n, last_update = now\<rparr>"
  shows "fst (burst now key m rl) = map (\<lambda>k. k < n) [0..<m]"
  using assms
proof (induction m arbitrary: n rl)
  case (Suc m)
  obtain r rl1 where check: "rl_check now key rl = (r, rl1)" and r: "(\<exists>u. r = Inr u) \<longleftrightarrow> 0 < n"
    and b: "hm_get (buckets rl1) key = Some \<lparr>tokens = of_nat (n - 1), last_update = now\<rparr>"
    using rl_check_instant [OF Suc.prems] by blast
  note ok = rl_check_ok(1,2) [OF Suc.prems(1) check]
  have "(of_nat (n - 1) :: rat) \<le> of_nat n" by simp
  then have "of_nat (n - 1) \<le> capacity rl1" using Suc.prems(2) ok(2) by simp
  then have "fst (burst now key m rl1) = map (\<lambda>k. k < n - 1) [0..<m]"
    using Suc.IH [OF ok(1)] b by (simp add: hm_get_or_def)
  moreover have "map (\<lambda>k. k < n) [0..<Suc m] = (0 < n) # map (\<lambda>k. k < n - 1) [0..<m]"
    by (simp add: map_upt_Suc less_diff_conv del: upt_Suc)
  ultimately show ?case using check r by (simp add: case_prod_unfold del: upt_Suc)
qed simp

lemma burst_keeps:
  assumes "limiter_ok rl" and "burst now key m rl = (rs, rl')"
  shows "limiter_ok rl' \<and> (key' \<noteq> key \<longrightarrow> hm_get (buckets rl') key' = hm_get (buckets rl) key')"
  using assms
proof (induction m arbitrary: rl rs)
  case (Suc m)
  obtain r rl1 where check: "rl_check now key rl = (r, rl1)" by fastforce
  note ok = rl_check_ok(1,4) [OF Suc.prems(1) check]
  show ?case
    using Suc.IH [OF ok(1)] ok(2) Suc.prems(2) check by (auto simp: Let_def case_prod_unfold prod_eq_iff)
qed simp

text \<open>The requests of one client at one instant, through the middleware, and which of them pass.\<close>

fun requests :: "nat \<Rightarrow> string \<Rightarrow> string list \<Rightarrow> rate_policy \<Rightarrow> bool list \<times> rate_policy" where
  "requests now ip [] p = ([], p)"
| "requests now ip (path # paths) p =
     (let (r, p1) = rate_limit_call now path ip p; (rs, p2) = requests now ip paths p1 in ((\<exists>u. r = Inr u) # rs, p2))"

definition auth_path :: "string \<Rightarrow> bool" where
  "auth_path path \<longleftrightarrow> starts_with path ''/signup'' \<or> starts_with path ''/signin''"

definition trading_path :: "string \<Rightarrow> bool" where
  "trading_path path \<longleftrightarrow> starts_with path ''/order''"

lemma starts_with_nth: "starts_with path prefix \<Longrightarrow> i < length prefix \<Longrightarrow> path ! i = prefix ! i"
  unfolding starts_with_def by (metis nth_take)

lemma path_classes:
  "auth_path path \<Longrightarrow> path \<noteq> ''/reset''" "trading_path path \<Longrightarrow> path \<noteq> ''/reset'' \<and> \<not> auth_path path"
  using starts_with_nth [of path "''/signup''" 1] starts_with_nth [of path "''/signin''" 1] starts_with_nth [of path "''/order''" 1]
  by (auto simp: auth_path_def trading_path_def)

lemma requests_burst:
  "list_all auth_path paths \<Longrightarrow> requests now ip paths p =
     (let (rs, l) = burst now ip (length paths) (auth_limiter p) in (rs, p\<lparr>auth_limiter := l\<rparr>))"
  "list_all trading_path paths \<Longrightarrow> requests now ip paths p =
     (let (rs, l) = burst now ip (length paths) (trading_limiter p) in (rs, p\<lparr>trading_limiter := l\<rparr>))"
  "list_all (\<lambda>path. path \<noteq> ''/reset'' \<and> \<not> auth_path path \<and> \<not> trading_path path) paths \<Longrightarrow> requests now ip paths p =
     (let (rs, l) = burst now ip (length paths) (general_limiter p) in (rs, p\<lparr>general_limiter := l\<rparr>))"
  by (induction paths arbitrary: p)
     (auto simp: rate_limit_call_def Let_def case_prod_unfold path_classes simp flip: auth_path_def trading_path_def)

lemma fresh_burst:
  assumes "limiter_ok rl" and "capacity rl = of_nat c" and "hm_get (buckets rl) key = None"
  shows "fst (burst now key m rl) = map (\<lambda>k. k < c) [0..<m]"
  using burst_results [of rl c now key m] assms by (simp add: hm_get_or_def)

end
