(* ===== verification/Metrics.thy ===== *)
theory Metrics
  imports Gateway
begin

text \<open>
  The metrics (\<^verbatim>\<open>rs-gateway/src/metrics.rs\<close>, \<^verbatim>\<open>routes/metrics.rs\<close>). A metric is registered when it is used for the first
  time; registering a name twice would be a panic. The counters of the hub, of the listener and of the orders are
  kept in the states of these components; the histogram of request durations is here. What Prometheus makes of
  the registered metrics (\<^verbatim>\<open>gather\<close>, \<^verbatim>\<open>encode\<close>, \<^verbatim>\<open>from_utf8\<close>) is the argument \<open>encoder\<close>.
\<close>

section \<open>The registry\<close>

datatype metric_kind = Histogram "rat list" | IntCounter | IntGauge

record metric =
  mt_name :: string
  mt_help :: string
  mt_kind :: metric_kind
  mt_labels :: "string list"

definition HTTP_REQUEST_DURATION :: metric where
  "HTTP_REQUEST_DURATION = \<lparr>mt_name = ''http_request_duration_seconds'', mt_help = ''HTTP request latency in seconds'',
     mt_kind = Histogram [1/4000, 1/2000, 1/1000, 1/400, 1/200, 1/100, 1/40, 1/20, 1/10, 1/4, 1/2, 1],
     mt_labels = [''method'', ''endpoint'', ''status'']\<rparr>"

definition ORDERS_SUBMITTED :: metric where
  "ORDERS_SUBMITTED = \<lparr>mt_name = ''orders_submitted_total'', mt_help = ''Total orders submitted to the exchange'',
     mt_kind = IntCounter, mt_labels = [''market'', ''side'', ''order_type'']\<rparr>"

definition TRADES_EXECUTED :: metric where
  "TRADES_EXECUTED = \<lparr>mt_name = ''trades_executed_total'', mt_help = ''Total trades executed across markets'',
     mt_kind = IntCounter, mt_labels = [''market'']\<rparr>"

definition TREASURY_FEES_COLLECTED :: metric where
  "TREASURY_FEES_COLLECTED = \<lparr>mt_name = ''treasury_fees_collected_total'',
     mt_help = ''Accumulating exchange fee revenue collected in treasury'', mt_kind = IntCounter, mt_labels = [''currency'']\<rparr>"

definition WS_ACTIVE_CONNECTIONS :: metric where
  "WS_ACTIVE_CONNECTIONS = \<lparr>mt_name = ''ws_active_connections'',
     mt_help = ''Current number of active client WebSocket sessions'', mt_kind = IntGauge, mt_labels = []\<rparr>"

definition WS_MESSAGES_BROADCAST :: metric where
  "WS_MESSAGES_BROADCAST = \<lparr>mt_name = ''ws_messages_broadcast_total'', mt_help = ''Total WebSocket messages broadcast across topics'',
     mt_kind = IntCounter, mt_labels = [''channel'']\<rparr>"

definition all_metrics :: "metric list" where
  "all_metrics = [HTTP_REQUEST_DURATION, ORDERS_SUBMITTED, TRADES_EXECUTED, TREASURY_FEES_COLLECTED, WS_ACTIVE_CONNECTIONS,
     WS_MESSAGES_BROADCAST]"

text \<open>\<^verbatim>\<open>Lazy::force\<close>: registration at the first use, which fails for a name that is taken.\<close>

definition force :: "metric \<Rightarrow> metric list \<Rightarrow> metric list option" where
  "force m registry =
     (if m \<in> set registry then Some registry
      else if mt_name m \<in> mt_name ` set registry then None
      else Some (registry @ [m]))"

fun force_all :: "metric list \<Rightarrow> metric list \<Rightarrow> metric list option" where
  "force_all [] registry = Some registry"
| "force_all (m # ms) registry = do { registry' \<leftarrow> force m registry; force_all ms registry' }"

definition render_metrics :: "(metric list \<Rightarrow> string + string) \<Rightarrow> metric list \<Rightarrow> (metric list \<times> (string + string)) option" where
  "render_metrics encoder registry =
     do { registry' \<leftarrow> force_all all_metrics registry; Some (registry', encoder registry') }"

definition get_metrics :: "(metric list \<Rightarrow> string + string) \<Rightarrow> metric list \<Rightarrow> (metric list \<times> http) option" where
  "get_metrics encoder registry =
     do { (registry', r) \<leftarrow> render_metrics encoder registry;
          Some (registry', (case r of Inr body \<Rightarrow> Http 200 (PlainText body)
                            | Inl e \<Rightarrow> Http 500 (ErrorText (''Metrics encode error: '' @ e)))) }"

text \<open>However many metrics are in use already, the six names do not clash and all of them are rendered, each once.\<close>

lemma metric_names: "distinct (map mt_name all_metrics)"
  by (simp add: all_metrics_def HTTP_REQUEST_DURATION_def ORDERS_SUBMITTED_def TRADES_EXECUTED_def TREASURY_FEES_COLLECTED_def
      WS_ACTIVE_CONNECTIONS_def WS_MESSAGES_BROADCAST_def)

lemma same_name: "m \<in> set all_metrics \<Longrightarrow> n \<in> set all_metrics \<Longrightarrow> mt_name m = mt_name n \<Longrightarrow> m = n"
  using metric_names by (auto simp: distinct_map dest: inj_onD)

lemma force_all_ok:
  assumes "set ms \<subseteq> set all_metrics" and "set registry \<subseteq> set all_metrics" and "distinct registry"
  shows "\<exists>registry'. force_all ms registry = Some registry' \<and> set registry' = set registry \<union> set ms \<and> distinct registry'"
  using assms
proof (induction ms arbitrary: registry)
  case (Cons m ms)
  have "mt_name m \<notin> mt_name ` set registry" if "m \<notin> set registry"
    using that Cons.prems same_name [of m] by auto
  then obtain r where r: "force m registry = Some r" "set r = insert m (set registry)" "distinct r"
    using Cons.prems(3) by (cases "m \<in> set registry") (auto simp: force_def)
  then show ?case using Cons.IH [of r] Cons.prems by auto
qed simp

lemma metrics_rendered:
  assumes "set registry \<subseteq> set all_metrics" and "distinct registry"
  shows "\<exists>registry'. get_metrics encoder registry = Some (registry', case encoder registry' of
      Inr body \<Rightarrow> Http 200 (PlainText body) | Inl e \<Rightarrow> Http 500 (ErrorText (''Metrics encode error: '' @ e))) \<and>
    set registry' = set all_metrics \<and> distinct registry'"
  using force_all_ok [OF subset_refl assms] assms(1) by (auto simp: get_metrics_def render_metrics_def)

section \<open>Request durations\<close>

text \<open>The observed durations of a histogram, by the values of its labels (method, path, status).\<close>

type_synonym durations = "(string \<times> string \<times> string, rat list) hash_map"

definition observe :: "string \<times> string \<times> string \<Rightarrow> rat \<Rightarrow> durations \<Rightarrow> durations" where
  "observe labels elapsed d = hm_insert labels (hm_get_or [] d labels @ [elapsed]) d"

lemma observe_get:
  "hm_get_or [] (observe labels elapsed d) labels' = hm_get_or [] d labels' @ (if labels' = labels then [elapsed] else [])"
  by (simp add: observe_def kv_simps)

end
