(* ===== verification/Router.thy ===== *)
theory Router
  imports Routes Rate_Limit Metrics
begin

text \<open>
  The gateway as a server: rate limiting (\<^verbatim>\<open>rate_limit/middleware.rs\<close>), measuring (\<^verbatim>\<open>main.rs\<close>), the route table
  (\<^verbatim>\<open>routes/mod.rs\<close>), extraction of the parameters, and the handlers. What actix-web extracts from the body and
  the path, and its own responses, are arguments; so is what the database answers to the reading routes.
  \<^verbatim>\<open>App::route\<close> adds its method as a guard of the resource, so that a request is handled by the first entry
  whose pattern and method both match, and is not found otherwise.
\<close>

section \<open>The route table\<close>

datatype verb = GET | POST | DELETE | OtherVerb string

fun method_name :: "verb \<Rightarrow> string" where
  "method_name GET = ''GET''"
| "method_name POST = ''POST''"
| "method_name DELETE = ''DELETE''"
| "method_name (OtherVerb name) = name"

datatype endpoint =
    EpSignup | EpSignin
  | EpBalance | EpOnramp | EpDeposit string | EpLedger
  | EpPlaceOrder | EpGetOrder string | EpCancelOrder string | EpOpenOrders | EpMyTrades
  | EpOrderbook string | EpMarketTrades string
  | EpWs | EpMetrics | EpReset

fun segments :: "string \<Rightarrow> string list" where
  "segments [] = [[]]"
| "segments (c # cs) =
     (if c = CHR ''/'' then [] # segments cs
      else case segments cs of [] \<Rightarrow> [[c]] | s # ss \<Rightarrow> (c # s) # ss)"

text \<open>A pattern \<^verbatim>\<open>/name/{x}\<close> matches one non-empty segment.\<close>

definition with_param :: "string \<Rightarrow> string list \<Rightarrow> (string \<Rightarrow> endpoint) \<Rightarrow> endpoint option" where
  "with_param name path ep =
     (case path of [r, n, x] \<Rightarrow> if r = [] \<and> n = name \<and> x \<noteq> [] then Some (ep x) else None | _ \<Rightarrow> None)"

definition configure :: "verb \<Rightarrow> string list \<Rightarrow> endpoint option" where
  "configure v path =
     (if v = POST \<and> path = [[], ''signup''] then Some EpSignup
      else if v = POST \<and> path = [[], ''signin''] then Some EpSignin
      else if v = GET \<and> path = [[], ''balance''] then Some EpBalance
      else if v = POST \<and> path = [[], ''onramp''] then Some EpOnramp
      else if v = POST \<and> with_param ''deposit'' path EpDeposit \<noteq> None then with_param ''deposit'' path EpDeposit
      else if v = GET \<and> path = [[], ''ledger''] then Some EpLedger
      else if v = POST \<and> path = [[], ''order''] then Some EpPlaceOrder
      else if v = GET \<and> with_param ''order'' path EpGetOrder \<noteq> None then with_param ''order'' path EpGetOrder
      else if v = DELETE \<and> with_param ''order'' path EpCancelOrder \<noteq> None then with_param ''order'' path EpCancelOrder
      else if v = GET \<and> path = [[], ''orders'', ''open''] then Some EpOpenOrders
      else if v = GET \<and> path = [[], ''trades'', ''my''] then Some EpMyTrades
      else if v = GET \<and> with_param ''orderbook'' path EpOrderbook \<noteq> None then with_param ''orderbook'' path EpOrderbook
      else if v = GET \<and> with_param ''trades'' path EpMarketTrades \<noteq> None then with_param ''trades'' path EpMarketTrades
      else if v = GET \<and> path = [[], ''ws''] then Some EpWs
      else if v = GET \<and> path = [[], ''metrics''] then Some EpMetrics
      else if v = POST \<and> path = [[], ''reset''] then Some EpReset
      else None)"

section \<open>Requests\<close>

record http_request =
  hr_verb :: verb
  hr_path :: string
  hr_client_ip :: string
  hr_authorization :: "string option"
  hr_body :: string

text \<open>The extractors of actix-web and serde, and the responses that are not made by the handlers.\<close>

record framework =
  fw_signup :: "string \<Rightarrow> signup_body option"
  fw_signin :: "string \<Rightarrow> signin_body option"
  fw_qty :: "string \<Rightarrow> nat option"
  fw_order :: "string \<Rightarrow> order_body option"
  fw_text :: "string \<Rightarrow> string option"
  fw_u64 :: "string \<Rightarrow> nat option"
  fw_bad_input :: http
  fw_not_found :: http
  fw_upgrade :: http
  fw_encoder :: "metric list \<Rightarrow> string + string"
  fw_panicked :: http

text \<open>
  Libraries, clocks and identifiers, the metrics in use, and the two states of the database that a reading
  route sees.
\<close>

record 'h world =
  wd_argon2 :: "'h argon2"
  wd_join :: "string option"
  wd_salt :: string
  wd_jwt_encode :: "claims \<Rightarrow> string option"
  wd_jwt_decode :: "string \<Rightarrow> claims option"
  wd_uuid :: string
  wd_instant :: nat
  wd_started :: nat
  wd_finished :: nat
  wd_utc_secs :: nat
  wd_published :: bool
  wd_users :: "users_db option"
  wd_tables :: "ledger_db option"
  wd_tables2 :: "ledger_db option"
  wd_oldest :: "trade_row list \<Rightarrow> trade_row list"
  wd_newest :: "trade_row list \<Rightarrow> trade_row list"
  wd_newest_entries :: "ledger_entry list \<Rightarrow> ledger_entry list"
  wd_registry :: "metric list"

record 'j gateway_state =
  gs_policy :: rate_policy
  gs_gateway :: gateway
  gs_users :: users_db
  gs_ledger :: ledger_db
  gs_snapshots :: "'j snapshot_table"
  gs_durations :: durations
  gs_inflight :: "(string, string \<times> string \<times> nat) hash_map"

definition extracted :: "framework \<Rightarrow> 'a option \<Rightarrow> ('a \<Rightarrow> route) \<Rightarrow> route" where
  "extracted fw x handler = (case x of None \<Rightarrow> Respond (fw_bad_input fw) | Some a \<Rightarrow> handler a)"

definition private_routes ::
  "gateway_env \<Rightarrow> framework \<Rightarrow> 'h world \<Rightarrow> string \<Rightarrow> endpoint \<Rightarrow> nat \<Rightarrow> route" where
  "private_routes env fw w body ep u =
     (case ep of
        EpBalance \<Rightarrow> get_balance env (wd_uuid w) u
      | EpOnramp \<Rightarrow> extracted fw (fw_qty fw body) (onramp env (wd_uuid w) u)
      | EpDeposit x \<Rightarrow> extracted fw (fw_text fw x) (\<lambda>asset. extracted fw (fw_qty fw body) (deposit env (wd_uuid w) u asset))
      | EpLedger \<Rightarrow> Respond (get_ledger (wd_newest_entries w) (wd_tables w) u)
      | EpPlaceOrder \<Rightarrow> extracted fw (fw_order fw body) (place_order env (wd_uuid w) u)
      | EpGetOrder x \<Rightarrow> extracted fw (fw_u64 fw x)
          (get_order_route env (wd_oldest w) (wd_uuid w) (wd_tables w) (wd_tables2 w) u)
      | EpCancelOrder x \<Rightarrow> extracted fw (fw_u64 fw x) (cancel_order_route env (wd_uuid w) u)
      | EpOpenOrders \<Rightarrow> get_open_orders env (wd_uuid w) u
      | EpMyTrades \<Rightarrow> Respond (get_my_trades (wd_newest w) (wd_tables w) u)
      | _ \<Rightarrow> Respond (fw_not_found fw))"

definition is_private :: "endpoint \<Rightarrow> bool" where
  "is_private ep =
     (case ep of EpBalance \<Rightarrow> True | EpOnramp \<Rightarrow> True | EpDeposit _ \<Rightarrow> True | EpLedger \<Rightarrow> True | EpPlaceOrder \<Rightarrow> True
      | EpGetOrder _ \<Rightarrow> True | EpCancelOrder _ \<Rightarrow> True | EpOpenOrders \<Rightarrow> True | EpMyTrades \<Rightarrow> True | _ \<Rightarrow> False)"

definition handle_endpoint ::
  "gateway_env \<Rightarrow> framework \<Rightarrow> 'h world \<Rightarrow> http_request \<Rightarrow> endpoint \<Rightarrow> 'j gateway_state \<Rightarrow> 'j gateway_state \<times> route" where
  "handle_endpoint env fw w req ep s =
     (if is_private ep
      then (s, authorized (wd_jwt_decode w) (hr_authorization req) (private_routes env fw w (hr_body req) ep))
      else case ep of
        EpSignup \<Rightarrow>
          (case fw_signup fw (hr_body req) of
             None \<Rightarrow> (s, Respond (fw_bad_input fw))
           | Some b \<Rightarrow> (let (db, r) = signup env (wd_uuid w) (hash_password (wd_argon2 w) (wd_join w) (wd_salt w)) b (gs_users s) in (s\<lparr>gs_users := db\<rparr>, r)))
      | EpSignin \<Rightarrow> (s, extracted fw (fw_signin fw (hr_body req))
          (\<lambda>b. Respond (signin (verify_password (wd_argon2 w) (wd_join w)) (wd_jwt_encode w) (wd_utc_secs w) b (wd_users w))))
      | EpOrderbook x \<Rightarrow> (s, extracted fw (fw_text fw x) (get_orderbook_route env (wd_uuid w)))
      | EpMarketTrades x \<Rightarrow> (s, extracted fw (fw_text fw x) (\<lambda>asset. Respond (get_market_trades (wd_newest w) (wd_tables w) asset)))
      | EpWs \<Rightarrow> (s, Respond (fw_upgrade fw))
      | EpMetrics \<Rightarrow> (s, Respond (case get_metrics (fw_encoder fw) (wd_registry w) of None \<Rightarrow> fw_panicked fw | Some (_, r) \<Rightarrow> r))
      | EpReset \<Rightarrow>
          (let (db, sn, us, r) = reset_route env (wd_uuid w) (gs_ledger s) (gs_snapshots s) (gs_users s)
           in (s\<lparr>gs_ledger := db, gs_snapshots := sn, gs_users := us\<rparr>, r))
      | _ \<Rightarrow> (s, Respond (fw_not_found fw)))"

section \<open>Serving\<close>

text \<open>The wrapped application: the route table and the handlers, up to the response or to the wait for the engine (\<open>None\<close>).\<close>

definition call_routes ::
  "gateway_env \<Rightarrow> framework \<Rightarrow> 'h world \<Rightarrow> http_request \<Rightarrow> 'j gateway_state \<Rightarrow> 'j gateway_state \<times> http option" where
  "call_routes env fw w req s =
     (case configure (hr_verb req) (segments (hr_path req)) of
        None \<Rightarrow> (s, Some (fw_not_found fw))
      | Some ep \<Rightarrow>
          (let (s1, r) = handle_endpoint env fw w req ep s;
               (g, resp) = begin_request (wd_published w) r (gs_gateway s1)
           in (s1\<lparr>gs_gateway := g\<rparr>, resp)))"

text \<open>The measurement that \<^verbatim>\<open>main\<close> wraps around it: when the response is there, its duration is observed.\<close>

fun status_of :: "http \<Rightarrow> nat" where
  "status_of (Http status body) = status"

definition record_duration :: "string \<Rightarrow> string \<Rightarrow> nat \<Rightarrow> nat \<Rightarrow> http \<Rightarrow> 'j gateway_state \<Rightarrow> 'j gateway_state" where
  "record_duration method path start finish resp s =
     (if starts_with path ''/metrics'' then s
      else s\<lparr>gs_durations := observe (method, path, show_nat (status_of resp)) (as_secs_f64 (finish - start)) (gs_durations s)\<rparr>)"

definition measured ::
  "gateway_env \<Rightarrow> framework \<Rightarrow> 'h world \<Rightarrow> http_request \<Rightarrow> 'j gateway_state \<Rightarrow> 'j gateway_state \<times> http option" where
  "measured env fw w req s =
     (case call_routes env fw w req s of
        (s1, Some resp) \<Rightarrow> (record_duration (method_name (hr_verb req)) (hr_path req) (wd_started w) (wd_finished w) resp s1, Some resp)
      | (s1, None) \<Rightarrow>
          (s1\<lparr>gs_inflight := hm_insert (wd_uuid w) (method_name (hr_verb req), hr_path req, wd_started w) (gs_inflight s1)\<rparr>, None))"

text \<open>
  The rate limiter is registered after the measurement and therefore runs outside of it: what it rejects
  is not measured.
\<close>

definition serve ::
  "gateway_env \<Rightarrow> framework \<Rightarrow> 'h world \<Rightarrow> http_request \<Rightarrow> 'j gateway_state \<Rightarrow> 'j gateway_state \<times> http option" where
  "serve env fw w req s =
     (case rate_limit_call (wd_instant w) (hr_path req) (hr_client_ip req) (gs_policy s) of
        (Inl wait_secs, p) \<Rightarrow>
          (s\<lparr>gs_policy := p\<rparr>, Some (Http 429 (TooManyRequests ''Too many requests. Please slow down.'' wait_secs)))
      | (Inr _, p) \<Rightarrow> measured env fw w req (s\<lparr>gs_policy := p\<rparr>))"

text \<open>A reply completes a waiting request, and then the rest of its measurement runs.\<close>

definition complete :: "gateway_env \<Rightarrow> nat \<Rightarrow> string \<Rightarrow> 'j gateway_state \<Rightarrow> 'j gateway_state \<times> (string \<times> http) option" where
  "complete env finish data s =
     (case on_reply (ge_replies env) data (gs_gateway s) of
        (g, None) \<Rightarrow> (s\<lparr>gs_gateway := g\<rparr>, None)
      | (g, Some (i, resp)) \<Rightarrow>
          (case hm_get (gs_inflight s) i of
             None \<Rightarrow> (s\<lparr>gs_gateway := g\<rparr>, Some (i, resp))
           | Some (method, path, start) \<Rightarrow>
               (record_duration method path start finish resp (s\<lparr>gs_gateway := g, gs_inflight := hm_remove i (gs_inflight s)\<rparr>),
                Some (i, resp))))"

lemma record_duration_frame [simp]:
  "gs_policy (record_duration m pa st fi r s) = gs_policy s" "gs_gateway (record_duration m pa st fi r s) = gs_gateway s"
  "gs_users (record_duration m pa st fi r s) = gs_users s" "gs_ledger (record_duration m pa st fi r s) = gs_ledger s"
  "gs_snapshots (record_duration m pa st fi r s) = gs_snapshots s" "gs_inflight (record_duration m pa st fi r s) = gs_inflight s"
  by (simp_all add: record_duration_def)

lemma record_duration_get:
  "\<not> starts_with path ''/metrics'' \<Longrightarrow> hm_get_or [] (gs_durations (record_duration method path start finish resp s)) labels =
     hm_get_or [] (gs_durations s) labels @
       (if labels = (method, path, show_nat (status_of resp)) then [as_secs_f64 (finish - start)] else [])"
  by (simp add: record_duration_def observe_get)

lemma measured_frame:
  assumes "measured env fw w req s = (s', resp)" and "call_routes env fw w req s = (s1, r)"
  shows "resp = r \<and> gs_gateway s' = gs_gateway s1 \<and> gs_users s' = gs_users s1 \<and> gs_ledger s' = gs_ledger s1 \<and>
    gs_snapshots s' = gs_snapshots s1"
  using assms by (auto simp: measured_def split: option.splits)

lemma call_routes_durations:
  assumes "call_routes env fw w req s = (s', resp)"
  shows "gs_durations s' = gs_durations s \<and> gs_inflight s' = gs_inflight s"
  using assms
  by (auto simp: call_routes_def handle_endpoint_def split: option.splits prod.splits endpoint.splits if_splits)

text \<open>
  A request that the rate limiter passes is measured exactly once: at once if it is answered at once, and
  otherwise when the reply completes it; what the rate limiter rejects is never measured.
\<close>

lemma limited_unmeasured:
  assumes "rate_limit_call (wd_instant w) (hr_path req) (hr_client_ip req) (gs_policy s) = (Inl t, p)"
    and "serve env fw w req s = (s', resp)"
  shows "gs_durations s' = gs_durations s \<and> gs_inflight s' = gs_inflight s \<and>
    resp = Some (Http 429 (TooManyRequests ''Too many requests. Please slow down.'' t))"
  using assms by (auto simp: serve_def)

lemma admitted_measured:
  assumes "rate_limit_call (wd_instant w) (hr_path req) (hr_client_ip req) (gs_policy s) = (Inr x, p)"
    and "serve env fw w req s = (s', resp)" and "\<not> starts_with (hr_path req) ''/metrics''"
  shows "case resp of
      Some r \<Rightarrow> gs_inflight s' = gs_inflight s \<and> (\<forall>labels. hm_get_or [] (gs_durations s') labels = hm_get_or [] (gs_durations s) labels @
        (if labels = (method_name (hr_verb req), hr_path req, show_nat (status_of r)) then [as_secs_f64 (wd_finished w - wd_started w)] else []))
    | None \<Rightarrow> gs_durations s' = gs_durations s \<and>
        hm_get (gs_inflight s') (wd_uuid w) = Some (method_name (hr_verb req), hr_path req, wd_started w)"
proof -
  obtain s1 r where c: "call_routes env fw w req (s\<lparr>gs_policy := p\<rparr>) = (s1, r)" by fastforce
  show ?thesis
    using assms c call_routes_durations [OF c]
    by (cases r) (auto simp: serve_def measured_def record_duration_get AList.update_conv')
qed

lemma completed_measured:
  assumes "on_reply (ge_replies env) data (gs_gateway s) = (g, Some (i, resp))" and "hm_get (gs_inflight s) i = Some (method, path, start)"
    and "complete env finish data s = (s', r)" and "\<not> starts_with path ''/metrics''"
  shows "r = Some (i, resp) \<and> hm_get (gs_inflight s') i = None \<and> (\<forall>labels. hm_get_or [] (gs_durations s') labels =
    hm_get_or [] (gs_durations s) labels @ (if labels = (method, path, show_nat (status_of resp)) then [as_secs_f64 (finish - start)] else []))"
  using assms by (auto simp: complete_def record_duration_get AList.delete_conv')

section \<open>On whose behalf a command is published\<close>

definition command_of :: "request_codec \<Rightarrow> nat \<Rightarrow> string \<Rightarrow> string \<Rightarrow> bool" where
  "command_of rq u channel data \<longleftrightarrow>
     channel = CH_BALANCE \<and> (\<exists>m. enc_balance rq m = Some data \<and> bq_user_id m = u) \<or>
     channel = CH_ONRAMP \<and> (\<exists>m. enc_onramp rq m = Some data \<and> on_user_id m = u) \<or>
     channel = CH_DEPOSIT \<and> (\<exists>m. enc_deposit rq m = Some data \<and> dp_user_id m = u) \<or>
     channel = CH_ORDER \<and> (\<exists>m. enc_order rq m = Some data \<and> om_user_id m = u) \<or>
     channel = CH_CANCEL \<and> (\<exists>m. enc_cancel rq m = Some data \<and> cm_user_id m = u) \<or>
     channel = CH_OPEN_ORDERS \<and> (\<exists>m. enc_open_orders rq m = Some data \<and> ooq_user_id m = u) \<or>
     channel = CH_ORDER_STATUS \<and> (\<exists>m. enc_order_status rq m = Some data \<and> osq_user_id m = u)"

definition acts_for :: "request_codec \<Rightarrow> nat \<Rightarrow> route \<Rightarrow> bool" where
  "acts_for rq u r =
     (case r of Respond _ \<Rightarrow> True | Await channel json _ _ \<Rightarrow> (case json of None \<Rightarrow> True | Some d \<Rightarrow> command_of rq u channel d))"

named_theorems acts_intros

lemma acts_respond [acts_intros]: "acts_for rq u (Respond r)"
  by (simp add: acts_for_def)

lemma acts_extracted [acts_intros]: "(\<And>a. acts_for rq u (handler a)) \<Longrightarrow> acts_for rq u (extracted fw x handler)"
  by (simp add: extracted_def acts_respond split: option.split)

lemma acts_await: "(\<And>d. json = Some d \<Longrightarrow> command_of rq u channel d) \<Longrightarrow> acts_for rq u (send_and_wait dec channel json i k)"
  by (simp add: acts_for_def send_and_wait_def split: option.split)

lemma command_ofI [acts_intros]:
  "enc_balance rq m1 = Some d \<Longrightarrow> bq_user_id m1 = u \<Longrightarrow> command_of rq u CH_BALANCE d"
  "enc_onramp rq m2 = Some d \<Longrightarrow> on_user_id m2 = u \<Longrightarrow> command_of rq u CH_ONRAMP d"
  "enc_deposit rq m3 = Some d \<Longrightarrow> dp_user_id m3 = u \<Longrightarrow> command_of rq u CH_DEPOSIT d"
  "enc_order rq m4 = Some d \<Longrightarrow> om_user_id m4 = u \<Longrightarrow> command_of rq u CH_ORDER d"
  "enc_cancel rq m5 = Some d \<Longrightarrow> cm_user_id m5 = u \<Longrightarrow> command_of rq u CH_CANCEL d"
  "enc_open_orders rq m6 = Some d \<Longrightarrow> ooq_user_id m6 = u \<Longrightarrow> command_of rq u CH_OPEN_ORDERS d"
  "enc_order_status rq m7 = Some d \<Longrightarrow> osq_user_id m7 = u \<Longrightarrow> command_of rq u CH_ORDER_STATUS d"
  unfolding command_of_def by blast+

lemma acts_simple_routes [acts_intros]:
  "acts_for (ge_requests env) u (get_balance env i u)" "acts_for (ge_requests env) u (get_open_orders env i u)"
  "acts_for (ge_requests env) u (cancel_order_route env i u oid)"
  unfolding get_balance_def get_open_orders_def cancel_order_route_def
  by (rule acts_await, rule acts_intros, assumption, simp)+

lemma acts_checked_routes [acts_intros]:
  "acts_for (ge_requests env) u (onramp env i u qty)" "acts_for (ge_requests env) u (deposit env i u asset qty)"
  "acts_for (ge_requests env) u (place_order env i u b)"
proof -
  show "acts_for (ge_requests env) u (onramp env i u qty)"
    unfolding onramp_def by (cases "onramp_validate qty") (auto intro!: acts_await command_ofI(2) simp: acts_respond)
  show "acts_for (ge_requests env) u (deposit env i u asset qty)"
    unfolding deposit_def by (cases "deposit_validate qty") (auto intro!: acts_await command_ofI(3) simp: acts_respond)
  show "acts_for (ge_requests env) u (place_order env i u b)"
    unfolding place_order_def
    by (cases "order_validate b") (auto intro!: acts_await command_ofI(4) simp: acts_respond order_msg_of_def)
qed

lemma acts_get_order [acts_intros]: "acts_for (ge_requests env) u (get_order_route env oldest i db db' u oid)"
  unfolding get_order_route_def
  by (auto intro!: acts_await command_ofI(7) simp: acts_respond split: option.split)

lemma private_routes_act: "acts_for (ge_requests env) u (private_routes env fw w body ep u)"
  by (cases ep) (simp_all add: private_routes_def acts_intros)

text \<open>A private endpoint without a valid token, and with one.\<close>

lemma handle_private:
  assumes "is_private ep"
  shows "from_request (wd_jwt_decode w) (hr_authorization req) = None \<Longrightarrow>
      handle_endpoint env fw w req ep s = (s, Respond auth_error)"
    and "from_request (wd_jwt_decode w) (hr_authorization req) = Some u \<Longrightarrow>
      \<exists>r. handle_endpoint env fw w req ep s = (s, r) \<and> acts_for (ge_requests env) u r"
  using assms private_routes_act by (simp_all add: handle_endpoint_def authorized_def)

lemma begin_request_acts:
  assumes "acts_for rq u r" and "begin_request p r g = (g', resp)"
  shows "gw_published g' = gw_published g \<or>
    (\<exists>channel data. gw_published g' = gw_published g @ [(channel, data)] \<and> command_of rq u channel data)"
  using assms by (cases r) (auto simp: acts_for_def Let_def split: option.splits if_splits)

end
