(* ===== verification/Http_Roundtrip.thy ===== *)
theory Http_Roundtrip
  imports Router Engine_Run
begin

text \<open>
  From the HTTP request to its response: what the gateway publishes for a request that waits is a command that
  carries the queue of the gateway and the identifier under which the request waits, so that the answer of
  the engine finds its way back.
\<close>

section \<open>Commands carry their address\<close>

text \<open>What is relied on of the JSON codec: the engine decodes what the gateway encoded.\<close>

definition codec_ok :: "request_codec \<Rightarrow> decoders \<Rightarrow> bool" where
  "codec_ok rq dec \<longleftrightarrow>
     (\<forall>m d. enc_signup rq m = Some d \<longrightarrow> dec_signup dec d = Some m) \<and> (\<forall>m d. enc_onramp rq m = Some d \<longrightarrow> dec_onramp dec d = Some m) \<and>
     (\<forall>m d. enc_deposit rq m = Some d \<longrightarrow> dec_deposit dec d = Some m) \<and> (\<forall>m d. enc_balance rq m = Some d \<longrightarrow> dec_balance dec d = Some m) \<and>
     (\<forall>m d. enc_order rq m = Some d \<longrightarrow> dec_order dec d = Some m) \<and> (\<forall>m d. enc_cancel rq m = Some d \<longrightarrow> dec_cancel dec d = Some m) \<and>
     (\<forall>m d. enc_orderbook rq m = Some d \<longrightarrow> dec_orderbook dec d = Some m) \<and>
     (\<forall>m d. enc_open_orders rq m = Some d \<longrightarrow> dec_open_orders dec d = Some m) \<and>
     (\<forall>m d. enc_order_status rq m = Some d \<longrightarrow> dec_order_status dec d = Some m) \<and> (\<forall>m d. enc_reset rq m = Some d \<longrightarrow> dec_reset dec d = Some m)"

lemma codec_okD:
  assumes "codec_ok rq dec"
  shows "enc_signup rq m1 = Some d \<Longrightarrow> dec_signup dec d = Some m1" "enc_onramp rq m2 = Some d \<Longrightarrow> dec_onramp dec d = Some m2"
    "enc_deposit rq m3 = Some d \<Longrightarrow> dec_deposit dec d = Some m3" "enc_balance rq m4 = Some d \<Longrightarrow> dec_balance dec d = Some m4"
    "enc_order rq m5 = Some d \<Longrightarrow> dec_order dec d = Some m5" "enc_cancel rq m6 = Some d \<Longrightarrow> dec_cancel dec d = Some m6"
    "enc_orderbook rq m7 = Some d \<Longrightarrow> dec_orderbook dec d = Some m7" "enc_open_orders rq m8 = Some d \<Longrightarrow> dec_open_orders dec d = Some m8"
    "enc_order_status rq m9 = Some d \<Longrightarrow> dec_order_status dec d = Some m9" "enc_reset rq m10 = Some d \<Longrightarrow> dec_reset dec d = Some m10"
  using assms unfolding codec_ok_def by blast+

definition addressed_route :: "decoders \<Rightarrow> string \<Rightarrow> string \<Rightarrow> route \<Rightarrow> bool" where
  "addressed_route dec q i r =
     (case r of
        Respond _ \<Rightarrow> True
      | Await channel json j _ \<Rightarrow> j = i \<and> (\<forall>d. json = Some d \<longrightarrow> command_address dec channel d = Some (q, i)))"

named_theorems address_intros

lemma addressed_respond [address_intros, simp]: "addressed_route dec q i (Respond r)"
  by (simp add: addressed_route_def)

lemma addressed_extracted [address_intros]:
  "(\<And>a. addressed_route dec q i (handler a)) \<Longrightarrow> addressed_route dec q i (extracted fw x handler)"
  by (simp add: extracted_def split: option.split)

lemma addressed_await:
  "(\<And>d. json = Some d \<Longrightarrow> command_address dec channel d = Some (q, i)) \<Longrightarrow> addressed_route dec q i (send_and_wait f channel json i k)"
  by (simp add: addressed_route_def send_and_wait_def)

lemmas address_simps = command_address_def channel_defs order_msg_of_def

lemma addressed_routes [address_intros]:
  assumes "codec_ok (ge_requests env) dec"
  shows "addressed_route dec (ge_queue_id env) i (get_balance env i u)" "addressed_route dec (ge_queue_id env) i (get_open_orders env i u)"
    "addressed_route dec (ge_queue_id env) i (cancel_order_route env i u oid)" "addressed_route dec (ge_queue_id env) i (onramp env i u qty)"
    "addressed_route dec (ge_queue_id env) i (deposit env i u asset qty)" "addressed_route dec (ge_queue_id env) i (place_order env i u b)"
    "addressed_route dec (ge_queue_id env) i (get_order_route env oldest i db db' u oid)"
    "addressed_route dec (ge_queue_id env) i (get_orderbook_route env i asset)"
  unfolding get_balance_def get_open_orders_def cancel_order_route_def onramp_def deposit_def place_order_def get_order_route_def
    get_orderbook_route_def
  by (auto intro!: addressed_await dest!: codec_okD [OF assms] simp: address_simps split: sum.split option.split)

lemma addressed_changing:
  assumes "codec_ok (ge_requests env) dec"
  shows "signup env i hashing body db = (db1, r1) \<Longrightarrow> addressed_route dec (ge_queue_id env) i r1"
    and "reset_route env i ledger sn us = (db2, sn', us', r2) \<Longrightarrow> addressed_route dec (ge_queue_id env) i r2"
  by (auto intro!: addressed_await dest!: codec_okD [OF assms] simp: signup_def reset_route_def address_simps
      split: sum.splits prod.splits bool.splits)

lemma handle_endpoint_addressed:
  assumes codec: "codec_ok (ge_requests env) dec" and run: "handle_endpoint env fw w req ep s = (s', r)"
  shows "addressed_route dec (ge_queue_id env) (wd_uuid w) r \<and> gs_gateway s' = gs_gateway s"
proof (cases "is_private ep")
  case True
  have "addressed_route dec (ge_queue_id env) (wd_uuid w) (private_routes env fw w body ep u)" for body u
    by (cases ep) (simp_all add: private_routes_def address_intros codec)
  with True run show ?thesis by (auto simp: handle_endpoint_def authorized_def split: option.splits)
next
  case False
  with run show ?thesis
    by (cases ep) (auto simp: handle_endpoint_def is_private_def addressed_changing [OF codec] addressed_routes [OF codec]
        intro: addressed_extracted split: option.splits prod.splits)
qed

section \<open>The way there and back\<close>

lemma call_routes_waits:
  assumes codec: "codec_ok (ge_requests env) dec" and run: "call_routes env fw w req s = (s1, None)"
  shows "\<exists>channel data k. gs_gateway s1 = (gs_gateway s)\<lparr>gw_pending := hm_insert (wd_uuid w) k (gw_pending (gs_gateway s)),
      gw_published := gw_published (gs_gateway s) @ [(channel, data)]\<rparr> \<and>
    command_address dec channel data = Some (ge_queue_id env, wd_uuid w)"
proof -
  obtain ep s' r where h: "handle_endpoint env fw w req ep s = (s', r)"
    and b: "begin_request (wd_published w) r (gs_gateway s') = (gs_gateway s1, None)"
    using run by (auto simp: call_routes_def split: option.splits prod.splits)
  with handle_endpoint_addressed [OF codec h] obtain channel data k where "command_address dec channel data = Some (ge_queue_id env, wd_uuid w)"
    "gs_gateway s1 = (gs_gateway s)\<lparr>gw_pending := hm_insert (wd_uuid w) k (gw_pending (gs_gateway s)),
      gw_published := gw_published (gs_gateway s) @ [(channel, data)]\<rparr>"
    by (cases r) (auto simp: addressed_route_def Let_def eq_commute [of _ "gs_gateway s1"] split: option.splits if_splits)
  then show ?thesis by blast
qed

lemma serve_waits:
  assumes codec: "codec_ok (ge_requests env) dec" and run: "serve env fw w req s = (s1, None)"
  shows "\<exists>channel data k. gs_gateway s1 = (gs_gateway s)\<lparr>gw_pending := hm_insert (wd_uuid w) k (gw_pending (gs_gateway s)),
      gw_published := gw_published (gs_gateway s) @ [(channel, data)]\<rparr> \<and>
    command_address dec channel data = Some (ge_queue_id env, wd_uuid w)"
proof -
  obtain p where m: "measured env fw w req (s\<lparr>gs_policy := p\<rparr>) = (s1, None)"
    using run by (auto simp: serve_def split: prod.splits sum.splits)
  obtain s' r where c: "call_routes env fw w req (s\<lparr>gs_policy := p\<rparr>) = (s', r)" by fastforce
  with measured_frame [OF m c] call_routes_waits [OF codec, of fw w req "s\<lparr>gs_policy := p\<rparr>" s'] show ?thesis by simp
qed

lemma completes_pending:
  assumes "on_reply (ge_replies env) data (gs_gateway s) = (g, Some (i, resp))"
  shows "\<exists>s'. complete env finish data s = (s', Some (i, resp)) \<and> gs_gateway s' = g"
  using assms by (auto simp: complete_def split: option.split)

end
