(* ===== verification/Rate_Bound.thy ===== *)
theory Rate_Bound
  imports Rate_Limit
begin

text \<open>
  What the token buckets allow in the long run, rounding errors included: a client passes at most its burst
  plus the refill of the elapsed time, up to a relative error of \<open>2 powi -50\<close> of the refill and a billionth of
  a token per request.
\<close>

section \<open>The error of rounding\<close>

lemma round_half_even_upper: "of_int (round_half_even m) \<le> m + 1 / 2"
proof -
  have fl: "of_int \<lfloor>m\<rfloor> \<le> m" by linarith
  have "round_half_even m = \<lfloor>m\<rfloor> \<or> round_half_even m = \<lfloor>m\<rfloor> + 1 \<and> 1 / 2 \<le> m - of_int \<lfloor>m\<rfloor>"
    unfolding round_half_even_def Let_def by (metis linorder_not_less)
  then show ?thesis
  proof (elim disjE conjE)
    assume "round_half_even m = \<lfloor>m\<rfloor> + 1" "1 / 2 \<le> m - of_int \<lfloor>m\<rfloor>"
    then show ?thesis unfolding of_int_add of_int_1 by (simp only: of_int_add of_int_1)
  qed (use fl in linarith)
qed

lemma f64_ulp_upper:
  assumes "0 < x"
  shows "f64_ulp x \<le> x / 2 ^ 52 + 1 / 2 ^ 60"
proof -
  have small: "pow2 (- 1074) \<le> 1 / 2 ^ 60"
    by (simp add: pow2_def power_increasing divide_simps)
  have "pow2 (f64_exponent x - 52) * 2 ^ 52 = pow2 (f64_exponent x)" using pow2_add [of "f64_exponent x - 52" 52] by (simp add: pow2_def [of 52])
  then have "pow2 (f64_exponent x - 52) \<le> x / 2 ^ 52" using f64_exponent_le [OF assms] by (simp add: pos_le_divide_eq)
  moreover have "f64_ulp x = pow2 (f64_exponent x - 52) \<or> f64_ulp x = pow2 (- 1074)" using assms by (auto simp: f64_ulp_def max_def)
  moreover have "0 \<le> x / 2 ^ 52" "0 \<le> (1 :: rat) / 2 ^ 60" using assms by simp_all
  ultimately show ?thesis using small by linarith
qed

lemma f64_round_upper:
  assumes "0 \<le> x"
  shows "f64_round x \<le> x + x / 2 ^ 53 + 1 / 2 ^ 60"
proof (cases "x = 0")
  case False
  then have x: "0 < x" using assms by simp
  let ?u = "f64_ulp x"
  have u: "0 < ?u" by (simp add: f64_ulp_def)
  have "f64_round x \<le> (x / ?u + 1 / 2) * ?u"
    using round_half_even_upper [of "x / ?u"] u False by (simp add: f64_round_def mult_right_mono)
  also have "\<dots> = x + ?u / 2" using u by (simp add: field_simps)
  also have "\<dots> \<le> x + x / 2 ^ 53 + 1 / 2 ^ 60" using f64_ulp_upper [OF x] by (simp add: field_simps)
  finally show ?thesis .
qed (simp add: f64_round_def)


section \<open>One request\<close>

abbreviation seconds :: "nat \<Rightarrow> rat" where
  "seconds ns \<equiv> of_nat ns / 1000000000"

lemma as_secs_upper: "as_secs_f64 ns \<le> seconds ns + seconds ns / 2 ^ 51 + 1 / 2 ^ 57"
proof -
  let ?s = "of_nat (ns div 1000000000) :: rat" and ?f = "of_nat (ns mod 1000000000) :: rat"
  have ns: "seconds ns = ?s + ?f / 1000000000"
  proof -
    have "(of_nat ns :: rat) = of_nat (ns div 1000000000 * 1000000000 + ns mod 1000000000)" by (simp only: div_mult_mod_eq)
    then have "(of_nat ns :: rat) = ?s * 1000000000 + ?f" unfolding of_nat_add of_nat_mult by simp
    then show ?thesis by (simp only: add_divide_distrib)
  qed
  have f: "f64_of_u64 (ns mod 1000000000) = ?f"
    unfolding f64_of_u64_def by (rule f64_round_int) (rule less_le_trans [OF mod_less_divisor], simp_all)
  have s1: "f64_of_u64 (ns div 1000000000) \<le> ?s + ?s / 2 ^ 53 + 1 / 2 ^ 60"
    unfolding f64_of_u64_def by (rule f64_round_upper) simp
  have f1: "f64_div ?f 1000000000 \<le> ?f / 1000000000 + (?f / 1000000000) / 2 ^ 53 + 1 / 2 ^ 60"
    unfolding f64_div_def by (rule f64_round_upper) simp
  let ?x = "f64_of_u64 (ns div 1000000000) + f64_div ?f 1000000000"
  have nonneg: "0 \<le> ?x" by (simp add: f64_of_u64_def f64_div_def f64_round_nonneg)
  have "?x \<le> seconds ns + seconds ns / 2 ^ 53 + 1 / 2 ^ 59" using s1 f1 by (simp add: ns field_simps)
  moreover have "as_secs_f64 ns \<le> ?x + ?x / 2 ^ 53 + 1 / 2 ^ 60"
    using f64_round_upper [OF nonneg] by (simp add: as_secs_f64_def f f64_add_def)
  moreover have "0 \<le> seconds ns" by simp
  ultimately show ?thesis by (simp add: field_simps)
qed

text \<open>Parameters up to a million, as those of the default policy.\<close>

definition limiter_small :: "rate_limiter \<Rightarrow> bool" where
  "limiter_small rl \<longleftrightarrow> limiter_ok rl \<and> capacity rl \<le> 2 ^ 20 \<and> refill_rate rl \<le> 2 ^ 20"

text \<open>The tokens that come back in \<open>ns\<close> nanoseconds, with the relative error, and the absolute error of one request.\<close>

definition refill :: "rate_limiter \<Rightarrow> nat \<Rightarrow> rat" where
  "refill rl ns = refill_rate rl * seconds ns * (1 + 1 / 2 ^ 50)"

definition slack :: rat where
  "slack = 1 / 2 ^ 30"

lemma refilled_upper:
  assumes "0 \<le> tokens b" and "tokens b \<le> 2 ^ 20" and rate: "0 < refill_rate rl" "refill_rate rl \<le> 2 ^ 20"
  shows "refilled rl now b \<le> tokens b + refill rl (now - last_update b) + slack / 2"
proof -
  define ns where "ns = now - last_update b"
  define d where "d = seconds ns * refill_rate rl"
  have d: "0 \<le> d" using rate by (simp add: d_def)
  let ?m = "as_secs_f64 ns * refill_rate rl"
  have "?m \<le> (seconds ns + seconds ns / 2 ^ 51 + 1 / 2 ^ 57) * refill_rate rl"
    using as_secs_upper [of ns] rate(1) by (intro mult_right_mono) simp_all
  also have "\<dots> = d + d / 2 ^ 51 + refill_rate rl / 2 ^ 57" by (simp add: d_def algebra_simps)
  also have "\<dots> \<le> d + d / 2 ^ 51 + 1 / 2 ^ 37" using rate(2) by simp
  finally have m: "?m \<le> d + d / 2 ^ 51 + 1 / 2 ^ 37" .
  have "0 \<le> ?m" using as_secs_nonneg [of ns] rate(1) by simp
  then have r: "f64_mul (as_secs_f64 ns) (refill_rate rl) \<le> ?m + ?m / 2 ^ 53 + 1 / 2 ^ 60"
    and pos: "0 \<le> f64_mul (as_secs_f64 ns) (refill_rate rl)"
    using f64_round_upper f64_round_nonneg by (simp_all add: f64_mul_def)
  let ?x = "tokens b + f64_mul (as_secs_f64 ns) (refill_rate rl)"
  have "f64_add (tokens b) (f64_mul (as_secs_f64 ns) (refill_rate rl)) \<le> ?x + ?x / 2 ^ 53 + 1 / 2 ^ 60"
    unfolding f64_add_def by (rule f64_round_upper) (use assms(1) pos in simp)
  also have "\<dots> \<le> tokens b + d * (1 + 1 / 2 ^ 50) + slack / 2"
    using m r d assms(2) by (simp add: slack_def field_simps)
  finally have "f64_add (tokens b) (f64_mul (as_secs_f64 ns) (refill_rate rl)) \<le> tokens b + d * (1 + 1 / 2 ^ 50) + slack / 2" .
  then show ?thesis by (simp add: refilled_def refill_def ns_def d_def min_le_iff_disj mult_ac)
qed

lemma spend_upper:
  assumes "1 \<le> a" and "a \<le> 2 ^ 20"
  shows "f64_sub a 1 \<le> a - 1 + slack / 2"
  using f64_round_upper [of "a - 1"] assms by (simp add: f64_sub_def slack_def field_simps)

text \<open>The tokens of a client after one request, against those before. Before the first request the bucket is full.\<close>

definition bucket_of :: "rate_limiter \<Rightarrow> nat \<Rightarrow> string \<Rightarrow> bucket" where
  "bucket_of rl t0 key = hm_get_or \<lparr>tokens = capacity rl, last_update = t0\<rparr> (buckets rl) key"

lemma rl_check_tokens:
  assumes small: "limiter_small rl" and run: "rl_check now key rl = (r, rl')"
  shows "tokens (bucket_of rl' t0 key) + (if \<exists>u. r = Inr u then 1 else 0) \<le>
      tokens (bucket_of rl t0 key) + refill rl (now - last_update (bucket_of rl t0 key)) + slack"
    and "last_update (bucket_of rl' t0 key) = now"
proof -
  have ok: "limiter_ok rl" and cap: "capacity rl \<le> 2 ^ 20" and rate: "0 < refill_rate rl" "refill_rate rl \<le> 2 ^ 20" and cap0: "0 \<le> capacity rl"
    using small by (auto simp: limiter_small_def limiter_ok_def)
  define b where "b = bucket_of rl now key"
  have same: "tokens (bucket_of rl t0 key) = tokens b" "last_update (bucket_of rl t0 key) = last_update b \<or> last_update b = now"
    by (auto simp: b_def bucket_of_def hm_get_or_def split: option.split)
  have tk: "0 \<le> tokens b" "tokens b \<le> capacity rl"
    using ok cap0 by (auto simp: b_def bucket_of_def hm_get_or_def limiter_ok_def split: option.split)
  define a where "a = refilled rl now b"
  have a: "a \<le> tokens b + refill rl (now - last_update b) + slack / 2" "a \<le> 2 ^ 20"
    using refilled_upper [OF tk(1) _ rate] tk(2) cap refilled_bounds(2) [OF tk(1) rate(1) cap0, of now] by (simp_all add: a_def)
  have mono: "refill rl (now - last_update b) \<le> refill rl (now - last_update (bucket_of rl t0 key))"
    using same(2) rate(1) by (auto simp: refill_def)
  have rl': "bucket_of rl' t0 key = \<lparr>tokens = (if 1 \<le> a then f64_sub a 1 else a), last_update = now\<rparr>" "(\<exists>u. r = Inr u) \<longleftrightarrow> 1 \<le> a"
    using run [unfolded rl_check_def Let_def, folded bucket_of_def, folded b_def, folded a_def]
    by (auto simp: bucket_of_def hm_get_or_insert split: if_splits)
  then show "last_update (bucket_of rl' t0 key) = now" by simp
  have s: "0 < slack" by (simp add: slack_def)
  show "tokens (bucket_of rl' t0 key) + (if \<exists>u. r = Inr u then 1 else 0) \<le>
      tokens (bucket_of rl t0 key) + refill rl (now - last_update (bucket_of rl t0 key)) + slack"
    using a spend_upper [of a] mono same(1) s rl' by (cases "1 \<le> a") simp_all
qed

section \<open>Traffic\<close>

text \<open>Which limiter a path falls under; \<^verbatim>\<open>/reset\<close> falls under none.\<close>

datatype limiter_class = AuthClass | TradingClass | GeneralClass

definition path_class :: "string \<Rightarrow> limiter_class option" where
  "path_class path = (if path = ''/reset'' then None else if auth_path path then Some AuthClass
     else if trading_path path then Some TradingClass else Some GeneralClass)"

fun limiter_of :: "limiter_class \<Rightarrow> rate_policy \<Rightarrow> rate_limiter" where
  "limiter_of AuthClass p = auth_limiter p"
| "limiter_of TradingClass p = trading_limiter p"
| "limiter_of GeneralClass p = general_limiter p"

lemma rate_limit_call_class:
  assumes "rate_limit_call now path ip p = (r, p')"
  shows "limiter_of cl p' = (if path_class path = Some cl then snd (rl_check now ip (limiter_of cl p)) else limiter_of cl p)"
    and "path_class path = Some cl \<Longrightarrow> r = fst (rl_check now ip (limiter_of cl p))"
  using assms
  by (cases cl; auto simp: rate_limit_call_def path_class_def auth_path_def trading_path_def Let_def split: if_splits prod.splits)+

text \<open>Requests of any clients at any paths and times, one after the other, and which of them pass.\<close>

fun traffic :: "(nat \<times> string \<times> string) list \<Rightarrow> rate_policy \<Rightarrow> bool list \<times> rate_policy" where
  "traffic [] p = ([], p)"
| "traffic ((now, path, ip) # xs) p =
     (let (r, p1) = rate_limit_call now path ip p; (rs, p2) = traffic xs p1 in ((\<exists>u. r = Inr u) # rs, p2))"

abbreviation concerns :: "limiter_class \<Rightarrow> string \<Rightarrow> nat \<times> string \<times> string \<Rightarrow> bool" where
  "concerns cl ip x \<equiv> path_class (fst (snd x)) = Some cl \<and> snd (snd x) = ip"

definition asked :: "limiter_class \<Rightarrow> string \<Rightarrow> (nat \<times> string \<times> string) list \<Rightarrow> nat" where
  "asked cl ip xs = length (filter (concerns cl ip) xs)"

definition passed :: "limiter_class \<Rightarrow> string \<Rightarrow> (nat \<times> string \<times> string) list \<Rightarrow> bool list \<Rightarrow> nat" where
  "passed cl ip xs rs = length (filter (\<lambda>(x, ok). concerns cl ip x \<and> ok) (zip xs rs))"

lemma refill_add:
  assumes "a \<le> b" and "b \<le> c"
  shows "refill rl (b - a) + refill rl (c - b) = refill rl (c - a)"
  using assms by (simp add: refill_def of_nat_diff field_simps)

lemma traffic_step:
  assumes small: "limiter_small (limiter_of cl p)" and call: "rate_limit_call now path ip' p = (r, p1)"
  shows "limiter_small (limiter_of cl p1)" and "refill (limiter_of cl p1) = refill (limiter_of cl p)"
    and "\<not> concerns cl ip (now, path, ip') \<Longrightarrow> bucket_of (limiter_of cl p1) t0 ip = bucket_of (limiter_of cl p) t0 ip"
proof -
  have ok: "limiter_ok (limiter_of cl p)" using small by (simp add: limiter_small_def)
  obtain r' l where l: "rl_check now ip' (limiter_of cl p) = (r', l)" by fastforce
  have p1: "limiter_of cl p1 = (if path_class path = Some cl then l else limiter_of cl p)"
    using rate_limit_call_class(1) [OF call] l by simp
  note keeps = rl_check_ok(1-4) [OF ok l]
  show "limiter_small (limiter_of cl p1)" "refill (limiter_of cl p1) = refill (limiter_of cl p)"
    using small keeps(1-3) by (auto simp: p1 limiter_small_def refill_def fun_eq_iff)
  show "bucket_of (limiter_of cl p1) t0 ip = bucket_of (limiter_of cl p) t0 ip" if "\<not> concerns cl ip (now, path, ip')"
    using that keeps(2) keeps(4) [of ip] by (auto simp: p1 bucket_of_def hm_get_or_def split: option.split)
qed

lemma traffic_bound:
  assumes "limiter_small (limiter_of cl p)" and "traffic xs p = (rs, p')"
    and "sorted (last_update (bucket_of (limiter_of cl p) t0 ip) # map fst xs @ [t1])"
  shows "of_nat (passed cl ip xs rs) \<le> tokens (bucket_of (limiter_of cl p) t0 ip) +
    refill (limiter_of cl p) (t1 - last_update (bucket_of (limiter_of cl p) t0 ip)) + of_nat (asked cl ip xs) * slack"
  using assms
proof (induction xs arbitrary: p rs)
  case Nil
  then have "0 \<le> tokens (bucket_of (limiter_of cl p) t0 ip)" "0 \<le> refill (limiter_of cl p) n" for n
    by (auto simp: bucket_of_def hm_get_or_def limiter_small_def limiter_ok_def refill_def split: option.split)
  then show ?case by (simp add: passed_def asked_def)
next
  case (Cons x xs)
  obtain now path ip' where x: "x = (now, path, ip')" by (cases x)
  obtain r p1 where call: "rate_limit_call now path ip' p = (r, p1)" by fastforce
  obtain rs1 where rest: "traffic xs p1 = (rs1, p')" and rs: "rs = (\<exists>u. r = Inr u) # rs1"
    using Cons.prems(2) call by (auto simp: x Let_def split: prod.splits)
  note step = traffic_step [OF Cons.prems(1) call]
  let ?b = "bucket_of (limiter_of cl p) t0 ip" and ?b1 = "bucket_of (limiter_of cl p1) t0 ip"
  show ?case
  proof (cases "concerns cl ip x")
    case False
    then have b: "?b1 = ?b" using step(3) x by simp
    moreover have "passed cl ip (x # xs) rs = passed cl ip xs rs1" "asked cl ip (x # xs) = asked cl ip xs"
      using False by (auto simp: rs passed_def asked_def)
    ultimately show ?thesis using Cons.IH [OF step(1) rest] Cons.prems(3) step(2) by simp
  next
    case True
    then have check: "rl_check now ip (limiter_of cl p) = (r, limiter_of cl p1)"
      using rate_limit_call_class [OF call, of cl] by (simp add: x)
    note tk = rl_check_tokens [OF Cons.prems(1) check, of t0]
    have le: "last_update ?b \<le> now" "now \<le> t1" "sorted (last_update ?b1 # map fst xs @ [t1])"
      using Cons.prems(3) tk(2) by (simp_all add: x)
    have "of_nat (passed cl ip xs rs1) \<le> tokens ?b1 + refill (limiter_of cl p) (t1 - now) + of_nat (asked cl ip xs) * slack"
      using Cons.IH [OF step(1) rest le(3)] tk(2) step(2) by simp
    moreover have "of_nat (passed cl ip (x # xs) rs) = (of_nat (passed cl ip xs rs1) :: rat) + (if \<exists>u. r = Inr u then 1 else 0)"
      "of_nat (asked cl ip (x # xs)) * slack = of_nat (asked cl ip xs) * slack + slack"
      using True by (simp_all add: rs passed_def asked_def algebra_simps)
    ultimately show ?thesis
      using tk(1) refill_add [OF le(1,2), of "limiter_of cl p"] by linarith
  qed
qed

end
