(* ===== verification/Gateway_Properties.thy ===== *)
theory Gateway_Properties
  imports Http_Roundtrip Rate_Bound Scenario
begin

text \<open>
  The properties of the HTTP side of the gateway: the request-reply protocol with the engine, validation,
  accounts and rate limits.
\<close>

section \<open>Requests and replies\<close>

lemma reply_completes:
  assumes "hm_get (gw_pending gw) i = None" and "rc_identifier rc r = Some i"
  shows "on_reply rc r (gw\<lparr>gw_pending := hm_insert i k (gw_pending gw), gw_published := ps\<rparr>) =
    (count_submitted (snd (k r)) (gw\<lparr>gw_published := ps\<rparr>), Some (i, fst (k r)))"
proof -
  have fresh: "i \<notin> fst ` set (gw_pending gw)" using assms(1) by (simp add: map_of_eq_None_iff)
  have "hm_remove i (m @ [(i, k)]) = m" if "i \<notin> fst ` set m" for m :: "(string, string \<Rightarrow> completion) hash_map"
    using that by (induction m) auto
  from this [OF fresh] have "hm_remove i (gw_pending gw @ [(i, k)]) = gw_pending gw" .
  moreover have "hm_get (gw_pending gw @ [(i, k)]) i = Some k" by (simp add: map_add_def assms(1))
  ultimately show ?thesis by (simp add: on_reply_def hm_insert_fresh [OF assms(1)] assms(2) split: prod.split)
qed

text \<open>
  C33. From the request to its response. Whatever the endpoint, a request that the gateway does not answer at once
  has published exactly one command; when an engine, in whatever state, has processed that command, there is
  exactly one new reply, on the queue of this gateway; and when the gateway takes that reply from the queue,
  the request is completed with it, and what was waiting before is waiting still. Relied on: the identifier
  of the request is fresh, the engine decodes what the gateway encoded, and the identifier can be read back
  from an encoded reply.
\<close>

theorem request_reply_roundtrip:
  assumes "serve env fw w req s = (s1, None)" and "hm_get (gw_pending (gs_gateway s)) (wd_uuid w) = None"
    and "codec_ok (ge_requests env) dec" and "\<And>p. rc_identifier (ge_replies env) (enc p) = Some (reply_identifier p)"
  shows "\<exists>channel data. gw_published (gs_gateway s1) = gw_published (gs_gateway s) @ [(channel, data)] \<and>
    (\<forall>oc st sent st' sent'. dispatch_event oc dec st (Some sent) channel data = Some (st', Some sent') \<longrightarrow>
      (\<exists>p resp s2. lpushes (Some sent') = lpushes (Some sent) @ [Lpush (REPLY_PREFIX @ ge_queue_id env) p] \<and>
        complete env finish (enc p) s1 = (s2, Some (wd_uuid w, resp)) \<and> gw_pending (gs_gateway s2) = gw_pending (gs_gateway s)))"
proof -
  let ?i = "wd_uuid w" and ?g = "gs_gateway s"
  obtain channel data k where g1: "gs_gateway s1 = ?g\<lparr>gw_pending := hm_insert ?i k (gw_pending ?g),
      gw_published := gw_published ?g @ [(channel, data)]\<rparr>" and addr: "command_address dec channel data = Some (ge_queue_id env, ?i)"
    using serve_waits [OF assms(3,1)] by blast
  have returned: "\<exists>p resp s2. lpushes (Some sent') = lpushes (Some sent) @ [Lpush (REPLY_PREFIX @ ge_queue_id env) p] \<and>
      complete env finish (enc p) s1 = (s2, Some (?i, resp)) \<and> gw_pending (gs_gateway s2) = gw_pending ?g"
    if run: "dispatch_event oc dec st (Some sent) channel data = Some (st', Some sent')" for oc st sent st' sent'
  proof -
    obtain p where p: "reply_identifier p = ?i" "lpushes (Some sent') = lpushes (Some sent) @ [Lpush (REPLY_PREFIX @ ge_queue_id env) p]"
      using dispatch_answers [OF run] addr by (auto simp: answers_def)
    have "rc_identifier (ge_replies env) (enc p) = Some ?i" using assms(4) p(1) by simp
    from reply_completes [OF assms(2) this, where k = k] have
      "on_reply (ge_replies env) (enc p) (gs_gateway s1) =
        (count_submitted (snd (k (enc p))) (?g\<lparr>gw_published := gw_published ?g @ [(channel, data)]\<rparr>), Some (?i, fst (k (enc p))))"
      by (simp add: g1)
    from completes_pending [OF this, of finish] p(2) show ?thesis by auto
  qed
  then show ?thesis using g1 by auto
qed

text \<open>An environment for instances: messages are encoded by one letter, replies by their identifier.\<close>

definition ex_replies :: reply_codec where
  "ex_replies = \<lparr>rc_identifier = Some, rc_balance = (\<lambda>_. Some (balance_default, [])), rc_order = (\<lambda>_. None), rc_cancel = (\<lambda>_. None),
     rc_open_orders = (\<lambda>_. None), rc_order_status = (\<lambda>_. None), rc_orderbook = (\<lambda>_. None), rc_generic = (\<lambda>_. None)\<rparr>"

definition ex_requests :: request_codec where
  "ex_requests = \<lparr>enc_signup = (\<lambda>_. Some ''s''), enc_onramp = (\<lambda>_. Some ''o''), enc_deposit = (\<lambda>_. None), enc_balance = (\<lambda>_. None),
     enc_order = (\<lambda>_. None), enc_cancel = (\<lambda>_. None), enc_orderbook = (\<lambda>_. None), enc_open_orders = (\<lambda>_. None),
     enc_order_status = (\<lambda>_. None), enc_reset = (\<lambda>_. None)\<rparr>"

definition ex_env :: gateway_env where
  "ex_env = \<lparr>ge_queue_id = ''q'', ge_requests = ex_requests, ge_replies = ex_replies\<rparr>"

definition ex_requests7 :: request_codec where
  "ex_requests7 = ex_requests\<lparr>enc_signup := (\<lambda>_. None), enc_onramp := (\<lambda>m. if m = \<lparr>on_user_id = 7, on_qty = 50, on_queue_id = ''q'',
     on_identifier = ''b''\<rparr> then Some ''o'' else None)\<rparr>"

section \<open>Validation\<close>

lemma supported_names: "supported a \<longleftrightarrow> a \<in> {''sol'', ''btc'', ''eth''}"
  by (auto simp: supported_def)

text \<open>
  C37. What the gateway lets through, the engine does not reject for its form: for a validated order the
  handler goes straight to the branch of its type and side, with the asset in lower case, and none of
  the checks on asset, side, quantity and limit price fires.
\<close>

theorem validated_order_is_wellformed:
  assumes "order_validate b = Inr ()"
  shows "\<exists>s. parse_side (ob_side b) = Some s \<and> supported (to_lowercase (ob_asset b)) \<and> 0 < ob_qty b \<and>
    (order_type_of b = Limit \<longrightarrow> 0 < ob_price b) \<and>
    handle_order oc st pub (order_msg_of env i u b) =
      (let a = to_lowercase (ob_asset b); msg = order_msg_of env i u b; qty = nat (ob_qty b) in
       do { (returned, st1, pub1) \<leftarrow> (case (order_type_of b, s) of
              (Limit, s) \<Rightarrow> handle_limit oc st pub msg a (market_of a) s qty
            | (Market, Ask) \<Rightarrow> handle_market_ask oc st pub msg a (market_of a) qty
            | (Market, Bid) \<Rightarrow> handle_market_bid oc st pub msg a (market_of a) qty);
            (if returned then Some (st1, pub1)
             else do { pub2 \<leftarrow> emit_depth oc st1 pub1 a (market_of a); Some (st1, pub2) }) })"
proof -
  note ok = order_validate_ok [OF assms]
  obtain s where s: "parse_side (ob_side b) = Some s" using ok(2) by (auto simp: parse_side_def)
  moreover have a: "supported (to_lowercase (ob_asset b))" using ok(1) by (simp add: supported_names)
  moreover have "order_type_of b = Limit \<longrightarrow> 0 < ob_price b" using ok(3,4) by (auto simp: order_type_of_def)
  ultimately show ?thesis
    using ok(5) by (auto simp: handle_order_def order_msg_of_def Let_def split: order_type.split side.split)
qed

definition ex_order :: order_body where
  "ex_order = \<lparr>ob_asset = ''SOL'', ob_side = ''bid'', ob_order_type = ''LIMIT'', ob_price = 100, ob_qty = 4, ob_slippage_pct = None,
     ob_time_in_force = Some ''gtc''\<rparr>"

lemma evaluated_step: "map_option (\<lambda>(st, _). P st) r = Some True \<Longrightarrow> \<exists>st p. r = Some (st, p) \<and> P st"
  by (cases r) auto

theorem validated_order_is_wellformed_witness:
  "order_validate ex_order = Inr () \<and> parse_side (ob_side ex_order) = Some Bid \<and>
   (\<exists>st' pub'. handle_order True scn_open (Some []) (order_msg_of ex_env ''i'' 2 ex_order) = Some (st', pub') \<and>
      next_order_id st' = next_order_id scn_open + 1)"
proof -
  have ok: "order_validate ex_order = Inr ()" by code_simp
  have "map_option (\<lambda>(st', _). next_order_id st' = next_order_id scn_open + 1)
      (handle_order True scn_open (Some []) (order_msg_of ex_env ''i'' 2 ex_order)) = Some True" by code_simp
  then have run: "\<exists>st' pub'. handle_order True scn_open (Some []) (order_msg_of ex_env ''i'' 2 ex_order) = Some (st', pub') \<and>
      next_order_id st' = next_order_id scn_open + 1"
    by (rule evaluated_step)
  obtain s where "parse_side (ob_side ex_order) = Some s"
    using validated_order_is_wellformed [OF ok, of True scn_open "Some []" ex_env "''i''" 2] by blast
  moreover have "s = Bid \<or> parse_side (ob_side ex_order) \<noteq> Some s" by (auto simp: ex_order_def parse_side_def)
  ultimately have "parse_side (ob_side ex_order) = Some Bid" by blast
  with ok run show ?thesis by blast
qed

section \<open>Accounts\<close>

text \<open>A token without white space survives the extraction from its header.\<close>

lemma trim_id: "list_all (\<lambda>c. \<not> is_space c) s \<Longrightarrow> trim s = s"
proof -
  assume a: "list_all (\<lambda>c. \<not> is_space c) s"
  have start: "trim_start xs = xs" if "list_all (\<lambda>c. \<not> is_space c) xs" for xs
    using that by (cases xs) (simp_all add: trim_start_def)
  show ?thesis unfolding trim_def start [OF a] using start [of "rev s"] a by (simp add: list_all_iff)
qed

lemma bearer_token:
  assumes "list_all (\<lambda>c. \<not> is_space c) t"
  shows "trim (trim_start_matches ''Bearer '' (''Bearer '' @ t)) = t"
proof -
  have "take 7 t \<noteq> ''Bearer ''"
  proof
    assume "take 7 t = ''Bearer ''"
    then have "CHR '' '' \<in> set t" using set_take_subset [of 7 t] by auto
    with assms show False by (auto simp: list_all_iff is_space_def)
  qed
  then have "trim_start_matches ''Bearer '' t = t" by (subst trim_start_matches.simps) (simp add: eval_nat_numeral)
  then have "trim_start_matches ''Bearer '' (''Bearer '' @ t) = t" by (subst trim_start_matches.simps) simp
  with trim_id [OF assms] show ?thesis by simp
qed

lemma find_appended: "x \<notin> f ` set xs \<Longrightarrow> f r = x \<Longrightarrow> find (\<lambda>y. f y = x) (xs @ [r]) = Some r"
  by (induction xs) auto

text \<open>
  C38. Who signs up can sign in. After a sign-up that was accepted, signing in with the same name and
  password returns a token, and a request that carries the token in its \<^verbatim>\<open>Authorization\<close> header is
  authenticated as the user that was created, whose id no other user has. Relied on: argon2 verifies the
  password of a hash it printed, tokens decode until they expire to the claims they encode and contain no
  white space.
\<close>

theorem signup_signin_roundtrip:
  assumes "signup env i (hash_password a2 join salt) body db = (db', Await channel json i' k)"
    and "sib = \<lparr>sib_username = sub_username body, sib_password = sub_password body\<rparr>"
    and "argon2_spec a2"
    and "\<And>c. \<exists>t. jwt_encode c = Some t"
    and "\<And>c t. jwt_encode c = Some t \<Longrightarrow> now < cl_exp c \<Longrightarrow> jwt_decode t = Some c \<and> t \<noteq> [] \<and> list_all (\<lambda>c. \<not> is_space c) t"
    and "0 \<le> users_serial db" and "users_serial db < 2 ^ 63" and "\<forall>r \<in> set (users_rows db). us_id r < users_serial db"
  shows "\<exists>token. signin (verify_password a2 None) jwt_encode now sib (Some db') = Http 200 (Token token) \<and>
    from_request jwt_decode (Some (''Bearer '' @ token)) = Some (nat (users_serial db)) \<and>
    (\<forall>r \<in> set (users_rows db). us_id r \<noteq> users_serial db) \<and> users_serial db' = users_serial db + 1"
proof -
  have valid: "signup_validate body = Inr ()"
    using assms(1) by (auto simp: signup_def split: sum.splits)
  then obtain h where h: "hash_password a2 join salt (sub_password body) = Inr h"
    using assms(1) by (cases "hash_password a2 join salt (sub_password body)") (auto simp: signup_def)
  define row where "row = \<lparr>us_id = users_serial db, us_username = sub_username body, us_password_hash = h\<rparr>"
  have fresh: "sub_username body \<notin> us_username ` set (users_rows db)"
    and db': "db' = db\<lparr>users_serial := users_serial db + 1, users_rows := users_rows db @ [row]\<rparr>"
    using assms(1) valid h by (auto simp: signup_def insert_user_def Let_def row_def split: if_splits)
  have find: "find_user (sub_username body) db' = Some row"
    using find_appended [OF fresh, of row] by (simp add: find_user_def db' row_def)
  have "trim (sub_username body) \<noteq> []" "sub_password body \<noteq> []"
    using valid by (auto simp: signup_validate_def Let_def split: if_splits)
  then have ok: "signin_validate sib = Inr ()" by (simp add: signin_validate_def assms(2))
  have sub: "u64_of (us_id row) = nat (users_serial db)"
    using assms(6,7) by (simp add: u64_of_def row_def)
  obtain t where t: "jwt_encode \<lparr>cl_sub = nat (users_serial db), cl_exp = now + 24 * 3600\<rparr> = Some t"
    using assms(4) by blast
  have tok: "jwt_decode t = Some \<lparr>cl_sub = nat (users_serial db), cl_exp = now + 24 * 3600\<rparr>" "t \<noteq> []" "list_all (\<lambda>c. \<not> is_space c) t"
    using assms(5) [OF t] by simp_all
  have "signin (verify_password a2 None) jwt_encode now sib (Some db') = Http 200 (Token t)"
    using ok find verify_hashed [OF assms(3) h] t sub by (simp add: signin_def assms(2) row_def)
  moreover have "from_request jwt_decode (Some (''Bearer '' @ t)) = Some (nat (users_serial db))"
    using tok bearer_token [of t] by (simp add: from_request_def)
  ultimately show ?thesis using assms(8) db' by fastforce
qed

text \<open>A token scheme for instances: the two numbers in unary, separated by a dot.\<close>

definition ex_encode :: "claims \<Rightarrow> string option" where
  "ex_encode c = Some (replicate (cl_sub c) CHR ''s'' @ ''.'' @ replicate (cl_exp c) CHR ''e'')"

definition ex_decode :: "string \<Rightarrow> claims option" where
  "ex_decode t = Some \<lparr>cl_sub = length (takeWhile (\<lambda>c. c = CHR ''s'') t),
     cl_exp = length (takeWhile (\<lambda>c. c = CHR ''e'') (rev t))\<rparr>"

lemma ex_token: "ex_encode c = Some t \<Longrightarrow> ex_decode t = Some c \<and> t \<noteq> [] \<and> list_all (\<lambda>c. \<not> is_space c) t"
proof -
  assume "ex_encode c = Some t"
  then have t: "t = replicate (cl_sub c) CHR ''s'' @ ''.'' @ replicate (cl_exp c) CHR ''e''" by (simp add: ex_encode_def)
  have run: "takeWhile (\<lambda>c. c = x) (replicate n x @ CHR ''.'' # ys) = replicate n x" if "x \<noteq> CHR ''.''" for n x ys
    using that by (induction n) auto
  have "ex_decode t = Some c" by (simp add: t ex_decode_def run)
  moreover have "list_all (\<lambda>c. \<not> is_space c) t" by (auto simp: t list_all_iff is_space_def)
  ultimately show ?thesis by (simp add: t)
qed

text \<open>A hash for instances: the salt and the password, after the length of the salt in unary and a dollar sign.\<close>

definition ex_argon2 :: "(string \<times> string) argon2" where
  "ex_argon2 = \<lparr>a2_hash = (\<lambda>password salt. Inr (salt, password)),
     a2_print = (\<lambda>(salt, password). replicate (length salt) CHR ''x'' @ ''$'' @ salt @ password),
     a2_parse = (\<lambda>s. let n = length (takeWhile (\<lambda>c. c = CHR ''x'') s) in Some (take n (drop (n + 1) s), drop (2 * n + 1) s)),
     a2_verify = (\<lambda>password h. snd h = password)\<rparr>"

lemma ex_argon2_spec: "argon2_spec ex_argon2"
proof -
  have "takeWhile (\<lambda>c. c = CHR ''x'') (replicate n CHR ''x'' @ CHR ''$'' # ys) = replicate n CHR ''x''" for n ys
    by (induction n) auto
  then show ?thesis by (auto simp: argon2_spec_def ex_argon2_def Let_def)
qed

theorem signup_signin_roundtrip_witness:
  "\<exists>db' json k token. signup ex_env ''i'' (hash_password ex_argon2 None ''salt'') \<lparr>sub_username = ''alice'', sub_password = ''secret1''\<rparr>
       \<lparr>users_serial = 1, users_rows = []\<rparr> = (db', Await CH_SIGNUP json ''i'' k) \<and>
     signin (verify_password ex_argon2 None) ex_encode 1000 \<lparr>sib_username = ''alice'', sib_password = ''secret1''\<rparr> (Some db') = Http 200 (Token token) \<and>
     from_request ex_decode (Some (''Bearer '' @ token)) = Some 1"
proof -
  let ?hash = "hash_password ex_argon2 None ''salt''" and ?verify = "verify_password ex_argon2 None"
  have "signup_validate \<lparr>sub_username = ''alice'', sub_password = ''secret1''\<rparr> = Inr ()" by code_simp
  then obtain db' json k where up: "signup ex_env ''i'' ?hash \<lparr>sub_username = ''alice'', sub_password = ''secret1''\<rparr>
      \<lparr>users_serial = 1, users_rows = []\<rparr> = (db', Await CH_SIGNUP json ''i'' k)"
    by (simp add: signup_def insert_user_def Let_def send_and_wait_def hash_password_def ex_argon2_def)
  have "\<exists>t. ex_encode c = Some t" for c by (simp add: ex_encode_def)
  with signup_signin_roundtrip [OF up _ ex_argon2_spec, of "\<lparr>sib_username = ''alice'', sib_password = ''secret1''\<rparr>" ex_encode 1000 ex_decode] ex_token
  obtain token where "signin ?verify ex_encode 1000 \<lparr>sib_username = ''alice'', sib_password = ''secret1''\<rparr> (Some db') = Http 200 (Token token)"
    "from_request ex_decode (Some (''Bearer '' @ token)) = Some 1" by auto
  with up show ?thesis by blast
qed

section \<open>Rate limits\<close>





section \<open>Who may do what\<close>

text \<open>
  C36. Private endpoints are guarded. A request to an endpoint for balances, funding, orders or a user's
  history that carries no valid token publishes nothing, registers nothing and is answered with 401 (or
  429 by the rate limit); with a valid token it publishes at most one command, and that command is made
  out for the user of the token and no other. Neither changes a table of the database.
\<close>

theorem private_endpoints_guarded:
  assumes "serve env fw w req s = (s', resp)" and "configure (hr_verb req) (segments (hr_path req)) = Some ep" and "is_private ep"
  shows "gs_users s' = gs_users s \<and> gs_ledger s' = gs_ledger s \<and> gs_snapshots s' = gs_snapshots s \<and>
    (from_request (wd_jwt_decode w) (hr_authorization req) = None \<longrightarrow> gs_gateway s' = gs_gateway s \<and>
       (resp = Some auth_error \<or> (\<exists>t. resp = Some (Http 429 (TooManyRequests ''Too many requests. Please slow down.'' t))))) \<and>
    (\<forall>u. from_request (wd_jwt_decode w) (hr_authorization req) = Some u \<longrightarrow>
       gw_published (gs_gateway s') = gw_published (gs_gateway s) \<or>
       (\<exists>channel data. gw_published (gs_gateway s') = gw_published (gs_gateway s) @ [(channel, data)] \<and>
          command_of (ge_requests env) u channel data))"
proof -
  obtain lim p where lim: "rate_limit_call (wd_instant w) (hr_path req) (hr_client_ip req) (gs_policy s) = (lim, p)" by fastforce
  show ?thesis
  proof (cases lim)
    case (Inl t)
    then show ?thesis using assms(1) lim by (auto simp: serve_def)
  next
    case (Inr x)
    obtain s1 resp1 where c: "call_routes env fw w req (s\<lparr>gs_policy := p\<rparr>) = (s1, resp1)" by fastforce
    obtain r g' where r: "handle_endpoint env fw w req ep (s\<lparr>gs_policy := p\<rparr>) = (s\<lparr>gs_policy := p\<rparr>, r)"
      and run1: "begin_request (wd_published w) r (gs_gateway s) = (g', resp1)" and s1: "s1 = s\<lparr>gs_policy := p, gs_gateway := g'\<rparr>"
      using assms(2,3) c by (cases "begin_request (wd_published w) (snd (handle_endpoint env fw w req ep (s\<lparr>gs_policy := p\<rparr>))) (gs_gateway s)")
        (auto simp: call_routes_def handle_endpoint_def)
    have "measured env fw w req (s\<lparr>gs_policy := p\<rparr>) = (s', resp)" using assms(1) lim Inr by (simp add: serve_def)
    from measured_frame [OF this c] s1 run1
    have run: "begin_request (wd_published w) r (gs_gateway s) = (g', resp)" and s': "gs_gateway s' = g'" "gs_users s' = gs_users s"
      "gs_ledger s' = gs_ledger s" "gs_snapshots s' = gs_snapshots s" by simp_all
    have "r = Respond auth_error" if "from_request (wd_jwt_decode w) (hr_authorization req) = None"
      using handle_private(1) [OF assms(3) that, of env fw "s\<lparr>gs_policy := p\<rparr>"] r by simp
    moreover have "acts_for (ge_requests env) u r" if "from_request (wd_jwt_decode w) (hr_authorization req) = Some u" for u
      using handle_private(2) [OF assms(3) that, of env fw "s\<lparr>gs_policy := p\<rparr>"] r by auto
    ultimately show ?thesis
      using run begin_request_acts [OF _ run] s' by auto
  qed
qed

definition ex_framework :: framework where
  "ex_framework = \<lparr>fw_signup = (\<lambda>_. None), fw_signin = (\<lambda>_. None), fw_qty = (\<lambda>_. Some 50), fw_order = (\<lambda>_. None), fw_text = Some,
     fw_u64 = (\<lambda>_. None), fw_bad_input = Http 400 InternalError, fw_not_found = Http 404 InternalError,
     fw_upgrade = Http 101 InternalError, fw_encoder = (\<lambda>_. Inr []), fw_panicked = Http 500 InternalError\<rparr>"

definition ex_world :: "(string \<times> string) world" where
  "ex_world = \<lparr>wd_argon2 = ex_argon2, wd_join = None, wd_salt = ''salt'', wd_jwt_encode = ex_encode, wd_jwt_decode = ex_decode, wd_uuid = ''b'', wd_instant = 0, wd_started = 0, wd_finished = 0,
     wd_utc_secs = 1000, wd_published = True, wd_users = None, wd_tables = None, wd_tables2 = None,
     wd_oldest = id, wd_newest = id, wd_newest_entries = id, wd_registry = []\<rparr>"

definition ex_state :: "unit gateway_state" where
  "ex_state = \<lparr>gs_policy = rate_policy_default, gs_gateway = gateway_new,
     gs_users = \<lparr>users_serial = 1, users_rows = []\<rparr>,
     gs_ledger = \<lparr>db_orders = [], db_trades = [], db_ledger = [], db_checkpoint = None\<rparr>, gs_snapshots = empty_table,
     gs_durations = [], gs_inflight = []\<rparr>"

definition ex_onramp :: "string option \<Rightarrow> http_request" where
  "ex_onramp token = \<lparr>hr_verb = POST, hr_path = ''/onramp'', hr_client_ip = ''10.0.0.1'', hr_authorization = token, hr_body = []\<rparr>"

theorem private_endpoints_guarded_witness:
  "gs_gateway (fst (serve ex_env ex_framework ex_world (ex_onramp None) ex_state)) = gs_gateway ex_state \<and>
   (\<exists>channel data. gw_published (gs_gateway (fst (serve ex_env ex_framework ex_world (ex_onramp (Some ''Bearer s.e'')) ex_state))) =
      [(channel, data)] \<and> command_of ex_requests 1 channel data)"
proof -
  have ep: "configure (hr_verb (ex_onramp t)) (segments (hr_path (ex_onramp t))) = Some EpOnramp" for t
    by (simp add: ex_onramp_def configure_def with_param_def)
  have priv: "is_private EpOnramp" by (simp add: is_private_def)
  note guarded = private_endpoints_guarded [OF prod.collapse [symmetric] ep priv]
  have no: "from_request (wd_jwt_decode ex_world) (hr_authorization (ex_onramp None)) = None"
    by (simp add: ex_onramp_def from_request_def)
  have yes: "from_request (wd_jwt_decode ex_world) (hr_authorization (ex_onramp (Some ''Bearer s.e''))) = Some 1" by code_simp
  have "gs_gateway (fst (serve ex_env ex_framework ex_world (ex_onramp None) ex_state)) = gs_gateway ex_state"
    using guarded [of ex_env ex_framework ex_world None ex_state] no by blast
  moreover have "gw_published (gs_gateway (fst (serve ex_env ex_framework ex_world (ex_onramp (Some ''Bearer s.e'')) ex_state))) =
      [(CH_ONRAMP, ''o'')]" "gw_published (gs_gateway ex_state) = []" by code_simp+
  moreover have "ge_requests ex_env = ex_requests" by (simp add: ex_env_def)
  ultimately show ?thesis
    using guarded [of ex_env ex_framework ex_world "Some ''Bearer s.e''" ex_state] yes by auto
qed

theorem request_reply_roundtrip_witness:
  "\<exists>s1 st' sent' p s2 resp. serve (ex_env\<lparr>ge_requests := ex_requests7\<rparr>) ex_framework ex_world (ex_onramp (Some ''Bearer sssssss.e'')) ex_state = (s1, None) \<and>
     dispatch_event True scn_decoders scn_open (Some []) CH_ONRAMP ''o'' = Some (st', Some sent') \<and>
     lpushes (Some sent') = [Lpush (REPLY_PREFIX @ ''q'') p] \<and>
     complete (ex_env\<lparr>ge_requests := ex_requests7\<rparr>) 0 (reply_identifier p) s1 = (s2, Some (''b'', resp)) \<and> gw_pending (gs_gateway s2) = []"
proof -
  let ?env = "ex_env\<lparr>ge_requests := ex_requests7\<rparr>" and ?req = "ex_onramp (Some ''Bearer sssssss.e'')"
  have "snd (serve ?env ex_framework ex_world ?req ex_state) = None \<and>
      gw_published (gs_gateway (fst (serve ?env ex_framework ex_world ?req ex_state))) = [(CH_ONRAMP, ''o'')]" by code_simp
  then obtain s1 where s1: "serve ?env ex_framework ex_world ?req ex_state = (s1, None)" "gw_published (gs_gateway s1) = [(CH_ONRAMP, ''o'')]"
    by (cases "serve ?env ex_framework ex_world ?req ex_state") auto
  have "map_option (\<lambda>(_, p). p \<noteq> None) (dispatch_event True scn_decoders scn_open (Some []) CH_ONRAMP ''o'') = Some True" by code_simp
  then obtain st' sent' where run: "dispatch_event True scn_decoders scn_open (Some []) CH_ONRAMP ''o'' = Some (st', Some sent')" by auto
  have codec: "codec_ok (ge_requests ?env) scn_decoders"
    by (auto simp: codec_ok_def ex_requests7_def ex_requests_def scn_decoders_def split: if_splits)
  have ids: "rc_identifier (ge_replies ?env) (reply_identifier p) = Some (reply_identifier p)" for p
    by (simp add: ex_env_def ex_replies_def)
  have start: "gw_pending (gs_gateway ex_state) = []" "gw_published (gs_gateway ex_state) = []" "lpushes (Some []) = []"
    "wd_uuid ex_world = ''b''" "ge_queue_id ?env = ''q''"
    by (simp_all add: ex_state_def gateway_new_def lpushes_def ex_world_def ex_env_def)
  obtain channel data where cmd: "gw_published (gs_gateway s1) = [(channel, data)]" and "\<forall>oc st sent st' sent'.
      dispatch_event oc scn_decoders st (Some sent) channel data = Some (st', Some sent') \<longrightarrow>
      (\<exists>p resp s2. lpushes (Some sent') = lpushes (Some sent) @ [Lpush (REPLY_PREFIX @ ''q'') p] \<and>
        complete ?env 0 (reply_identifier p) s1 = (s2, Some (''b'', resp)) \<and> gw_pending (gs_gateway s2) = [])"
    using request_reply_roundtrip [OF s1(1) _ codec ids, where finish = 0] start by auto
  moreover have "channel = CH_ONRAMP" "data = ''o''" using cmd s1(2) by simp_all
  ultimately show ?thesis using s1(1) run start(3) by fastforce
qed

section \<open>At the edge\<close>

text \<open>The order book and the list of open orders are limited as trading endpoints.\<close>

lemma orderbook_is_trading: "trading_path ''/orderbook/sol'' \<and> trading_path ''/orders/open''"
  by (simp add: trading_path_def starts_with_def)

text \<open>When a command cannot be published the request fails, but its entry stays in the pending map for ever.\<close>

lemma failed_publish_leaves_pending:
  "begin_request False (Await channel json i k) gw = (gw\<lparr>gw_pending := hm_insert i k (gw_pending gw)\<rparr>, Some (Http 500 InternalError))"
  by (simp add: Let_def split: option.split)

end
