(* ===== verification/Ws_Hub.thy ===== *)
theory Ws_Hub
  imports Kv_Store
begin

text \<open>
  The broadcast hub of the gateway (\<^verbatim>\<open>rs-gateway/src/ws/hub.rs\<close>) and the WebSocket messages
  (\<^verbatim>\<open>rs-shared/src/models/ws.rs\<close>). A client's channel is the list of payloads sent to it and not yet
  received; a \<^verbatim>\<open>HashSet<ClientId>\<close> is a list without repetitions. The serializer of the server messages
  is the argument \<open>encode\<close>. The two metrics the hub updates are part of its state.
\<close>

section \<open>Messages\<close>

datatype ws_client_msg =
    Subscribe string "string option"
  | Unsubscribe string "string option"
  | Auth string
  | WsPing

datatype ws_server_msg =
    WsTrade string nat nat nat nat nat int
  | WsDepth string "(nat \<times> nat) list" "(nat \<times> nat) list"
  | OrderUpdate nat string string nat nat string
  | Subscribed string "string option"
  | Unsubscribed string "string option"
  | Authenticated nat
  | Pong
  | WsError string

section \<open>The hub\<close>

record client_session =
  cs_tx :: "string list"
  cs_user_id :: "nat option"

record hub =
  next_client_id :: nat
  clients :: "(nat, client_session) hash_map"
  topics :: "(string, nat list) hash_map"
  user_clients :: "(nat, nat list) hash_map"
  ws_active_connections :: int
  ws_messages_broadcast :: "(string, nat) hash_map"

definition hub_new :: hub where
  "hub_new = \<lparr>next_client_id = 1, clients = [], topics = [], user_clients = [],
     ws_active_connections = 0, ws_messages_broadcast = []\<rparr>"

text \<open>\<^verbatim>\<open>AtomicU64::fetch_add\<close> wraps.\<close>

definition register :: "hub \<Rightarrow> nat \<times> hub" where
  "register h =
     (let i = next_client_id h in
      (i, h\<lparr>next_client_id := (i + 1) mod u64_lim,
            clients := hm_insert i \<lparr>cs_tx = [], cs_user_id = None\<rparr> (clients h),
            ws_active_connections := ws_active_connections h + 1\<rparr>))"

definition drop_subscriber :: "nat \<Rightarrow> (string, nat list) hash_map \<Rightarrow> (string, nat list) hash_map" where
  "drop_subscriber i ts = filter (\<lambda>(_, subs). subs \<noteq> []) (map (\<lambda>(t, subs). (t, removeAll i subs)) ts)"

definition drop_user_client :: "nat \<Rightarrow> nat \<Rightarrow> (nat, nat list) hash_map \<Rightarrow> (nat, nat list) hash_map" where
  "drop_user_client u i us =
     (case hm_get us u of
        None \<Rightarrow> us
      | Some subs \<Rightarrow> if removeAll i subs = [] then hm_remove u us else hm_insert u (removeAll i subs) us)"

definition unregister :: "nat \<Rightarrow> hub \<Rightarrow> hub" where
  "unregister i h =
     (let removed = hm_get (clients h) i;
          h1 = h\<lparr>clients := hm_remove i (clients h),
                 ws_active_connections := ws_active_connections h - (if removed = None then 0 else 1)\<rparr>;
          h2 = h1\<lparr>topics := drop_subscriber i (topics h1)\<rparr>
      in case removed \<bind> cs_user_id of
           None \<Rightarrow> h2
         | Some u \<Rightarrow> h2\<lparr>user_clients := drop_user_client u i (user_clients h2)\<rparr>)"

text \<open>\<^verbatim>\<open>entry(k).or_default().insert(i)\<close> on a map of sets.\<close>

definition add_member :: "'k \<Rightarrow> nat \<Rightarrow> ('k, nat list) hash_map \<Rightarrow> ('k, nat list) hash_map" where
  "add_member k i m = hm_insert k (List.insert i (hm_get_or [] m k)) m"

definition subscribe :: "nat \<Rightarrow> string \<Rightarrow> hub \<Rightarrow> hub" where
  "subscribe i topic h = h\<lparr>topics := add_member topic i (topics h)\<rparr>"

definition unsubscribe :: "nat \<Rightarrow> string \<Rightarrow> hub \<Rightarrow> hub" where
  "unsubscribe i topic h =
     (case hm_get (topics h) topic of
        None \<Rightarrow> h
      | Some subs \<Rightarrow> h\<lparr>topics := hm_insert topic (removeAll i subs) (topics h)\<rparr>)"

definition authenticate :: "nat \<Rightarrow> nat \<Rightarrow> hub \<Rightarrow> hub" where
  "authenticate i u h =
     (let h1 = (case hm_get (clients h) i of
                  None \<Rightarrow> h
                | Some c \<Rightarrow> h\<lparr>clients := hm_insert i (c\<lparr>cs_user_id := Some u\<rparr>) (clients h)\<rparr>)
      in h1\<lparr>user_clients := add_member u i (user_clients h1)\<rparr>)"

text \<open>\<^verbatim>\<open>session.tx.send(payload)\<close>, for one client and for a set of clients.\<close>

definition enqueue_for :: "string \<Rightarrow> nat \<Rightarrow> (nat, client_session) hash_map \<Rightarrow> (nat, client_session) hash_map" where
  "enqueue_for payload i cs =
     (case hm_get cs i of None \<Rightarrow> cs | Some c \<Rightarrow> hm_insert i (c\<lparr>cs_tx := cs_tx c @ [payload]\<rparr>) cs)"

definition enqueue_all :: "string \<Rightarrow> nat list \<Rightarrow> (nat, client_session) hash_map \<Rightarrow> (nat, client_session) hash_map" where
  "enqueue_all payload is cs = fold (enqueue_for payload) is cs"

definition send_to_client :: "(ws_server_msg \<Rightarrow> string option) \<Rightarrow> nat \<Rightarrow> ws_server_msg \<Rightarrow> hub \<Rightarrow> hub" where
  "send_to_client encode i msg h =
     (case encode msg of None \<Rightarrow> h | Some payload \<Rightarrow> h\<lparr>clients := enqueue_for payload i (clients h)\<rparr>)"

definition broadcast_topic :: "(ws_server_msg \<Rightarrow> string option) \<Rightarrow> string \<Rightarrow> ws_server_msg \<Rightarrow> hub \<Rightarrow> hub" where
  "broadcast_topic encode topic msg h =
     (case encode msg of
        None \<Rightarrow> h
      | Some payload \<Rightarrow>
          (case hm_get (topics h) topic of
             None \<Rightarrow> h
           | Some subs \<Rightarrow> h\<lparr>clients := enqueue_all payload subs (clients h),
               ws_messages_broadcast := hm_insert topic (hm_get_or 0 (ws_messages_broadcast h) topic + 1)
                 (ws_messages_broadcast h)\<rparr>))"

definition send_private :: "(ws_server_msg \<Rightarrow> string option) \<Rightarrow> nat \<Rightarrow> ws_server_msg \<Rightarrow> hub \<Rightarrow> hub" where
  "send_private encode u msg h =
     (case encode msg of
        None \<Rightarrow> h
      | Some payload \<Rightarrow>
          (case hm_get (user_clients h) u of
             None \<Rightarrow> h
           | Some subs \<Rightarrow> h\<lparr>clients := enqueue_all payload subs (clients h)\<rparr>))"

section \<open>What the tables say\<close>

abbreviation subscribers :: "hub \<Rightarrow> string \<Rightarrow> nat list" where
  "subscribers h topic \<equiv> hm_get_or [] (topics h) topic"

abbreviation sessions_of :: "hub \<Rightarrow> nat \<Rightarrow> nat list" where
  "sessions_of h u \<equiv> hm_get_or [] (user_clients h) u"

abbreviation user_of :: "hub \<Rightarrow> nat \<Rightarrow> nat option" where
  "user_of h i \<equiv> hm_get (clients h) i \<bind> cs_user_id"

definition inbox :: "hub \<Rightarrow> nat \<Rightarrow> string list" where
  "inbox h i = (case hm_get (clients h) i of None \<Rightarrow> [] | Some c \<Rightarrow> cs_tx c)"

definition attached :: "hub \<Rightarrow> nat \<Rightarrow> bool" where
  "attached h i \<longleftrightarrow> hm_get (clients h) i \<noteq> None"

text \<open>
  The invariant: ids are fresh, subscriptions belong to connected clients, the sessions of a user are
  exactly the connected clients authenticated as that user, and the gauge counts the clients.
\<close>

definition hub_ok :: "hub \<Rightarrow> bool" where
  "hub_ok h \<longleftrightarrow> hm_wf (clients h) \<and> hm_wf (topics h) \<and> hm_wf (user_clients h) \<and>
     (\<forall>i. attached h i \<longrightarrow> i < next_client_id h) \<and>
     (\<forall>t. distinct (subscribers h t) \<and> (\<forall>i \<in> set (subscribers h t). attached h i)) \<and>
     (\<forall>u. distinct (sessions_of h u)) \<and> (\<forall>u i. i \<in> set (sessions_of h u) \<longleftrightarrow> user_of h i = Some u) \<and>
     (\<forall>u. hm_get (user_clients h) u \<noteq> Some []) \<and>
     ws_active_connections h = int (length (clients h))"

section \<open>Delivery\<close>

lemma enqueue_for_get:
  "hm_get (enqueue_for p i cs) j = map_option (\<lambda>c. if j = i then c\<lparr>cs_tx := cs_tx c @ [p]\<rparr> else c) (hm_get cs j)"
  by (cases "hm_get cs i"; cases "hm_get cs j") (auto simp: enqueue_for_def AList.update_conv')

lemma enqueue_for_keys: "map fst (enqueue_for p i cs) = map fst cs"
proof -
  have "hm_get cs i = Some c \<Longrightarrow> i \<in> set (map fst cs)" for c by (force dest: map_of_SomeD)
  then show ?thesis by (auto simp: enqueue_for_def AList.update_keys split: option.splits)
qed

lemma enqueue_all_keys: "map fst (enqueue_all p is cs) = map fst cs"
  unfolding enqueue_all_def by (induction "is" arbitrary: cs) (simp_all add: enqueue_for_keys)

lemma enqueue_all_get:
  "distinct is \<Longrightarrow> hm_get (enqueue_all p is cs) j =
    map_option (\<lambda>c. if j \<in> set is then c\<lparr>cs_tx := cs_tx c @ [p]\<rparr> else c) (hm_get cs j)"
  unfolding enqueue_all_def
proof (induction "is" arbitrary: cs)
  case Nil
  then show ?case by (cases "hm_get cs j") auto
next
  case (Cons i "is")
  then show ?case by (cases "hm_get cs j") (auto simp: enqueue_for_get)
qed

lemma enqueue_all_user: "distinct is \<Longrightarrow> (hm_get (enqueue_all p is cs) j \<bind> cs_user_id) = (hm_get cs j \<bind> cs_user_id)"
  by (cases "hm_get cs j") (simp_all add: enqueue_all_get)

text \<open>Delivering to a list of connected clients changes their inboxes and nothing the invariant speaks of.\<close>

lemma deliver_frame:
  "distinct is \<Longrightarrow> attached (h\<lparr>clients := enqueue_all p is (clients h)\<rparr>) = attached h"
  "length (enqueue_all p is (clients h)) = length (clients h)"
  by (simp_all add: attached_def fun_eq_iff enqueue_all_get) (metis enqueue_all_keys length_map)

lemma hub_ok_deliver:
  "hub_ok h \<Longrightarrow> distinct is \<Longrightarrow> hub_ok (h\<lparr>clients := enqueue_all p is (clients h)\<rparr>)"
  unfolding hub_ok_def by (simp add: deliver_frame enqueue_all_keys enqueue_all_user)

lemma inbox_deliver:
  "distinct is \<Longrightarrow> inbox (h\<lparr>clients := enqueue_all p is (clients h)\<rparr>) i =
    inbox h i @ (if i \<in> set is \<and> attached h i then [p] else [])"
  by (auto simp: inbox_def attached_def enqueue_all_get split: option.splits)

lemma hub_ok_counters: "hub_ok (h\<lparr>ws_messages_broadcast := m\<rparr>) \<longleftrightarrow> hub_ok h"
  by (simp add: hub_ok_def attached_def)

lemma hub_okD:
  assumes "hub_ok h"
  shows "distinct (subscribers h t)" "i \<in> set (subscribers h t) \<Longrightarrow> attached h i"
    and "distinct (sessions_of h u)" "i \<in> set (sessions_of h u) \<longleftrightarrow> user_of h i = Some u"
  using assms by (simp_all add: hub_ok_def)

end
