(* ===== verification/Ws_Hub_Inv.thy ===== *)
theory Ws_Hub_Inv
  imports Ws_Hub
begin

text \<open>
  The invariant of the hub and its interface. Every operation keeps the invariant when it is used the way
  a session uses it: subscriptions and authentication of connected clients only, and a client that
  authenticates again does so as the same user. The locale \<open>message_hub\<close> states what senders rely on and
  derives what a sequence of sends delivers.
\<close>

section \<open>Maps of sets\<close>

lemma add_member_get:
  "hm_get_or [] (add_member k i m) k' = (if k' = k then List.insert i (hm_get_or [] m k) else hm_get_or [] m k')"
  by (simp add: add_member_def kv_simps)

lemma add_member_wf: "hm_wf m \<Longrightarrow> hm_wf (add_member k i m)"
  by (simp add: add_member_def AList.distinct_update)

lemma add_member_nonempty: "hm_get m k' \<noteq> Some [] \<Longrightarrow> hm_get (add_member k i m) k' \<noteq> Some []"
  by (auto simp: add_member_def AList.update_conv' List.insert_def split: if_splits)

lemma drop_subscriber_keys: "set (map fst (drop_subscriber i ts)) \<subseteq> set (map fst ts)"
  by (induction ts) (auto simp: drop_subscriber_def)

lemma drop_subscriber_wf: "hm_wf ts \<Longrightarrow> hm_wf (drop_subscriber i ts)"
proof (induction ts)
  case (Cons tv ts)
  then show ?case
    using drop_subscriber_keys [of i ts] by (cases tv) (auto simp: drop_subscriber_def)
qed (simp add: drop_subscriber_def)

lemma drop_subscriber_get: "hm_wf ts \<Longrightarrow> hm_get_or [] (drop_subscriber i ts) t = removeAll i (hm_get_or [] ts t)"
proof (induction ts)
  case (Cons tv ts)
  obtain t0 subs where tv: "tv = (t0, subs)" by (cases tv)
  have "t0 \<notin> fst ` set (drop_subscriber i ts)" using Cons.prems tv drop_subscriber_keys [of i ts] by auto
  then have "hm_get (drop_subscriber i ts) t0 = None" by (simp add: map_of_eq_None_iff)
  moreover have "drop_subscriber i (tv # ts) =
      (if removeAll i subs = [] then drop_subscriber i ts else (t0, removeAll i subs) # drop_subscriber i ts)"
    by (simp add: drop_subscriber_def tv)
  ultimately show ?case
    using Cons tv by (simp add: hm_get_or_def)
qed (simp add: drop_subscriber_def hm_get_or_def)

lemma drop_user_client_get:
  "hm_wf us \<Longrightarrow> hm_get_or [] (drop_user_client u i us) v = (if v = u then removeAll i (hm_get_or [] us v) else hm_get_or [] us v)"
  by (cases "hm_get us u") (auto simp: drop_user_client_def hm_get_or_def AList.update_conv' AList.delete_conv')

lemma drop_user_client_wf: "hm_wf us \<Longrightarrow> hm_wf (drop_user_client u i us)"
  by (auto simp: drop_user_client_def AList.distinct_update AList.distinct_delete split: option.splits)

lemma drop_user_client_nonempty: "hm_wf us \<Longrightarrow> hm_get us v \<noteq> Some [] \<Longrightarrow> hm_get (drop_user_client u i us) v \<noteq> Some []"
  by (auto simp: drop_user_client_def AList.update_conv' AList.delete_conv' split: option.splits if_splits)

lemma hm_remove_length: "hm_wf m \<Longrightarrow> hm_get m k = Some v \<Longrightarrow> length m = Suc (length (hm_remove k m))"
proof (induction m)
  case (Cons kv m)
  have "hm_remove k m = m" if "k \<notin> fst ` set m" using that by (rule bt_remove_fresh)
  with Cons show ?case by (cases kv) (auto split: if_splits)
qed simp

section \<open>The operations keep the invariant\<close>

lemma hub_new_ok: "hub_ok hub_new"
  by (simp add: hub_ok_def hub_new_def hm_get_or_def attached_def)

lemma register_ok:
  assumes ok: "hub_ok h" and room: "next_client_id h + 1 < u64_lim" and r: "register h = (i, h')"
  shows "hub_ok h'" and "\<not> attached h i" and "attached h' j \<longleftrightarrow> attached h j \<or> j = i"
    and "user_of h' j = user_of h j" and "inbox h' j = inbox h j"
    and "topics h' = topics h" and "user_clients h' = user_clients h"
proof -
  have h': "i = next_client_id h" "h' = h\<lparr>next_client_id := i + 1,
      clients := hm_insert i \<lparr>cs_tx = [], cs_user_id = None\<rparr> (clients h), ws_active_connections := ws_active_connections h + 1\<rparr>"
    using r room by (auto simp: register_def Let_def)
  show fresh: "\<not> attached h i" using ok by (auto simp: hub_ok_def h'(1))
  then have none: "hm_get (clients h) i = None" by (simp add: attached_def)
  show conn: "attached h' j \<longleftrightarrow> attached h j \<or> j = i" for j
    by (simp add: h'(2) attached_def AList.update_conv')
  show user: "user_of h' j = user_of h j" for j
    using none by (simp add: h'(2) AList.update_conv')
  show "inbox h' j = inbox h j" using none by (simp add: inbox_def h'(2) AList.update_conv')
  show frame: "topics h' = topics h" "user_clients h' = user_clients h" by (simp_all add: h'(2))
  have "length (clients h') = Suc (length (clients h))" by (simp add: h'(2) hm_insert_fresh [OF none])
  moreover have "hm_wf (clients h')" using ok by (simp add: h'(2) AList.distinct_update hub_ok_def)
  moreover have "\<forall>j. attached h' j \<longrightarrow> j < next_client_id h'"
    using ok unfolding conn by (auto simp: hub_ok_def h')
  moreover have "ws_active_connections h' = ws_active_connections h + 1" by (simp add: h'(2))
  ultimately show "hub_ok h'"
    using ok unfolding hub_ok_def frame user conn by auto
qed

lemma subscribe_ok:
  assumes "hub_ok h" and "attached h i"
  shows "hub_ok (subscribe i t h)"
  using assms by (auto simp: hub_ok_def subscribe_def attached_def add_member_wf add_member_get)

lemma unsubscribe_get:
  "subscribers (unsubscribe i t h) t' = (if t' = t then removeAll i (subscribers h t') else subscribers h t')"
  by (auto simp: unsubscribe_def hm_get_or_def AList.update_conv' split: option.splits)

lemma unsubscribe_frame:
  "clients (unsubscribe i t h) = clients h" "user_clients (unsubscribe i t h) = user_clients h"
  "next_client_id (unsubscribe i t h) = next_client_id h" "ws_active_connections (unsubscribe i t h) = ws_active_connections h"
  "hm_wf (topics h) \<Longrightarrow> hm_wf (topics (unsubscribe i t h))"
  by (simp_all add: unsubscribe_def AList.distinct_update split: option.splits)

lemma unsubscribe_attached: "attached (unsubscribe i t h) = attached h"
  by (simp add: fun_eq_iff attached_def unsubscribe_frame)

lemma unsubscribe_ok: "hub_ok h \<Longrightarrow> hub_ok (unsubscribe i t h)"
  unfolding hub_ok_def by (auto simp: unsubscribe_frame unsubscribe_get unsubscribe_attached distinct_removeAll)

lemma authenticate_frame:
  assumes "attached h i"
  shows "attached (authenticate i u h) = attached h"
    and "user_of (authenticate i u h) j = (if j = i then Some u else user_of h j)"
    and "inbox (authenticate i u h) = inbox h" and "topics (authenticate i u h) = topics h"
    and "sessions_of (authenticate i u h) v = (if v = u then List.insert i (sessions_of h u) else sessions_of h v)"
    and "length (clients (authenticate i u h)) = length (clients h)"
    and "next_client_id (authenticate i u h) = next_client_id h"
    and "ws_active_connections (authenticate i u h) = ws_active_connections h"
proof -
  obtain c where c: "hm_get (clients h) i = Some c" using assms by (auto simp: attached_def)
  then have h': "authenticate i u h = h\<lparr>clients := hm_insert i (c\<lparr>cs_user_id := Some u\<rparr>) (clients h),
      user_clients := add_member u i (user_clients h)\<rparr>" by (simp add: authenticate_def Let_def)
  have "i \<in> set (map fst (clients h))" using c by (force dest: map_of_SomeD)
  then have "map fst (hm_insert i x (clients h)) = map fst (clients h)" for x by (simp add: AList.update_keys)
  from arg_cong [OF this, of length] show "length (clients (authenticate i u h)) = length (clients h)"
    by (simp add: h')
  show "attached (authenticate i u h) = attached h" "inbox (authenticate i u h) = inbox h"
    using c by (simp_all add: h' attached_def inbox_def fun_eq_iff AList.update_conv')
qed (use assms in \<open>auto simp: authenticate_def attached_def AList.update_conv' add_member_get split: option.splits\<close>)

lemma authenticate_ok:
  assumes ok: "hub_ok h" and conn: "attached h i" and same: "user_of h i = None \<or> user_of h i = Some u"
  shows "hub_ok (authenticate i u h)"
proof -
  note frame = authenticate_frame [OF conn]
  have "hm_wf (clients (authenticate i u h))" "hm_wf (user_clients (authenticate i u h))"
    "\<forall>v. hm_get (user_clients (authenticate i u h)) v \<noteq> Some []"
    using ok by (auto simp: hub_ok_def authenticate_def AList.distinct_update add_member_wf add_member_nonempty Let_def
        simp del: map_of_eq_Some_iff split: option.splits)
  moreover have "j \<in> set (sessions_of (authenticate i u h) v) \<longleftrightarrow> user_of (authenticate i u h) j = Some v" for j v
    unfolding frame(2,5) using hub_okD(4) [OF ok] same by auto
  moreover have "distinct (sessions_of (authenticate i u h) v)" for v
    using hub_okD(3) [OF ok] by (simp add: frame(5))
  ultimately show ?thesis
    using ok unfolding hub_ok_def frame(1,4,6,7,8) by blast
qed

lemma unregister_frame:
  assumes ok: "hub_ok h"
  shows "attached (unregister i h) j \<longleftrightarrow> attached h j \<and> j \<noteq> i"
    and "user_of (unregister i h) j = (if j = i then None else user_of h j)"
    and "inbox (unregister i h) j = (if j = i then [] else inbox h j)"
    and "subscribers (unregister i h) t = removeAll i (subscribers h t)"
    and "sessions_of (unregister i h) u = removeAll i (sessions_of h u)"
    and "next_client_id (unregister i h) = next_client_id h"
proof -
  have wf: "hm_wf (topics h)" "hm_wf (user_clients h)" using ok by (simp_all add: hub_ok_def)
  have sessions: "i \<notin> set (sessions_of h v)" if "user_of h i \<noteq> Some v" for v
    using that hub_okD(4) [OF ok, of i v] by simp
  show "sessions_of (unregister i h) u = removeAll i (sessions_of h u)"
    using sessions [of u] wf
    by (cases "user_of h i") (auto simp: unregister_def Let_def drop_user_client_get)
  show "subscribers (unregister i h) t = removeAll i (subscribers h t)"
    using wf by (simp add: unregister_def Let_def drop_subscriber_get split: option.split)
qed (simp_all add: unregister_def Let_def attached_def inbox_def AList.delete_conv' split: option.split)

lemma unregister_ok:
  assumes ok: "hub_ok h"
  shows "hub_ok (unregister i h)"
proof -
  note frame = unregister_frame [OF ok]
  have wf: "hm_wf (clients (unregister i h))" "hm_wf (topics (unregister i h))" "hm_wf (user_clients (unregister i h))"
    "\<forall>u. hm_get (user_clients (unregister i h)) u \<noteq> Some []"
    using ok by (auto simp: hub_ok_def unregister_def Let_def AList.distinct_delete drop_subscriber_wf drop_user_client_wf
        drop_user_client_nonempty simp del: map_of_eq_Some_iff split: option.splits)
  have "ws_active_connections (unregister i h) = int (length (clients (unregister i h)))"
  proof (cases "hm_get (clients h) i")
    case None
    then have "hm_remove i (clients h) = clients h" by (intro bt_remove_fresh) (simp add: map_of_eq_None_iff)
    with None ok show ?thesis by (simp add: unregister_def hub_ok_def)
  next
    case (Some c)
    then have "length (clients h) = Suc (length (hm_remove i (clients h)))"
      using ok by (intro hm_remove_length) (simp_all add: hub_ok_def)
    with Some ok show ?thesis by (simp add: unregister_def Let_def hub_ok_def split: option.split)
  qed
  moreover have "j \<in> set (sessions_of (unregister i h) v) \<longleftrightarrow> user_of (unregister i h) j = Some v" for j v
    unfolding frame(2,5) using hub_okD(4) [OF ok] by auto
  moreover have "distinct (sessions_of (unregister i h) v)" "distinct (subscribers (unregister i h) t)"
    "\<forall>j \<in> set (subscribers (unregister i h) t). attached (unregister i h) j" for v t
    using hub_okD(1-3) [OF ok] by (auto simp: frame distinct_removeAll)
  ultimately show ?thesis
    using ok wf unfolding hub_ok_def [of "unregister i h"] by (auto simp: frame(1,6) hub_ok_def)
qed

section \<open>The interface\<close>

text \<open>
  What the sessions and the listener rely on: a message sent on a topic, to a user or to a client reaches
  exactly the clients that are subscribed, authenticated as the user, or addressed, once each and behind
  everything sent before; sending changes no subscription, no identity and no connection.
\<close>

datatype 'm push = ToTopic string 'm | ToUser nat 'm

fun deliver_push :: "(string \<Rightarrow> 'm \<Rightarrow> 'h \<Rightarrow> 'h) \<Rightarrow> (nat \<Rightarrow> 'm \<Rightarrow> 'h \<Rightarrow> 'h) \<Rightarrow> 'm push \<Rightarrow> 'h \<Rightarrow> 'h" where
  "deliver_push to_topic to_user (ToTopic t m) h = to_topic t m h"
| "deliver_push to_topic to_user (ToUser u m) h = to_user u m h"

text \<open>The message of a push, if it is addressed to a client with these subscriptions and this user.\<close>

fun addressed :: "(string \<Rightarrow> bool) \<Rightarrow> nat option \<Rightarrow> 'm push \<Rightarrow> 'm list" where
  "addressed subs user (ToTopic t m) = (if subs t then [m] else [])"
| "addressed subs user (ToUser u m) = (if user = Some u then [m] else [])"

definition payloads :: "('m \<Rightarrow> string option) \<Rightarrow> 'm list \<Rightarrow> string list" where
  "payloads encode ms = List.map_filter encode ms"

lemma payloads_simps [simp]: "payloads encode [] = []" "payloads encode (xs @ ys) = payloads encode xs @ payloads encode ys"
  by (simp_all add: payloads_def map_filter_def)

locale message_hub =
  fixes ok :: "'h \<Rightarrow> bool"
    and inbox_of :: "'h \<Rightarrow> nat \<Rightarrow> string list"
    and subscribed :: "'h \<Rightarrow> nat \<Rightarrow> string \<Rightarrow> bool"
    and owner :: "'h \<Rightarrow> nat \<Rightarrow> nat option"
    and encode :: "'m \<Rightarrow> string option"
    and to_topic :: "string \<Rightarrow> 'm \<Rightarrow> 'h \<Rightarrow> 'h"
    and to_user :: "nat \<Rightarrow> 'm \<Rightarrow> 'h \<Rightarrow> 'h"
  assumes topic_ok: "ok h \<Longrightarrow> ok (to_topic t m h) \<and> subscribed (to_topic t m h) = subscribed h \<and> owner (to_topic t m h) = owner h"
    and user_ok: "ok h \<Longrightarrow> ok (to_user u m h) \<and> subscribed (to_user u m h) = subscribed h \<and> owner (to_user u m h) = owner h"
    and topic_inbox: "ok h \<Longrightarrow> inbox_of (to_topic t m h) i = inbox_of h i @ payloads encode (addressed (subscribed h i) (owner h i) (ToTopic t m))"
    and user_inbox: "ok h \<Longrightarrow> inbox_of (to_user u m h) i = inbox_of h i @ payloads encode (addressed (subscribed h i) (owner h i) (ToUser u m))"
begin

lemma push_ok:
  assumes "ok h"
  shows "ok (deliver_push to_topic to_user p h)" and "subscribed (deliver_push to_topic to_user p h) = subscribed h"
    and "owner (deliver_push to_topic to_user p h) = owner h"
    and "inbox_of (deliver_push to_topic to_user p h) i = inbox_of h i @ payloads encode (addressed (subscribed h i) (owner h i) p)"
  using assms topic_ok user_ok topic_inbox user_inbox by (cases p; simp)+

lemma pushes_ok:
  assumes "ok h"
  shows "ok (fold (deliver_push to_topic to_user) ps h) \<and> subscribed (fold (deliver_push to_topic to_user) ps h) = subscribed h \<and>
    owner (fold (deliver_push to_topic to_user) ps h) = owner h"
  using assms by (induction ps arbitrary: h) (simp_all add: push_ok)

text \<open>A client receives, in order, the messages of the pushes that are addressed to it, and nothing else.\<close>

lemma pushes_delivered:
  "ok h \<Longrightarrow> inbox_of (fold (deliver_push to_topic to_user) ps h) i =
    inbox_of h i @ payloads encode (concat (map (addressed (subscribed h i) (owner h i)) ps))"
  by (induction ps arbitrary: h) (simp_all add: push_ok)

end

abbreviation subscribed_to :: "hub \<Rightarrow> nat \<Rightarrow> string \<Rightarrow> bool" where
  "subscribed_to h i t \<equiv> i \<in> set (subscribers h t)"

lemma broadcast_topic_eq:
  "broadcast_topic encode t m h = (case encode m of None \<Rightarrow> h | Some p \<Rightarrow>
     if hm_get (topics h) t = None then h
     else h\<lparr>clients := enqueue_all p (subscribers h t) (clients h),
       ws_messages_broadcast := hm_insert t (hm_get_or 0 (ws_messages_broadcast h) t + 1) (ws_messages_broadcast h)\<rparr>)"
  by (auto simp: broadcast_topic_def hm_get_or_def split: option.splits)

lemma enqueue_none [simp]: "enqueue_all p [] cs = cs"
  by (simp add: enqueue_all_def)

lemma send_private_eq:
  "send_private encode u m h = (case encode m of None \<Rightarrow> h | Some p \<Rightarrow> h\<lparr>clients := enqueue_all p (sessions_of h u) (clients h)\<rparr>)"
  by (auto simp: send_private_def hm_get_or_def split: option.splits)

lemma broadcast_frame:
  assumes ok: "hub_ok h"
  shows "hub_ok (broadcast_topic encode t m h)" and "topics (broadcast_topic encode t m h) = topics h"
    and "user_of (broadcast_topic encode t m h) = user_of h" and "attached (broadcast_topic encode t m h) = attached h"
    and "inbox (broadcast_topic encode t m h) i = inbox h i @ (if i \<in> set (subscribers h t) then payloads encode [m] else [])"
proof -
  note dist = hub_okD(1) [OF ok, of t]
  show "hub_ok (broadcast_topic encode t m h)"
    using hub_ok_deliver [OF ok dist]
    by (auto simp: broadcast_topic_eq hub_ok_counters ok split: option.splits)
  show "user_of (broadcast_topic encode t m h) = user_of h" "attached (broadcast_topic encode t m h) = attached h"
    using enqueue_all_user [OF dist] deliver_frame(1) [OF dist]
    by (auto simp: broadcast_topic_eq fun_eq_iff attached_def split: option.splits)
  have "inbox (h\<lparr>ws_messages_broadcast := x\<rparr>) i = inbox h i" for x h by (simp add: inbox_def)
  moreover have "subscribers h t = []" if "hm_get (topics h) t = None" using that by (simp add: hm_get_or_def)
  ultimately show "inbox (broadcast_topic encode t m h) i = inbox h i @ (if i \<in> set (subscribers h t) then payloads encode [m] else [])"
    using inbox_deliver [OF dist, where h = h and i = i] hub_okD(2) [OF ok, of i t]
    by (auto simp: broadcast_topic_eq payloads_def map_filter_simps split: option.splits)
qed (auto simp: broadcast_topic_eq split: option.splits)

lemma private_frame:
  assumes ok: "hub_ok h"
  shows "hub_ok (send_private encode u m h)" and "topics (send_private encode u m h) = topics h"
    and "user_of (send_private encode u m h) = user_of h" and "attached (send_private encode u m h) = attached h"
    and "inbox (send_private encode u m h) i = inbox h i @ (if user_of h i = Some u then payloads encode [m] else [])"
proof -
  note dist = hub_okD(3) [OF ok, of u]
  show "hub_ok (send_private encode u m h)"
    using hub_ok_deliver [OF ok dist] ok by (simp add: send_private_eq split: option.split)
  show "user_of (send_private encode u m h) = user_of h" "attached (send_private encode u m h) = attached h"
    using enqueue_all_user [OF dist] deliver_frame(1) [OF dist]
    by (auto simp: send_private_eq fun_eq_iff attached_def split: option.splits)
  have "attached h i" if "user_of h i = Some u" using that by (cases "hm_get (clients h) i") (simp_all add: attached_def)
  then show "inbox (send_private encode u m h) i = inbox h i @ (if user_of h i = Some u then payloads encode [m] else [])"
    using inbox_deliver [OF dist, where h = h and i = i] hub_okD(4) [OF ok, of i u]
    by (auto simp: send_private_eq payloads_def map_filter_simps split: option.splits)
qed (auto simp: send_private_eq split: option.splits)

interpretation hub: message_hub hub_ok inbox subscribed_to user_of encode "broadcast_topic encode" "send_private encode"
  for encode
  by unfold_locales (simp_all add: broadcast_frame private_frame)

end
