(* ===== verification/Ws_Session.thy ===== *)
theory Ws_Session
  imports Ws_Hub_Inv
begin

text \<open>
  A WebSocket session (\<^verbatim>\<open>rs-gateway/src/ws/session.rs\<close>). The loop of \<^verbatim>\<open>handle_ws_session\<close> waits for the
  client's channel in the hub and for frames of the socket; one turn of it is the function
  \<open>session_turn\<close> on the event that \<^verbatim>\<open>select!\<close> picked. Arguments stand for the JSON codec (\<open>encode\<close>, and
  \<open>decode\<close> with the error text of serde), for \<^verbatim>\<open>verify_token\<close> (the user id of the claims) and for the
  results of writing to the socket.
\<close>

definition format_topic :: "string \<Rightarrow> string option \<Rightarrow> string" where
  "format_topic channel market =
     (case market of None \<Rightarrow> to_lowercase channel | Some m \<Rightarrow> to_lowercase channel @ '':'' @ to_uppercase m)"

record ws_codec =
  encode :: "ws_server_msg \<Rightarrow> string option"
  decode :: "string \<Rightarrow> string + ws_client_msg"
  verify_token :: "string \<Rightarrow> nat option"

abbreviation send_client :: "ws_codec \<Rightarrow> nat \<Rightarrow> ws_server_msg \<Rightarrow> hub \<Rightarrow> hub" where
  "send_client c \<equiv> send_to_client (encode c)"

fun handle_client_msg :: "ws_codec \<Rightarrow> nat \<Rightarrow> ws_client_msg \<Rightarrow> hub \<Rightarrow> hub" where
  "handle_client_msg c i (Subscribe channel market) h =
     send_client c i (Subscribed channel market) (subscribe i (format_topic channel market) h)"
| "handle_client_msg c i (Unsubscribe channel market) h =
     send_client c i (Unsubscribed channel market) (unsubscribe i (format_topic channel market) h)"
| "handle_client_msg c i (Auth token) h =
     (case verify_token c token of
        Some u \<Rightarrow> send_client c i (Authenticated u) (authenticate i u h)
      | None \<Rightarrow> send_client c i (WsError ''Invalid or expired JWT token'') h)"
| "handle_client_msg c i WsPing h = send_client c i Pong h"

definition handle_text :: "ws_codec \<Rightarrow> nat \<Rightarrow> string \<Rightarrow> hub \<Rightarrow> hub" where
  "handle_text c i text h =
     (case decode c text of
        Inl e \<Rightarrow> send_client c i (WsError (''Malformed JSON: '' @ e)) h
      | Inr msg \<Rightarrow> handle_client_msg c i msg h)"

section \<open>The loop\<close>

text \<open>
  What \<^verbatim>\<open>select!\<close> can pick, with the results of the writes the branch makes: a payload of the channel, a
  frame, an error of the socket, or the \<^verbatim>\<open>else\<close> branch, when the stream of frames has ended and the
  channel is closed.
\<close>

datatype ws_frame = TextFrame string | PingFrame string bool | CloseFrame | OtherFrame

datatype session_event = Payload bool | Frame ws_frame | SocketError | AllClosed

datatype socket_out = SentText string | SentPong string | SentClose

definition take_payload :: "nat \<Rightarrow> hub \<Rightarrow> (string \<times> hub) option" where
  "take_payload i h =
     (case hm_get (clients h) i of
        None \<Rightarrow> None
      | Some c \<Rightarrow> (case cs_tx c of [] \<Rightarrow> None
          | p # ps \<Rightarrow> Some (p, h\<lparr>clients := hm_insert i (c\<lparr>cs_tx := ps\<rparr>) (clients h)\<rparr>)))"

text \<open>
  One turn: \<open>None\<close> when the branch is not ready, otherwise the hub, what was written to the socket, and
  whether the loop goes on. The channel of a connected client is never closed, since the hub holds its
  sender.
\<close>

fun session_turn :: "ws_codec \<Rightarrow> nat \<Rightarrow> session_event \<Rightarrow> hub \<Rightarrow> (hub \<times> socket_out list \<times> bool) option" where
  "session_turn c i (Payload sent) h =
     (case take_payload i h of
        None \<Rightarrow> None
      | Some (p, h') \<Rightarrow> if sent then Some (h', [SentText p], True) else Some (h', [], False))"
| "session_turn c i (Frame (TextFrame text)) h = Some (handle_text c i text h, [], True)"
| "session_turn c i (Frame (PingFrame bytes sent)) h = (if sent then Some (h, [SentPong bytes], True) else Some (h, [], False))"
| "session_turn c i (Frame CloseFrame) h = Some (h, [SentClose], False)"
| "session_turn c i (Frame OtherFrame) h = Some (h, [], True)"
| "session_turn c i SocketError h = Some (h, [], False)"
| "session_turn c i AllClosed h = (if attached h i then None else Some (h, [], False))"

text \<open>The whole session: register, loop over the events, unregister.\<close>

fun session_loop :: "ws_codec \<Rightarrow> nat \<Rightarrow> session_event list \<Rightarrow> hub \<Rightarrow> (hub \<times> socket_out list \<times> bool) option" where
  "session_loop c i [] h = Some (h, [], True)"
| "session_loop c i (e # es) h =
     do { (h1, out1, running) \<leftarrow> session_turn c i e h;
          (if running then do { (h2, out2, r) \<leftarrow> session_loop c i es h1; Some (h2, out1 @ out2, r) }
           else Some (unregister i h1, out1, False)) }"

definition handle_ws_session :: "ws_codec \<Rightarrow> session_event list \<Rightarrow> hub \<Rightarrow> (hub \<times> socket_out list \<times> bool) option" where
  "handle_ws_session c es h = (let (i, h1) = register h in session_loop c i es h1)"

section \<open>Turns keep the invariant\<close>

lemma send_to_client_frame:
  "attached (send_to_client enc i m h) = attached h" "user_of (send_to_client enc i m h) = user_of h"
  "topics (send_to_client enc i m h) = topics h"
  "inbox (send_to_client enc i m h) j = inbox h j @ (if j = i \<and> attached h i then payloads enc [m] else [])"
  "hub_ok h \<Longrightarrow> hub_ok (send_to_client enc i m h)"
proof -
  have eq: "send_to_client enc i m h = (case enc m of None \<Rightarrow> h | Some p \<Rightarrow> h\<lparr>clients := enqueue_all p [i] (clients h)\<rparr>)"
    by (simp add: send_to_client_def enqueue_all_def split: option.split)
  note one = distinct_singleton [of i]
  show "attached (send_to_client enc i m h) = attached h" "hub_ok h \<Longrightarrow> hub_ok (send_to_client enc i m h)"
    using deliver_frame(1) [OF one] hub_ok_deliver [OF _ one] by (simp_all add: eq split: option.split)
  show "user_of (send_to_client enc i m h) = user_of h"
    using enqueue_all_user [OF one] by (auto simp: eq fun_eq_iff split: option.split)
  show "inbox (send_to_client enc i m h) j = inbox h j @ (if j = i \<and> attached h i then payloads enc [m] else [])"
    using inbox_deliver [OF one, where h = h and i = j]
    by (auto simp: eq payloads_def map_filter_simps split: option.split)
qed (simp add: send_to_client_def split: option.split)

lemma take_payload_frame:
  assumes "take_payload i h = Some (p, h')"
  shows "attached h' = attached h" and "user_of h' = user_of h" and "topics h' = topics h" and "user_clients h' = user_clients h"
    and "inbox h i = p # inbox h' i" and "j \<noteq> i \<Longrightarrow> inbox h' j = inbox h j" and "hub_ok h \<Longrightarrow> hub_ok h'"
proof -
  obtain c ps where c: "hm_get (clients h) i = Some c" "cs_tx c = p # ps"
    and h': "h' = h\<lparr>clients := hm_insert i (c\<lparr>cs_tx := ps\<rparr>) (clients h)\<rparr>"
    using assms by (auto simp: take_payload_def split: option.splits list.splits)
  show conn: "attached h' = attached h" and user: "user_of h' = user_of h"
    using c by (auto simp: h' attached_def fun_eq_iff AList.update_conv')
  show "inbox h i = p # inbox h' i" "j \<noteq> i \<Longrightarrow> inbox h' j = inbox h j"
    using c by (simp_all add: inbox_def h' AList.update_conv')
  have "i \<in> set (map fst (clients h))" using c(1) by (force dest: map_of_SomeD)
  then have keys: "map fst (clients h') = map fst (clients h)" by (simp add: h' AList.update_keys)
  then have "length (clients h') = length (clients h)" by (metis length_map)
  with keys show "hub_ok h \<Longrightarrow> hub_ok h'"
    using conn user unfolding hub_ok_def by (simp add: h' fun_eq_iff del: map_eq_conv)
qed (use assms in \<open>auto simp: take_payload_def split: option.splits list.splits\<close>)

text \<open>The one condition on what clients send: who authenticates again does so as the same user.\<close>

fun same_identity :: "ws_codec \<Rightarrow> nat \<Rightarrow> session_event \<Rightarrow> hub \<Rightarrow> bool" where
  "same_identity c i (Frame (TextFrame text)) h =
     (case decode c text of
        Inr (Auth token) \<Rightarrow> (case verify_token c token of None \<Rightarrow> True | Some u \<Rightarrow> user_of h i = None \<or> user_of h i = Some u)
      | _ \<Rightarrow> True)"
| "same_identity c i e h = True"

lemma handle_text_ok:
  assumes ok: "hub_ok h" and conn: "attached h i" and same: "same_identity c i (Frame (TextFrame text)) h"
  shows "hub_ok (handle_text c i text h)" and "attached (handle_text c i text h) = attached h"
proof -
  have "hub_ok (handle_client_msg c i msg h) \<and> attached (handle_client_msg c i msg h) = attached h"
    if "decode c text = Inr msg" for msg
  proof (cases msg)
    case (Auth token)
    then show ?thesis
      using that same authenticate_ok [OF ok conn] authenticate_frame(1) [OF conn]
      by (cases "verify_token c token") (simp_all add: send_to_client_frame ok)
  qed (use ok conn in \<open>simp_all add: send_to_client_frame subscribe_ok unsubscribe_ok unsubscribe_attached, simp add: subscribe_def attached_def fun_eq_iff\<close>)
  then show "hub_ok (handle_text c i text h)" "attached (handle_text c i text h) = attached h"
    using ok by (auto simp: handle_text_def send_to_client_frame split: sum.split)
qed

lemma session_turn_ok:
  assumes turn: "session_turn c i e h = Some (h', out, r)" and ok: "hub_ok h" and conn: "attached h i"
    and same: "same_identity c i e h"
  shows "hub_ok h' \<and> attached h' = attached h"
proof (cases e)
  case (Payload sent)
  then show ?thesis
    using turn ok by (auto dest: take_payload_frame split: option.splits if_splits prod.splits)
next
  case (Frame f)
  then show ?thesis
    using turn ok handle_text_ok [OF ok conn] same by (cases f) (auto split: if_splits)
qed (use turn ok conn in simp_all)

end
