(* ===== verification/Ws_Listener.thy ===== *)
theory Ws_Listener
  imports Ws_Session Ledger_Worker
begin

text \<open>
  The stream listener (\<^verbatim>\<open>rs-gateway/src/ws/listener.rs\<close>): it follows the execution stream and forwards
  every event to the hub, and counts trades and fees. The clock is the argument \<open>now\<close> (milliseconds per
  record id). \<open>None\<close> is the panic on overflow of the fee sum in a checked build.
\<close>

record listener =
  ln_hub :: hub
  ln_last_id :: string
  ln_trades_executed :: "(string, nat) hash_map"
  ln_fees_collected :: nat

abbreviation broadcast :: "ws_codec \<Rightarrow> string \<Rightarrow> ws_server_msg \<Rightarrow> hub \<Rightarrow> hub" where
  "broadcast c \<equiv> broadcast_topic (encode c)"

abbreviation private_to :: "ws_codec \<Rightarrow> nat \<Rightarrow> ws_server_msg \<Rightarrow> hub \<Rightarrow> hub" where
  "private_to c \<equiv> send_private (encode c)"

definition fill_word :: "nat \<Rightarrow> string" where
  "fill_word remaining = (if remaining = 0 then ''filled'' else ''partially_filled'')"

definition count_trade :: "bool \<Rightarrow> trade_executed \<Rightarrow> listener \<Rightarrow> listener option" where
  "count_trade oc te l =
     do { let market = to_uppercase (te_market te);
          let l1 = l\<lparr>ln_trades_executed := hm_insert market (hm_get_or 0 (ln_trades_executed l) market + 1) (ln_trades_executed l)\<rparr>;
          total_fee \<leftarrow> u64_add oc (te_buyer_fee te) (te_seller_fee te);
          Some (if total_fee > 0 then l1\<lparr>ln_fees_collected := (ln_fees_collected l1 + total_fee) mod u64_lim\<rparr> else l1) }"

definition forward_trade :: "ws_codec \<Rightarrow> int \<Rightarrow> trade_executed \<Rightarrow> hub \<Rightarrow> hub" where
  "forward_trade c timestamp te h =
     (let h1 = broadcast c (''trades:'' @ to_uppercase (te_market te))
            (WsTrade (te_market te) (te_maker_order_id te) (te_taker_order_id te) (te_price te) (te_qty te)
               (te_quote_amount te) timestamp) h;
          h2 = private_to c (te_buyer_id te)
            (OrderUpdate (te_taker_order_id te) (te_market te) ''bid'' (te_price te) (te_taker_remaining_qty te)
               (fill_word (te_taker_remaining_qty te))) h1
      in private_to c (te_seller_id te)
           (OrderUpdate (te_maker_order_id te) (te_market te) ''ask'' (te_price te) (te_maker_remaining_qty te)
              (fill_word (te_maker_remaining_qty te))) h2)"

fun forward_event :: "bool \<Rightarrow> ws_codec \<Rightarrow> int \<Rightarrow> execution_event \<Rightarrow> listener \<Rightarrow> listener option" where
  "forward_event oc c timestamp (TradeExecuted te) l =
     do { l1 \<leftarrow> count_trade oc te l; Some (l1\<lparr>ln_hub := forward_trade c timestamp te (ln_hub l1)\<rparr>) }"
| "forward_event oc c timestamp (OrderCreated ev) l =
     Some (l\<lparr>ln_hub := private_to c (oc_user_id ev) (OrderUpdate (oc_order_id ev) (oc_market ev) (oc_side ev) (oc_price ev)
       (oc_remaining_qty ev) (oc_status ev)) (ln_hub l)\<rparr>)"
| "forward_event oc c timestamp (OrderCancelled order_id user_id remaining) l =
     Some (l\<lparr>ln_hub := private_to c user_id (OrderUpdate order_id ''UNKNOWN'' ''unknown'' 0 remaining ''cancelled'') (ln_hub l)\<rparr>)"
| "forward_event oc c timestamp (FundingExecuted user currency amount op) l = Some l"
| "forward_event oc c timestamp (DepthUpdated market bs as) l =
     Some (l\<lparr>ln_hub := broadcast c (''depth:'' @ to_uppercase market) (WsDepth market bs as) (ln_hub l)\<rparr>)"

fun listen :: "bool \<Rightarrow> ws_codec \<Rightarrow> (string \<Rightarrow> execution_event option) \<Rightarrow> (string \<Rightarrow> int) \<Rightarrow> stream_record list \<Rightarrow> listener
    \<Rightarrow> listener option" where
  "listen oc c dec now [] l = Some l"
| "listen oc c dec now (r # rs) l =
     (let l1 = l\<lparr>ln_last_id := sr_id r\<rparr> in
      case exec_event_of dec r of
        None \<Rightarrow> listen oc c dec now rs l1
      | Some ev \<Rightarrow> do { l2 \<leftarrow> forward_event oc c (now (sr_id r)) ev l1; listen oc c dec now rs l2 })"

text \<open>The loop of \<^verbatim>\<open>run_listener\<close>: a read that fails or times out changes nothing.\<close>

fun listener_loop :: "bool \<Rightarrow> ws_codec \<Rightarrow> (string \<Rightarrow> execution_event option) \<Rightarrow> (string \<Rightarrow> int) \<Rightarrow> poll list \<Rightarrow> listener
    \<Rightarrow> listener option" where
  "listener_loop oc c dec now [] l = Some l"
| "listener_loop oc c dec now (ReadError # ps) l = listener_loop oc c dec now ps l"
| "listener_loop oc c dec now (Timeout # ps) l = listener_loop oc c dec now ps l"
| "listener_loop oc c dec now (Records rs # ps) l = do { l' \<leftarrow> listen oc c dec now rs l; listener_loop oc c dec now ps l' }"

text \<open>The task: it ends at once without a connection, and otherwise begins with what is new (\<^verbatim>\<open>$\<close>).\<close>

definition listener_start :: "hub \<Rightarrow> (string, nat) hash_map \<Rightarrow> nat \<Rightarrow> listener" where
  "listener_start h trades fees = \<lparr>ln_hub = h, ln_last_id = ''$'', ln_trades_executed = trades, ln_fees_collected = fees\<rparr>"

definition run_listener :: "bool \<Rightarrow> ws_codec \<Rightarrow> (string \<Rightarrow> execution_event option) \<Rightarrow> (string \<Rightarrow> int) \<Rightarrow> bool \<Rightarrow> poll list \<Rightarrow>
    hub \<Rightarrow> (string, nat) hash_map \<Rightarrow> nat \<Rightarrow> listener option" where
  "run_listener oc c dec now redis_up ps h trades fees =
     (if redis_up then listener_loop oc c dec now ps (listener_start h trades fees) else Some (listener_start h trades fees))"

lemma listen_append: "listen oc c dec now (xs @ ys) l = do { l' \<leftarrow> listen oc c dec now xs l; listen oc c dec now ys l' }"
  by (induction xs arbitrary: l) (auto simp: Let_def split: option.split intro!: arg_cong [where f = "Option.bind _"])

lemma listener_loop_listen: "listener_loop oc c dec now ps l = listen oc c dec now (concat (map poll_records ps)) l"
  by (induction oc c dec now ps l rule: listener_loop.induct) (auto simp: listen_append intro: Option.bind_cong)

section \<open>What is forwarded\<close>

text \<open>The messages of an event and whom they are addressed to.\<close>

fun event_pushes :: "int \<Rightarrow> execution_event \<Rightarrow> ws_server_msg push list" where
  "event_pushes timestamp (TradeExecuted te) =
     [ToTopic (''trades:'' @ to_uppercase (te_market te))
        (WsTrade (te_market te) (te_maker_order_id te) (te_taker_order_id te) (te_price te) (te_qty te) (te_quote_amount te) timestamp),
      ToUser (te_buyer_id te) (OrderUpdate (te_taker_order_id te) (te_market te) ''bid'' (te_price te)
        (te_taker_remaining_qty te) (fill_word (te_taker_remaining_qty te))),
      ToUser (te_seller_id te) (OrderUpdate (te_maker_order_id te) (te_market te) ''ask'' (te_price te)
        (te_maker_remaining_qty te) (fill_word (te_maker_remaining_qty te)))]"
| "event_pushes timestamp (OrderCreated ev) =
     [ToUser (oc_user_id ev) (OrderUpdate (oc_order_id ev) (oc_market ev) (oc_side ev) (oc_price ev) (oc_remaining_qty ev) (oc_status ev))]"
| "event_pushes timestamp (OrderCancelled order_id user_id remaining) =
     [ToUser user_id (OrderUpdate order_id ''UNKNOWN'' ''unknown'' 0 remaining ''cancelled'')]"
| "event_pushes timestamp (FundingExecuted user currency amount op) = []"
| "event_pushes timestamp (DepthUpdated market bs as) = [ToTopic (''depth:'' @ to_uppercase market) (WsDepth market bs as)]"

definition record_pushes :: "(string \<Rightarrow> execution_event option) \<Rightarrow> (string \<Rightarrow> int) \<Rightarrow> stream_record \<Rightarrow> ws_server_msg push list" where
  "record_pushes dec now r = (case exec_event_of dec r of None \<Rightarrow> [] | Some ev \<Rightarrow> event_pushes (now (sr_id r)) ev)"

fun fees_small :: "execution_event \<Rightarrow> bool" where
  "fees_small (TradeExecuted te) \<longleftrightarrow> te_buyer_fee te + te_seller_fee te < u64_lim"
| "fees_small _ \<longleftrightarrow> True"

lemma forward_event_hub:
  assumes "fees_small ev"
  shows "\<exists>l'. forward_event oc c ts ev l = Some l' \<and> ln_last_id l' = ln_last_id l \<and>
    ln_hub l' = fold (deliver_push (broadcast c) (private_to c)) (event_pushes ts ev) (ln_hub l)"
proof (cases ev)
  case (TradeExecuted te)
  have "\<exists>l1. count_trade oc te l = Some l1 \<and> ln_hub l1 = ln_hub l \<and> ln_last_id l1 = ln_last_id l"
    using assms TradeExecuted by (simp add: count_trade_def Let_def u64_add_ok)
  then show ?thesis using TradeExecuted by (auto simp: forward_trade_def Let_def)
qed simp_all

lemma listen_hub:
  assumes "\<forall>ev \<in> set (List.map_filter (exec_event_of dec) rs). fees_small ev"
  shows "\<exists>l'. listen oc c dec now rs l = Some l' \<and> (rs \<noteq> [] \<longrightarrow> ln_last_id l' = sr_id (last rs)) \<and>
    ln_hub l' = fold (deliver_push (broadcast c) (private_to c)) (concat (map (record_pushes dec now) rs)) (ln_hub l)"
  using assms
proof (induction rs arbitrary: l)
  case (Cons r rs)
  show ?case
  proof (cases "exec_event_of dec r")
    case None
    then show ?thesis
      using Cons.IH [of "l\<lparr>ln_last_id := sr_id r\<rparr>"] Cons.prems
      by (auto simp: map_filter_simps record_pushes_def)
  next
    case (Some ev)
    then obtain l2 where l2: "forward_event oc c (now (sr_id r)) ev (l\<lparr>ln_last_id := sr_id r\<rparr>) = Some l2"
      and id: "ln_last_id l2 = sr_id r"
      and hub: "ln_hub l2 = fold (deliver_push (broadcast c) (private_to c)) (event_pushes (now (sr_id r)) ev) (ln_hub l)"
      using forward_event_hub [of ev oc c "now (sr_id r)" "l\<lparr>ln_last_id := sr_id r\<rparr>"] Cons.prems
      by (auto simp: map_filter_simps)
    obtain l' where "listen oc c dec now rs l2 = Some l'" "rs \<noteq> [] \<longrightarrow> ln_last_id l' = sr_id (last rs)"
      "ln_hub l' = fold (deliver_push (broadcast c) (private_to c)) (concat (map (record_pushes dec now) rs)) (ln_hub l2)"
      "rs = [] \<longrightarrow> l' = l2"
      using Cons.IH [of l2] Cons.prems Some by (cases "rs = []") (auto simp: map_filter_simps)
    with l2 id hub Some show ?thesis by (auto simp: record_pushes_def [of dec now r])
  qed
qed (simp add: map_filter_simps)

text \<open>
  What a client gets from a batch of records: exactly the messages addressed to it, in the order of the
  stream, behind what was already waiting.
\<close>

lemma listen_inbox:
  assumes ok: "hub_ok (ln_hub l)" and fees: "\<forall>ev \<in> set (List.map_filter (exec_event_of dec) rs). fees_small ev"
  shows "\<exists>l'. listen oc c dec now rs l = Some l' \<and> hub_ok (ln_hub l') \<and> attached (ln_hub l') = attached (ln_hub l) \<and>
    (\<forall>i. inbox (ln_hub l') i = inbox (ln_hub l) i @ payloads (encode c)
       (concat (map (addressed (subscribed_to (ln_hub l) i) (user_of (ln_hub l) i)) (concat (map (record_pushes dec now) rs)))))"
proof -
  obtain l' where l': "listen oc c dec now rs l = Some l'"
    and h: "ln_hub l' = fold (deliver_push (broadcast c) (private_to c)) (concat (map (record_pushes dec now) rs)) (ln_hub l)"
    using listen_hub [OF fees] by blast
  have "attached (fold (deliver_push (broadcast c) (private_to c)) ps h) = attached h" if "hub_ok h" for ps h
    using that
  proof (induction ps arbitrary: h)
    case (Cons p ps)
    then show ?case using hub.push_ok(1) [OF Cons.prems] by (cases p) (simp_all add: broadcast_frame private_frame)
  qed simp
  then show ?thesis
    using l' h hub.pushes_ok [OF ok] hub.pushes_delivered [OF ok] ok by auto
qed

section \<open>The gateway's WebSocket side as a whole\<close>

text \<open>
  Connections come and go, sessions take turns in any order, and the listener forwards batches of the
  stream in between. \<open>S\<close> is the set of running sessions.
\<close>

inductive ws_run :: "bool \<Rightarrow> ws_codec \<Rightarrow> (string \<Rightarrow> execution_event option) \<Rightarrow> listener \<Rightarrow> nat set \<Rightarrow> bool" for oc c dec where
  ws_start: "ws_run oc c dec (listener_start hub_new [] 0) {}"
| ws_connect: "ws_run oc c dec l S \<Longrightarrow> next_client_id (ln_hub l) + 1 < u64_lim \<Longrightarrow> register (ln_hub l) = (i, h) \<Longrightarrow>
    ws_run oc c dec (l\<lparr>ln_hub := h\<rparr>) (insert i S)"
| ws_turn: "ws_run oc c dec l S \<Longrightarrow> i \<in> S \<Longrightarrow> same_identity c i e (ln_hub l) \<Longrightarrow>
    session_turn c i e (ln_hub l) = Some (h, out, True) \<Longrightarrow> ws_run oc c dec (l\<lparr>ln_hub := h\<rparr>) S"
| ws_leave: "ws_run oc c dec l S \<Longrightarrow> i \<in> S \<Longrightarrow> same_identity c i e (ln_hub l) \<Longrightarrow>
    session_turn c i e (ln_hub l) = Some (h, out, False) \<Longrightarrow> ws_run oc c dec (l\<lparr>ln_hub := unregister i h\<rparr>) (S - {i})"
| ws_forward: "ws_run oc c dec l S \<Longrightarrow> \<forall>ev \<in> set (List.map_filter (exec_event_of dec) rs). fees_small ev \<Longrightarrow>
    listen oc c dec now rs l = Some l' \<Longrightarrow> ws_run oc c dec l' S"

lemma ws_run_ok: "ws_run oc c dec l S \<Longrightarrow> hub_ok (ln_hub l) \<and> (\<forall>i. attached (ln_hub l) i \<longleftrightarrow> i \<in> S)"
proof (induction rule: ws_run.induct)
  case ws_start
  then show ?case by (simp add: listener_start_def hub_new_ok, simp add: hub_new_def attached_def)
next
  case (ws_connect l S i h)
  then show ?case using register_ok(1,3) [of "ln_hub l" i h] by auto
next
  case (ws_turn l S i e h out)
  then show ?case using session_turn_ok [OF ws_turn.hyps(4)] by simp
next
  case (ws_leave l S i e h out)
  then have "hub_ok h \<and> attached h = attached (ln_hub l)" using session_turn_ok [OF ws_leave.hyps(4)] by simp
  then show ?case using ws_leave.IH unregister_ok unregister_frame(1) by auto
next
  case (ws_forward l S rs now l')
  then show ?case using listen_inbox [of l dec rs oc c now] by auto
qed

end
