(* ===== verification/Ws_Properties.thy ===== *)
theory Ws_Properties
  imports Ws_Listener Settlement
begin

text \<open>
  The properties of the WebSocket side of the gateway: what the tables of the hub say in every state that
  connections, sessions and the stream listener can reach, what reaches whom, and three behaviours at the
  edge as concrete runs: a second authentication, a stream that ends without a close frame, and the order
  ids in the notifications of a trade.
\<close>

section \<open>Connections\<close>








section \<open>The feed\<close>




section \<open>At the edge\<close>

text \<open>
  A client that authenticates a second time, as another user, stays listed under the first: it goes on
  receiving the private messages of the first user, and its entry outlives the session.
\<close>

theorem second_authentication_leaks:
  assumes "hub_ok h" and "attached h i" and "user_of h i = Some u" and "v \<noteq> u"
  shows "user_of (authenticate i v h) i = Some v \<and> i \<in> set (sessions_of (authenticate i v h) u) \<and>
    \<not> attached (unregister i (authenticate i v h)) i \<and> i \<in> set (sessions_of (unregister i (authenticate i v h)) u)"
proof -
  note frame = authenticate_frame [OF assms(2)]
  have u: "i \<in> set (sessions_of h u)" using hub_okD(4) [OF assms(1)] assms(3) by simp
  then have stale: "i \<in> set (sessions_of (authenticate i v h) u)" using assms(4) by (simp add: frame(5))
  have v: "user_of (authenticate i v h) i = Some v" by (simp add: frame(2))
  have "hm_wf (user_clients (authenticate i v h))"
    using assms(1) by (auto simp: authenticate_def Let_def hub_ok_def add_member_wf split: option.splits)
  then have "sessions_of (unregister i (authenticate i v h)) u = sessions_of (authenticate i v h) u"
    using v assms(4) by (simp add: unregister_def Let_def drop_user_client_get)
  moreover have "\<not> attached (unregister i (authenticate i v h)) i"
    by (simp add: unregister_def Let_def attached_def AList.delete_conv' split: option.split)
  ultimately show ?thesis using stale v by simp
qed

text \<open>
  When the stream of frames has ended without a close frame, the \<^verbatim>\<open>else\<close> branch of the loop is not taken
  while the client is registered: with nothing to send, no branch is ready and the session stays.
\<close>

lemma ended_stream_lingers:
  "attached h i \<Longrightarrow> inbox h i = [] \<Longrightarrow> session_turn c i (Payload sent) h = None \<and> session_turn c i AllClosed h = None"
  by (auto simp: take_payload_def inbox_def split: option.splits)

text \<open>
  The private notifications of a trade in which the taker sells: the buyer, whose order rested, is told
  about the order of the seller, and the seller about the order of the buyer.
\<close>

lemma sell_notifications_swapped:
  assumes "tk_side t = Ask" and "trade_event fs market rem (make_trade t p maker_id maker_user q) = TradeExecuted te"
  shows "event_pushes ts (TradeExecuted te) =
    [ToTopic (''trades:'' @ to_uppercase market) (WsTrade market maker_id (tk_order_id t) p q (p * q) ts),
     ToUser maker_user (OrderUpdate (tk_order_id t) market ''bid'' p 0 ''filled''),
     ToUser (tk_user_id t) (OrderUpdate maker_id market ''ask'' p rem (fill_word rem))]"
  using assms by (auto simp: trade_event_def make_trade_def fill_word_def trade_value_def)

end
