(* ===== verification/Engine_Loop.thy ===== *)
theory Engine_Loop
  imports Engine_Safety Streams
begin

text \<open>
  The loop of \<^verbatim>\<open>run_engine_with_db\<close> (\<^verbatim>\<open>rs-engine/src/engine.rs\<close>) and the engine as a service: commands arrive on the
  stream at any time, the engine reads them in batches of any size, reads may fail or time out, and the
  process may be stopped or crash between any two records and be started again.
\<close>

section \<open>The loop\<close>

text \<open>What \<^verbatim>\<open>select!\<close> picks in one iteration: the shutdown signal or the result of the read.\<close>

datatype engine_event = ShutdownSignal | Polled poll

text \<open>The process after the events, and whether the loop is still running; \<open>None\<close> is a panic.\<close>

fun engine_loop ::
  "bool \<Rightarrow> decoders \<Rightarrow> (engine_state \<Rightarrow> 'j option) \<Rightarrow> engine_event list \<Rightarrow> 'j engine_proc \<Rightarrow> ('j engine_proc \<times> bool) option" where
  "engine_loop oc dec to_value [] p = Some (p, True)"
| "engine_loop oc dec to_value (ShutdownSignal # es) p = Some (p, False)"
| "engine_loop oc dec to_value (Polled Timeout # es) p = engine_loop oc dec to_value es p"
| "engine_loop oc dec to_value (Polled ReadError # es) p = engine_loop oc dec to_value es p"
| "engine_loop oc dec to_value (Polled (Records rs) # es) p =
     do { p' \<leftarrow> process_batch oc dec to_value rs p; engine_loop oc dec to_value es p' }"

definition run_engine_with_db ::
  "bool \<Rightarrow> decoders \<Rightarrow> (engine_state \<Rightarrow> 'j option) \<Rightarrow> ('j \<Rightarrow> engine_state option) \<Rightarrow> (string \<Rightarrow> stream_record list option) \<Rightarrow>
     engine_event list \<Rightarrow> engine_state \<Rightarrow> publisher \<Rightarrow> 'j snapshot_table option \<Rightarrow> string \<Rightarrow> ('j engine_proc \<times> bool) option" where
  "run_engine_with_db oc dec to_value from_value xrange es st pub db last_id =
     do { p \<leftarrow> start_engine oc dec from_value xrange st pub db last_id; engine_loop oc dec to_value es p }"

definition run_engine ::
  "bool \<Rightarrow> decoders \<Rightarrow> (engine_state \<Rightarrow> 'j option) \<Rightarrow> ('j \<Rightarrow> engine_state option) \<Rightarrow> (string \<Rightarrow> stream_record list option) \<Rightarrow>
     engine_event list \<Rightarrow> engine_state \<Rightarrow> publisher \<Rightarrow> ('j engine_proc \<times> bool) option" where
  "run_engine oc dec to_value from_value xrange es st pub =
     run_engine_with_db oc dec to_value from_value xrange es st pub None ''0-0''"

section \<open>The service\<close>

text \<open>
  \<open>engine_service oc dec to_value from_value st0 rs e t\<close>: with the records \<open>rs\<close> on the stream, the engine is down
  (\<open>e = None\<close>) or running as the process \<open>e\<close>, and \<open>t\<close> is the snapshot table.
\<close>

inductive engine_service ::
  "bool \<Rightarrow> decoders \<Rightarrow> (engine_state \<Rightarrow> 'j option) \<Rightarrow> ('j \<Rightarrow> engine_state option) \<Rightarrow> engine_state \<Rightarrow>
     stream_record list \<Rightarrow> 'j engine_proc option \<Rightarrow> 'j snapshot_table \<Rightarrow> bool"
  for oc dec to_value from_value st0 where
  svc_init: "engine_service oc dec to_value from_value st0 [] None empty_table"
| svc_command: "engine_service oc dec to_value from_value st0 rs e t \<Longrightarrow> stream_ok (rs @ [r]) \<Longrightarrow> proper_ids [r] \<Longrightarrow>
    reset_free [r] \<Longrightarrow> engine_service oc dec to_value from_value st0 (rs @ [r]) e t"
| svc_boot: "engine_service oc dec to_value from_value st0 rs None t \<Longrightarrow> xrange_spec rs xrange \<Longrightarrow>
    start_engine oc dec from_value xrange st0 pub (Some t) ''0-0'' = Some p \<Longrightarrow>
    engine_service oc dec to_value from_value st0 rs (Some p) t"
| svc_loop: "engine_service oc dec to_value from_value st0 rs (Some p) t \<Longrightarrow> poll_of None (ep_last_id p) rs q \<Longrightarrow>
    engine_loop oc dec to_value [Polled q] p = Some (p', True) \<Longrightarrow> ep_db p' = Some t' \<Longrightarrow>
    engine_service oc dec to_value from_value st0 rs (Some p') t'"
| svc_stop: "engine_service oc dec to_value from_value st0 rs (Some p) t \<Longrightarrow>
    engine_service oc dec to_value from_value st0 rs None t"

text \<open>
  The process holds the state after a prefix of the stream and stands at the end of this prefix; the table
  holds a snapshot of a prefix.
\<close>

definition follows ::
  "bool \<Rightarrow> decoders \<Rightarrow> (engine_state \<Rightarrow> 'j option) \<Rightarrow> engine_state \<Rightarrow> stream_record list \<Rightarrow> stream_record list \<Rightarrow>
     'j engine_proc \<Rightarrow> 'j snapshot_table \<Rightarrow> bool" where
  "follows oc dec to_value st0 pre suf p t \<longleftrightarrow> ep_db p = Some t \<and> snapshot_of oc dec to_value st0 pre t \<and>
     replay_records oc dec pre (st0, ''0-0'') = Some (ep_state p, ep_last_id p) \<and> records_after (ep_last_id p) (pre @ suf) = suf"

lemma replay_position:
  assumes "replay_records oc dec pre (st0, ''0-0'') = Some (s, i)" and "stream_ok (pre @ suf)"
  shows "records_after i (pre @ suf) = suf"
proof (cases pre rule: rev_cases)
  case Nil
  with assms(1) show ?thesis by (auto simp: records_after_start)
next
  case (snoc xs r)
  with assms(1) have "i = sr_id r" by (auto simp: replay_append bind_Some_iff split: option.splits prod.splits)
  then show ?thesis using records_after_split [of xs r suf] assms(2) snoc by simp
qed

lemma proper_ids_append: "proper_ids (xs @ ys) \<longleftrightarrow> proper_ids xs \<and> proper_ids ys"
  by (auto simp: proper_ids_def)

lemma reset_free_append: "reset_free (xs @ ys) \<longleftrightarrow> reset_free xs \<and> reset_free ys"
  by (auto simp: reset_free_def)

lemma follows_batch:
  assumes at: "follows oc dec to_value st0 pre suf p t" and read: "suf = rs @ suf'" and free: "reset_free rs"
    and ok: "stream_ok (pre @ suf)" and run: "process_batch oc dec to_value rs p = Some p'" and db: "ep_db p' = Some t'"
  shows "follows oc dec to_value st0 (pre @ rs) suf' p' t'"
proof -
  have "(\<exists>t'. ep_db p' = Some t' \<and> snapshot_of oc dec to_value st0 (pre @ rs) t') \<and>
      replay_records oc dec (pre @ rs) (st0, ''0-0'') = Some (ep_state p', ep_last_id p')"
    using at process_batch_snapshot [OF run free, of pre st0 t] by (simp add: follows_def)
  moreover have "stream_ok ((pre @ rs) @ suf')" using ok read by simp
  ultimately show ?thesis using replay_position db unfolding follows_def by fastforce
qed

definition service_ok ::
  "bool \<Rightarrow> decoders \<Rightarrow> (engine_state \<Rightarrow> 'j option) \<Rightarrow> engine_state \<Rightarrow> stream_record list \<Rightarrow> 'j engine_proc option \<Rightarrow>
     'j snapshot_table \<Rightarrow> bool" where
  "service_ok oc dec to_value st0 rs e t \<longleftrightarrow> stream_ok rs \<and> proper_ids rs \<and> reset_free rs \<and>
    (case e of None \<Rightarrow> snapshot_of oc dec to_value st0 rs t
     | Some p \<Rightarrow> \<exists>pre suf. rs = pre @ suf \<and> follows oc dec to_value st0 pre suf p t)"

lemma service_ok_command:
  assumes ok: "service_ok oc dec to_value st0 rs e t" and new: "stream_ok (rs @ [r])" "proper_ids [r]" "reset_free [r]"
  shows "service_ok oc dec to_value st0 (rs @ [r]) e t"
proof (cases e)
  case None
  with assms show ?thesis by (simp add: service_ok_def snapshot_of_more proper_ids_append reset_free_append)
next
  case (Some p)
  then obtain pre suf where "rs = pre @ suf" "follows oc dec to_value st0 pre suf p t" using ok by (auto simp: service_ok_def)
  then have "follows oc dec to_value st0 pre (suf @ [r]) p t" "rs @ [r] = pre @ (suf @ [r])"
    using replay_position [of oc dec pre st0 _ _ "suf @ [r]"] new(1) by (auto simp: follows_def)
  then have "\<exists>pre suf. rs @ [r] = pre @ suf \<and> follows oc dec to_value st0 pre suf p t" by blast
  with ok new Some show ?thesis by (simp add: service_ok_def proper_ids_append reset_free_append)
qed

lemma service_ok_boot:
  assumes ok: "service_ok oc dec to_value st0 rs None t" and redis: "xrange_spec rs xrange"
    and start: "start_engine oc dec from_value xrange st0 pub (Some t) ''0-0'' = Some p"
    and codec: "\<And>s json. to_value s = Some json \<Longrightarrow> from_value json = Some s"
  shows "service_ok oc dec to_value st0 rs (Some p) t"
proof -
  have snap: "snapshot_of oc dec to_value st0 rs t" and rs: "stream_ok rs" "proper_ids rs" "reset_free rs"
    using ok by (simp_all add: service_ok_def)
  obtain s i where s: "replay_records oc dec rs (st0, ''0-0'') = Some (s, i)"
    and p: "p = \<lparr>ep_state = s, ep_pub = pub, ep_db = Some t, ep_last_id = i, ep_events = 0\<rparr>"
    using start start_engine_eq [OF snap rs(2) redis codec] by auto
  then have "follows oc dec to_value st0 rs [] p t"
    using snap replay_position [OF s, of "[]"] rs(1) by (simp add: follows_def)
  then show ?thesis using rs by (auto simp: service_ok_def)
qed

lemma service_ok_loop:
  assumes ok: "service_ok oc dec to_value st0 rs (Some p) t" and read: "poll_of None (ep_last_id p) rs q"
    and run: "engine_loop oc dec to_value [Polled q] p = Some (p', True)" and db: "ep_db p' = Some t'"
  shows "service_ok oc dec to_value st0 rs (Some p') t'"
proof -
  obtain pre suf where split: "rs = pre @ suf" and at: "follows oc dec to_value st0 pre suf p t"
    using ok by (auto simp: service_ok_def)
  have "\<exists>pre suf. rs = pre @ suf \<and> follows oc dec to_value st0 pre suf p' t'"
  proof (cases q)
    case (Records b)
    then obtain suf' where suf: "suf = b @ suf'" and batch: "process_batch oc dec to_value b p = Some p'"
      using read run at split by (auto simp: follows_def bind_Some_iff)
    have "follows oc dec to_value st0 (pre @ b) suf' p' t'"
      using follows_batch [OF at suf _ _ batch db] ok split suf by (simp add: service_ok_def reset_free_append)
    moreover have "rs = (pre @ b) @ suf'" using split suf by simp
    ultimately show ?thesis by blast
  qed (use run db at split in \<open>auto simp: follows_def\<close>)
  then show ?thesis using ok by (simp add: service_ok_def)
qed

lemma engine_service_ok:
  assumes "engine_service oc dec to_value from_value st0 rs e t"
    and codec: "\<And>s json. to_value s = Some json \<Longrightarrow> from_value json = Some s"
  shows "service_ok oc dec to_value st0 rs e t"
  using assms(1)
proof (induction rule: engine_service.induct)
  case svc_init
  then show ?case by (simp add: service_ok_def snapshot_of_empty stream_ok_def proper_ids_def reset_free_def)
next
  case (svc_boot rs t xrange pub p)
  then show ?case using service_ok_boot codec by blast
next
  case (svc_stop rs p t)
  then show ?case by (auto simp: service_ok_def follows_def snapshot_of_more)
qed (blast intro: service_ok_command service_ok_loop)+

lemma engine_service_follows:
  assumes "engine_service oc dec to_value from_value st0 rs (Some p) t"
    and "\<And>s json. to_value s = Some json \<Longrightarrow> from_value json = Some s"
  shows "\<exists>pre suf. rs = pre @ suf \<and> follows oc dec to_value st0 pre suf p t"
  using engine_service_ok [OF assms] by (simp add: service_ok_def)

end
