(* ===== verification/Spec2Isabelle.thy ===== *)
theory Spec2Isabelle
  imports Book_Properties Engine_Properties Ledger_Properties Gateway_Properties Ws_Properties Startup
begin

text \<open>
  A verification of the exchange \<^verbatim>\<open>cex-rs\<close>: an in-memory matching engine (\<^verbatim>\<open>rs-engine\<close>), a gateway with
  HTTP routes, WebSocket sessions and a ledger worker (\<^verbatim>\<open>rs-gateway\<close>), and the messages they exchange
  (\<^verbatim>\<open>rs-shared\<close>).

  \<^bold>\<open>The program.\<close> A client sends a request to the gateway. The gateway validates it, appends a command to the
  stream \<^verbatim>\<open>engine-events\<close> and waits. The engine reads the stream, dispatches each command to a handler that
  updates balances and order books, answers on the reply queue of the gateway, and reports what
  happened (orders, trades, funding, depth) on the stream \<^verbatim>\<open>engine-executions\<close>. Two tasks of the gateway read
  that stream: the ledger worker writes orders, trades and double-entry postings to PostgreSQL, the
  listener pushes the events to subscribed WebSocket clients. The engine saves a snapshot of its state
  every thousand records and rebuilds it at start from the latest snapshot and the rest of the stream.

  \<^bold>\<open>Conventions.\<close> A \<^verbatim>\<open>u64\<close> is a natural number, and every operation on it takes the build profile \<open>oc\<close>: with
  overflow checks an overflow is a panic, \<open>None\<close>; without it the result wraps. \<^verbatim>\<open>i64\<close> conversions wrap the way
  \<^verbatim>\<open>as\<close> does; \<^verbatim>\<open>f64\<close> is binary64 with rounding to even on rational numbers. A hash map is an association
  list with distinct keys, a B-tree map one that is sorted. A panic, an error and an early return are
  values; a handler returns the new state and what it published. A loop that serves for ever is a function of
  what it meets: the results of its reads, the frames of a socket, a signal. Text is ASCII. Code outside the
  repository is an argument: JSON codecs, the token library, argon2, UUIDs, clocks, the order in which the
  database returns rows and the range query of Redis. What a theorem needs to know of an
  argument is one of its hypotheses.

  \<^bold>\<open>Shared theories.\<close>
  \<^item> \<open>Prelude\<close>: \<^verbatim>\<open>u64\<close> arithmetic, option monad, text, sums over lists, the collections of simplification rules.
  \<^item> \<open>Kv_Store\<close>: hash maps and B-tree maps. \<open>F64\<close>: floating point.
  \<^item> \<open>Shared_Models\<close> (\<^verbatim>\<open>rs-shared/src\<close>): commands, replies, execution events, balances, fees.
  \<^item> \<open>Streams\<close>: the streams of Redis and the results of a read.

  \<^bold>\<open>Order book\<close> (\<^verbatim>\<open>rs-engine/src/orderbook\<close>).
  \<^item> \<open>Orderbook\<close>: \<^verbatim>\<open>types.rs\<close> and \<^verbatim>\<open>book.rs\<close>, one definition per method; the matching loops are a loop body and
    \<open>match_while\<close> in the option monad, so not returning is a value and termination is proved.
  \<^item> \<open>Orderbook_Spec\<close>: the abstract book, two lists of orders in price-time order (\<open>depth\<close>), the operations on
    them (\<open>take_fills\<close>, \<open>enqueue\<close>) and the invariant \<open>book_inv\<close>.
  \<^item> \<open>Orderbook_Refine\<close>, \<open>Orderbook_Match\<close>, \<open>Orderbook_Place\<close>, \<open>Orderbook_Ops\<close>, \<open>Orderbook_Snapshot\<close>: every operation keeps
    the invariant and implements its abstract counterpart, without a panic.
  \<^item> \<open>Book_Api\<close>: the interface as locales, their interpretation on the book, and what follows from the laws
    alone; \<open>Book_Properties\<close>: the properties of the book.

  \<^bold>\<open>Engine\<close> (\<^verbatim>\<open>rs-engine/src\<close>).
  \<^item> \<open>Engine_State\<close> (\<^verbatim>\<open>state.rs\<close>) and \<open>Handlers\<close> (\<^verbatim>\<open>handlers/\<close>): state, balances and every handler on every branch.
  \<^item> \<open>Engine\<close> (\<^verbatim>\<open>engine.rs\<close>, \<^verbatim>\<open>snapshot.rs\<close>): dispatch, replay, recovery at start, batches, the snapshot table.
  \<^item> \<open>Ledger\<close>: balances as accounts, a locale interpreted for USD and for each asset; \<open>Settlement\<close>, \<open>Order_Exec\<close>:
    settling trades, one at a time and for a whole run; \<open>Engine_Inv\<close>: the invariant. It says that ledgers
    are well-formed, totals fit into 64 bits, books are sound, uncrossed and share no id, and what a user
    has locked covers the user's resting orders.
  \<^item> \<open>Handler_Limit\<close>, \<open>Handler_Market\<close>, \<open>Handler_Order\<close>, \<open>Handler_Cancel\<close>, \<open>Handler_Account\<close>: the handlers keep the invariant,
    conserve money, and have exactly the described effect. \<open>Publisher\<close>: handlers only append to what is
    published.
  \<^item> \<open>Engine_Safety\<close>: replay and crash recovery; \<open>Engine_Loop\<close>: the loop of \<^verbatim>\<open>engine.rs\<close>, and the engine as a service that
    is stopped and started while commands arrive (\<open>engine_service\<close>); \<open>Engine_Run\<close>: the engine as a state machine, its reachable
    states, one reply per command; \<open>Scenario\<close>: concrete states for instances; \<open>Engine_Properties\<close>: properties.

  \<^bold>\<open>Ledger worker\<close> (\<^verbatim>\<open>rs-gateway/src/ledger/worker.rs\<close>).
  \<^item> \<open>Ledger_Worker\<close>: the SQL of every event as an update of tables, batches, commits, the loop.
  \<^item> \<open>Ledger_Postings\<close>: postings balance; \<open>Ledger_Run\<close>: every event is applied exactly once, whatever commits and
    restarts do; \<open>Ledger_Reconcile\<close>: engine and ledger put together; \<open>Ledger_Properties\<close>: properties.

  \<^bold>\<open>Gateway, HTTP\<close> (\<^verbatim>\<open>rs-gateway/src\<close>).
  \<^item> \<open>Dto\<close> (\<^verbatim>\<open>dto/\<close>), \<open>Password\<close> (\<^verbatim>\<open>auth/hash.rs\<close>), \<open>Gateway\<close> (\<^verbatim>\<open>redis/listener.rs\<close>, \<^verbatim>\<open>auth/jwt.rs\<close>, \<^verbatim>\<open>routes/auth.rs\<close>), \<open>Routes\<close> (the
    other routes), \<open>Metrics\<close> (\<^verbatim>\<open>metrics.rs\<close>, \<^verbatim>\<open>routes/metrics.rs\<close>), \<open>Router\<close> (\<^verbatim>\<open>routes/mod.rs\<close>, the middleware and the
    measurement around it). A route that awaits the engine is the command together with the continuation.
  \<^item> \<open>Rate_Limit\<close> (\<^verbatim>\<open>rate_limit/\<close>): the token buckets in floating point; \<open>Rate_Bound\<close>: what they let through in the long run.
  \<^item> \<open>Http_Roundtrip\<close>: the command of a waiting request carries its address, for every endpoint.
  \<^item> \<open>Gateway_Properties\<close>: a request is completed by the reply to its own command, validated orders pass the
    checks of the engine, private endpoints act for the user of the token only, accounts, burst and
    sustained limits.

  \<^bold>\<open>Gateway, WebSocket\<close> (\<^verbatim>\<open>rs-gateway/src/ws\<close>).
  \<^item> \<open>Ws_Hub\<close> (\<^verbatim>\<open>hub.rs\<close>), \<open>Ws_Hub_Inv\<close>: the hub, its invariant, its interface as a locale; \<open>Ws_Session\<close> (\<^verbatim>\<open>session.rs\<close>): one
    turn of a session and the loop; \<open>Ws_Listener\<close> (\<^verbatim>\<open>listener.rs\<close>): forwarding, and the interleaving of
    connections, sessions and listener as a transition system; \<open>Ws_Properties\<close>: properties.

  \<^bold>\<open>Programs.\<close> \<open>Startup\<close>: \<^verbatim>\<open>main.rs\<close> of both crates, from the environment to the running services, the shutdown signals
  and the WebSocket upgrade.

  \<^bold>\<open>This theory\<close> has the properties that span components: the order handler and crash recovery.

  \<^bold>\<open>Bounds.\<close> Results about orders assume that price times quantity, with fees, fits into 64 bits
  (\<open>limit_fits\<close>, \<open>market_fits\<close>), and funding that the total of the currency does (\<open>event_fits\<close>); \<open>Engine_Properties\<close>
  shows what happens otherwise. Fees are at most 100 per cent (\<open>fees_ok\<close>). The ledger needs amounts and user
  ids below 2 to the 63 (\<open>event_ok\<close>). Client ids of the hub do not wrap. The sustained limits are for
  capacities and rates up to 2 to the 20 (\<open>limiter_small\<close>); the default policy has at most 100. There is no fuel: structural
  recursion, measures, and for the matching loops the option monad with a proof that they return.

  \<^bold>\<open>Not modelled.\<close> The spawning and aborting of tasks, which the transition systems replace by interleaving; the
  text encodings of third-party libraries; the module declarations of the \<^verbatim>\<open>lib.rs\<close> files; the address that
  \<^verbatim>\<open>extract_client_ip\<close> reads from the connection, an argument; the tests. A handler runs
  under the lock of the engine, so its steps are atomic; the locks of the hub are taken one after the
  other, and an operation of the hub is taken as one step. A Redis command that fails inside a handler
  panics the engine and is outside the model, as are single SQL statements that fail inside a batch.
\<close>

section \<open>The order handler\<close>

text \<open>
  C1. The order handler on a sound engine, for every message whose amounts fit into 64 bits (every
  branch, errors included, either build profile): it returns, the invariant holds again, and no unit
  of USD or of any asset is created or lost.
\<close>

theorem order_handler_keeps_invariant:
  assumes "engine_inv st" and "msg_fits st msg"
  shows "\<exists>st' pub'. handle_order oc st pub msg = Some (st', pub') \<and> engine_inv st' \<and>
    usd_total st' = usd_total st \<and> (\<forall>a. asset_total a st' = asset_total a st)"
  using handle_order_safe [OF assms, of oc pub] by (auto simp: safe_step_def conserves_def)

theorem order_handler_keeps_invariant_witness:
  "engine_inv scn_open \<and> msg_fits scn_open scn_buy \<and>
   (\<exists>st' pub'. handle_order True scn_open (Some []) scn_buy = Some (st', pub') \<and> engine_inv st' \<and>
     usd_total st' = usd_total scn_open \<and> (\<forall>a. asset_total a st' = asset_total a scn_open))"
  using order_handler_keeps_invariant [OF scn_open_inv scn_buy_fits(1), of True "Some []"]
    scn_open_inv scn_buy_fits(1) by blast

text \<open>
  C2. A limit order of a user with sufficient funds: the handler fills it against the opposite side
  in price-time order (\<open>limit_fills\<close>), rests what is left of a good-till-cancelled order behind every
  order that is not worse, pays sellers and the treasury exactly the value and the fees of the trades,
  takes from the taker exactly what was spent or is still reserved, reports every trade, and replies.
\<close>

theorem limit_order_effect:
  assumes "engine_inv st" and "supported a" and "0 < om_price msg" and "0 < qty" and "qty < u64_lim"
    and "limit_fits (es_fee_schedule st) (nat (om_price msg)) qty" and "next_order_id st + 1 < u64_lim"
    and "limit_funded st msg a s qty"
    and "limit_fills (om_time_in_force msg) s (nat (om_price msg)) qty (depth (opposite s) (book_of st a)) = (fl, os', n')"
    and "r = (if om_time_in_force msg = Gtc then n' else 0)"
  shows "\<exists>st'. handle_limit oc st pub msg a market s qty =
      Some (False, st', limit_reply (emit_all pub (fill_events st (om_user_id msg) st' a market s fl)) msg market qty
        (sum_of snd fl) (resting_of (next_order_id st) (om_user_id msg) s (nat (om_price msg)) r)) \<and>
    order_post st a (om_user_id msg) s (nat (om_price msg)) fl os' r st'"
  using limit_order_done [OF assms(1-9), of oc pub market] assms(10) by (simp add: limit_done_def rest_qty_def)

theorem limit_order_effect_witness:
  "\<exists>st'. handle_limit True scn_open (Some []) scn_buy ''sol'' ''SOL_USD'' Bid 4 =
      Some (False, st', limit_reply (emit_all (Some []) (fill_events scn_open 2 st' ''sol'' ''SOL_USD'' Bid [(scn_resting, 4)]))
        scn_buy ''SOL_USD'' 4 4 None) \<and>
    order_post scn_open ''sol'' 2 Bid 100 [(scn_resting, 4)] [scn_resting\<lparr>ord_remaining_qty := 6\<rparr>] 0 st'"
proof -
  have "limit_fits (es_fee_schedule scn_open) (nat (om_price scn_buy)) 4" "limit_funded scn_open scn_buy ''sol'' Bid 4"
    "limit_fills (om_time_in_force scn_buy) Bid (nat (om_price scn_buy)) 4 (depth (opposite Bid) (book_of scn_open ''sol'')) =
      ([(scn_resting, 4)], [scn_resting\<lparr>ord_remaining_qty := 6\<rparr>], 0)" "next_order_id scn_open + 1 < u64_lim"
    by code_simp+
  moreover have "0 < om_price scn_buy" "om_user_id scn_buy = 2" "om_price scn_buy = 100"
    by (simp_all add: scn_buy_def scn_msg_def)
  ultimately show ?thesis
    using limit_order_effect [OF scn_open_inv, where a = "''sol''" and msg = scn_buy and qty = 4 and s = Bid and r = 0
        and oc = True and pub = "Some []" and market = "''SOL_USD''"]
    by (simp add: supported_def u64_lim_def resting_of_def)
qed

section \<open>Replay and recovery\<close>

text \<open>
  C4. Crash recovery. An engine that started on an empty snapshot table and processed the records
  \<open>rs\<close> (no reset among them), snapshots included, is restarted: the fresh process restores the latest
  snapshot, replays what the stream holds after it, and ends in the state and at the stream position
  of the engine that crashed. Relied on: \<^verbatim>\<open>XRANGE\<close> returns the records after the given id, Redis ids
  are neither empty nor \<^verbatim>\<open>0-0\<close>, and decoding an encoded state gives it back.
\<close>

theorem crash_recovery:
  assumes "process_batch oc dec to_value rs
      \<lparr>ep_state = st0, ep_pub = pub, ep_db = Some empty_table, ep_last_id = ''0-0'', ep_events = n\<rparr> = Some p"
    and "reset_free rs" and "proper_ids rs" and "xrange_spec rs xrange"
    and "\<And>s json. to_value s = Some json \<Longrightarrow> from_value json = Some s"
  shows "\<exists>q. start_engine oc dec from_value xrange st0 pub' (ep_db p) ''0-0'' = Some q \<and>
    ep_state q = ep_state p \<and> ep_last_id q = ep_last_id p"
  using recovery [OF assms] .

theorem crash_recovery_witness:
  "\<exists>p q. process_batch True scn_decoders Some scn_stream scn_proc = Some p \<and> ep_db p \<noteq> Some empty_table \<and>
     start_engine True scn_decoders Some scn_xrange scn_empty (Some []) (ep_db p) ''0-0'' = Some q \<and>
     ep_state q = ep_state p \<and> ep_last_id q = ep_last_id p"
proof -
  have "map_option (\<lambda>p. ep_db p = Some empty_table) (process_batch True scn_decoders Some scn_stream scn_proc) = Some False"
    by code_simp
  then obtain p where p: "process_batch True scn_decoders Some scn_stream scn_proc = Some p"
    "ep_db p \<noteq> Some empty_table" by auto
  then show ?thesis
    using crash_recovery [of True scn_decoders Some scn_stream scn_empty "Some []" 998 p scn_xrange Some "Some []"]
      scn_stream_ok scn_xrange_spec by (auto simp: scn_proc_def)
qed

text \<open>
  C5. The engine as a service never loses a command and never applies one twice. Commands arrive on the
  stream at any time, the engine reads them in batches of any size, reads time out or fail, snapshots are
  saved, and the process stops or crashes at any record and is started again, any number of times: whenever
  the engine is running, its state is the one after some prefix of the stream, and what it will read next
  is exactly the rest of the stream. (No reset among the commands; relied on as for recovery.)
\<close>

theorem engine_follows_log:
  assumes "engine_service oc dec to_value from_value st0 rs (Some p) t"
    and "\<And>s json. to_value s = Some json \<Longrightarrow> from_value json = Some s"
  shows "\<exists>pre suf. rs = pre @ suf \<and> replay_records oc dec pre (st0, ''0-0'') = Some (ep_state p, ep_last_id p) \<and>
    records_after (ep_last_id p) rs = suf"
  using engine_service_follows [OF assms] by (auto simp: follows_def)

theorem engine_follows_log_witness:
  "\<exists>p t. engine_service True scn_decoders Some Some scn_empty scn_stream (Some p) t \<and> available (usd_of (ep_state p) 7) = 50 \<and>
     (\<exists>pre suf. scn_stream = pre @ suf \<and> replay_records True scn_decoders pre (scn_empty, ''0-0'') = Some (ep_state p, ep_last_id p) \<and>
       records_after (ep_last_id p) scn_stream = suf)"
proof -
  let ?r = "hd scn_stream" and ?p0 = "scn_proc\<lparr>ep_events := 0\<rparr>"
  let ?svc = "engine_service True scn_decoders Some Some scn_empty"
  have split: "scn_stream = [?r] @ [scn_stream ! 1]" by (simp add: scn_stream_def)
  have free: "stream_ok scn_stream" "stream_ok [?r]" "proper_ids [?r]" "reset_free [?r]"
    "proper_ids [scn_stream ! 1]" "reset_free [scn_stream ! 1]"
    using scn_stream_ok proper_ids_append [of "[?r]" "[scn_stream ! 1]"] reset_free_append [of "[?r]" "[scn_stream ! 1]"] split
    by (simp_all add: stream_ok_def scn_stream_def)
  have "map_option (\<lambda>(p, b). (ep_db p, b)) (engine_loop True scn_decoders Some [Polled (Records [?r])] ?p0) = Some (Some empty_table, True)"
    by code_simp
  then obtain p1 where p1: "engine_loop True scn_decoders Some [Polled (Records [?r])] ?p0 = Some (p1, True)" "ep_db p1 = Some empty_table"
    by auto
  have "map_option (\<lambda>p. available (usd_of (ep_state p) 7)) (start_engine True scn_decoders Some scn_xrange scn_empty (Some []) (Some empty_table) ''0-0'') = Some 50"
    by code_simp
  then obtain p2 where p2: "start_engine True scn_decoders Some scn_xrange scn_empty (Some []) (Some empty_table) ''0-0'' = Some p2"
    "available (usd_of (ep_state p2) 7) = 50" by auto
  have "start_engine True scn_decoders Some (\<lambda>_. Some []) scn_empty (Some []) (Some empty_table) ''0-0'' = Some ?p0"
    by (simp add: start_engine_def load_latest_snapshot_def latest_row_def empty_table_def replay_events_since_def scn_proc_def)
  then have "?svc [] (Some ?p0) empty_table"
    by (rule svc_boot [OF svc_init, rotated]) (simp add: xrange_spec_def)
  then have "?svc [?r] (Some ?p0) empty_table" using svc_command [of True scn_decoders Some Some scn_empty "[]" _ _ ?r] free by simp
  then have "?svc [?r] (Some p1) empty_table"
    by (rule svc_loop [OF _ _ p1]) (simp add: scn_proc_def records_after_start)
  then have "?svc scn_stream None empty_table"
    using svc_command [OF svc_stop, of True scn_decoders Some Some scn_empty "[?r]" p1 empty_table "scn_stream ! 1"] free split by simp
  then have "?svc scn_stream (Some p2) empty_table" by (rule svc_boot [OF _ scn_xrange_spec p2(1)])
  with engine_follows_log [OF this] p2(2) show ?thesis by blast
qed

end
